(* ===== verification/Prelude.thy ===== *)
theory Prelude
  imports Main "HOL-Library.Word"
begin

text \<open>
  Shared vocabulary of the development: the machine types of the 32-bit ARM kernel the sources
  are built for, the failures a C program runs into where HOL would silently return some value,
  and the generic lemmas on words, lists and outcomes that the component theories use.
\<close>

unbundle bit_operations_syntax

section \<open>Machine types\<close>

text \<open>
  On the target (ARMv7, ILP32) \<open>unsigned int\<close>, \<open>unsigned long\<close> and every pointer have 32 bits.
  A pointer that is only stored, compared and printed is its address; the null pointer is 0.
\<close>

type_synonym u8 = "8 word"
type_synonym u16 = "16 word"
type_synonym u32 = "32 word"
type_synonym u64 = "64 word"
type_synonym addr = "32 word"

section \<open>Failures as values\<close>

text \<open>
  What the C code does where it leaves its defined behaviour, or stops the machine on purpose.
\<close>

datatype fault =
    OutOfBounds   \<comment> \<open>an array is read or written outside its bounds\<close>
  | NullDeref     \<comment> \<open>a null pointer is followed\<close>
  | UseAfterFree  \<comment> \<open>an object is used after it was released\<close>
  | BugOn         \<comment> \<open>a \<open>BUG()\<close>, \<open>BUG_ON()\<close> or driver \<open>ASSERT()\<close> fires\<close>

type_synonym 'a outcome = "fault + 'a"

definition bind_outcome :: "'a outcome \<Rightarrow> ('a \<Rightarrow> 'b outcome) \<Rightarrow> 'b outcome" where
  "bind_outcome m f = (case m of Inl e \<Rightarrow> Inl e | Inr a \<Rightarrow> f a)"

fun fold_outcome :: "('a \<Rightarrow> 's \<Rightarrow> 's outcome) \<Rightarrow> 'a list \<Rightarrow> 's \<Rightarrow> 's outcome" where
  "fold_outcome f [] s = Inr s"
| "fold_outcome f (x # xs) s = bind_outcome (f x s) (fold_outcome f xs)"

definition nth_checked :: "'a list \<Rightarrow> nat \<Rightarrow> 'a outcome" where
  "nth_checked xs i = (if i < length xs then Inr (xs ! i) else Inl OutOfBounds)"

definition upd_checked :: "'a list \<Rightarrow> nat \<Rightarrow> 'a \<Rightarrow> 'a list outcome" where
  "upd_checked xs i v = (if i < length xs then Inr (xs[i := v]) else Inl OutOfBounds)"

named_theorems outcome_simps \<open>equations that evaluate outcomes\<close>

lemma bind_outcome_Inl [simp, outcome_simps]: "bind_outcome (Inl e) f = Inl e"
  by (simp add: bind_outcome_def)

lemma bind_outcome_Inr [simp, outcome_simps]: "bind_outcome (Inr a) f = f a"
  by (simp add: bind_outcome_def)

lemma bind_outcome_eq_Inr:
  "bind_outcome m f = Inr b \<longleftrightarrow> (\<exists>a. m = Inr a \<and> f a = Inr b)"
  by (cases m) auto

lemma nth_checked_in [simp, outcome_simps]: "i < length xs \<Longrightarrow> nth_checked xs i = Inr (xs ! i)"
  by (simp add: nth_checked_def)

lemma upd_checked_in [simp, outcome_simps]:
  "i < length xs \<Longrightarrow> upd_checked xs i v = Inr (xs[i := v])"
  by (simp add: upd_checked_def)

lemma nth_checked_out [outcome_simps]:
  "length xs \<le> i \<Longrightarrow> nth_checked xs i = Inl OutOfBounds"
  by (simp add: nth_checked_def)

lemma upd_checked_out [outcome_simps]:
  "length xs \<le> i \<Longrightarrow> upd_checked xs i v = Inl OutOfBounds"
  by (simp add: upd_checked_def)

lemma bind_outcome_Inr_id [simp]: "bind_outcome m Inr = m"
  by (cases m) simp_all

lemma fold_outcome_Nil [simp]: "fold_outcome f [] = Inr"
  by (rule ext) simp

lemma fold_outcome_append:
  "fold_outcome f (xs @ ys) s = bind_outcome (fold_outcome f xs s) (fold_outcome f ys)"
  by (induction xs arbitrary: s) (auto simp: bind_outcome_def split: sum.splits)

section \<open>Words\<close>

lemma unat_inc: "(w :: 'a::len word) \<noteq> - 1 \<Longrightarrow> unat (w + 1) = Suc (unat w)"
  by (metis add.commute add_eq_0_iff unatSuc)

lemma unat_dec: "(w :: 'a::len word) \<noteq> 0 \<Longrightarrow> unat (w - 1) = unat w - 1"
  by (metis unat_minus_one)

lemma unat_all_ones_32 [simp]: "unat (- 1 :: u32) = 4294967295"
  by (simp add: unsigned_minus_1_eq_mask mask_eq_exp_minus_1)

lemma unat_32_bound [simp]: "unat (w :: u32) < 4294967296"
  using unsigned_less [of w] by simp

lemma odd_half_32: "0 \<le> x \<Longrightarrow> x < 4294967296 \<Longrightarrow> odd (x div 2147483648) \<longleftrightarrow> 2147483648 \<le> (x :: int)"
proof (cases "2147483648 \<le> x")
  case True
  moreover assume "x < 4294967296"
  ultimately have "x div 2147483648 = 1" by (intro int_div_pos_eq [of _ _ _ "x - 2147483648"]) auto
  with True show ?thesis by simp
next
  case False
  moreover assume "0 \<le> x"
  ultimately have "x div 2147483648 = 0" by (intro div_pos_pos_trivial) auto
  with False show ?thesis by simp
qed

lemma sint_neg_32: "sint (w :: u32) < 0 \<longleftrightarrow> 2147483648 \<le> unat w"
proof -
  have "sint w < 0 \<longleftrightarrow> bit (uint w) 31"
    by (simp add: sint_uint signed_take_bit_negative_iff)
  also have "\<dots> \<longleftrightarrow> odd (uint w div 2147483648)" by (simp add: bit_iff_odd)
  also have "\<dots> \<longleftrightarrow> 2147483648 \<le> uint w"
    using uint_lt2p [of w] by (intro odd_half_32) simp_all
  also have "\<dots> \<longleftrightarrow> int (2 ^ 31) \<le> int (unat w)" by (simp only: of_nat_unat) simp
  also have "\<dots> \<longleftrightarrow> 2147483648 \<le> unat w" by (simp only: of_nat_le_iff) simp
  finally show ?thesis .
qed

section \<open>Runs\<close>

text \<open>
  The contract of a component that runs in steps: a start state satisfies the invariant and every
  step keeps it. Then every reachable state satisfies it.
\<close>

locale invariant_run =
  fixes step :: "'s \<Rightarrow> 's \<Rightarrow> bool" and start :: "'s \<Rightarrow> bool" and good :: "'s \<Rightarrow> bool"
  assumes start_good: "start s \<Longrightarrow> good s"
    and step_good: "step s t \<Longrightarrow> good s \<Longrightarrow> good t"
begin

lemma run_good: "step\<^sup>*\<^sup>* s t \<Longrightarrow> good s \<Longrightarrow> good t"
  by (induction rule: rtranclp_induct) (auto intro: step_good)

lemma reach_good: "step\<^sup>*\<^sup>* s t \<Longrightarrow> start s \<Longrightarrow> good t"
  by (blast intro: run_good start_good)

end

end
