(* ===== verification/SepTypes.thy ===== *)
theory SepTypes
  imports Prelude
begin

text \<open>
  The data of the SEPExtract tracing framework: the kinds of trace entries and the entry itself
  (\<open>kernel/trace/sepextracttracer/sepext_trace.h\<close>), the identifiers of queues, synchronisation
  variables and state variables (\<open>include/trace/sepextract-structures.h\<close>), and the tables that
  describe them (\<open>kernel/trace/sepextract/sepextdefs.c\<close>).
\<close>

section \<open>Trace entries\<close>

text \<open>
  The enumerators in the order of the source; \<open>type_code\<close> gives their C values. The C enum closes
  with \<open>__TYPE_LAST = 0\<close>, which is the same value as \<open>__TYPE_FIRST\<close>.
\<close>

datatype sepentry_type =
    TYPE_FIRST | CTXSWITCH | SERVICEENTRY | SERVICEEXIT | PEUSTART
    | PEUSTOP | PKTEXTRACT | PKTEXTRACTN | PKTSTART | PKTSTOP | PKTENQ | PKTDEQ | LOOPSTART
    | LOOPRESTART | LOOPSTOP | QUEUECOND | THREADCOND | STATECOND | CONDEND | PKTQUEUE
    | PKTQUEUEN | SRVQUEUE | STATEQUEUE | TTWAKEUP | WAKEUP | SIRQRAISE | SLEEP | HIRQSTART
    | HIRQSTOP | SOFTIRQSTART | SOFTIRQSTOP | TASKLETSTART | TASKLETSTOP | ENQUEUE | DEQUEUE
    | WAITCOMPL | COMPL | SEMUP | SEMDOWN | TEMPSYNCH | MIGRATE | STARTIDS | ID_QUEUE
    | ID_SYNCH | ID_STATE

fun type_code :: "sepentry_type \<Rightarrow> nat" where
  "type_code TYPE_FIRST = 0"
| "type_code CTXSWITCH = 1"
| "type_code SERVICEENTRY = 2"
| "type_code SERVICEEXIT = 3"
| "type_code PEUSTART = 4"
| "type_code PEUSTOP = 5"
| "type_code PKTEXTRACT = 6"
| "type_code PKTEXTRACTN = 7"
| "type_code PKTSTART = 8"
| "type_code PKTSTOP = 9"
| "type_code PKTENQ = 10"
| "type_code PKTDEQ = 11"
| "type_code LOOPSTART = 12"
| "type_code LOOPRESTART = 13"
| "type_code LOOPSTOP = 14"
| "type_code QUEUECOND = 15"
| "type_code THREADCOND = 16"
| "type_code STATECOND = 17"
| "type_code CONDEND = 18"
| "type_code PKTQUEUE = 19"
| "type_code PKTQUEUEN = 20"
| "type_code SRVQUEUE = 21"
| "type_code STATEQUEUE = 22"
| "type_code TTWAKEUP = 23"
| "type_code WAKEUP = 24"
| "type_code SIRQRAISE = 25"
| "type_code SLEEP = 26"
| "type_code HIRQSTART = 27"
| "type_code HIRQSTOP = 28"
| "type_code SOFTIRQSTART = 29"
| "type_code SOFTIRQSTOP = 30"
| "type_code TASKLETSTART = 31"
| "type_code TASKLETSTOP = 32"
| "type_code ENQUEUE = 33"
| "type_code DEQUEUE = 34"
| "type_code WAITCOMPL = 35"
| "type_code COMPL = 36"
| "type_code SEMUP = 37"
| "type_code SEMDOWN = 38"
| "type_code TEMPSYNCH = 39"
| "type_code MIGRATE = 40"
| "type_code STARTIDS = 41"
| "type_code ID_QUEUE = 42"
| "type_code ID_SYNCH = 43"
| "type_code ID_STATE = 44"

text \<open>C compares enumerators by value: \<open>type < STARTIDS\<close> in \<open>trace_entry\<close> is this order.\<close>

lemma type_code_inject: "type_code a = type_code b \<longleftrightarrow> a = b"
  by (cases a) (cases b; simp)+

instantiation sepentry_type :: linorder
begin

definition less_eq_sepentry_type :: "sepentry_type \<Rightarrow> sepentry_type \<Rightarrow> bool" where
  "less_eq_sepentry_type a b \<longleftrightarrow> type_code a \<le> type_code b"

definition less_sepentry_type :: "sepentry_type \<Rightarrow> sepentry_type \<Rightarrow> bool" where
  "less_sepentry_type a b \<longleftrightarrow> type_code a < type_code b"

instance
  by standard (auto simp: less_eq_sepentry_type_def less_sepentry_type_def type_code_inject)

end

lemmas sepentry_type_order = less_eq_sepentry_type_def less_sepentry_type_def

text \<open>The names the user-space program prints, in the order of the source.\<close>

definition typestrings :: "string list" where
  "typestrings =
   [''CTXSW     '', ''SRVENTRY  '', ''SRVEXIT   '', ''PEUSTART  ''
    , ''PEUSTOP   '', ''PKTEXTR   '', ''PKTEXTRN  '', ''PKTSTART  '', ''PKTSTOP   ''
    , ''PKTENQ    '', ''PKTDEQ    '', ''LOOPSTART '', ''LOOPRSTART'', ''LOOPSTOP  ''
    , ''QUEUECOND '', ''THREADCOND'', ''STATECOND '', ''CONDEND   '', ''PKTQUEUE  ''
    , ''PKTQUEUEN '', ''SRVQUEUE  '', ''STATEQUEUE'', ''TTWAKEUP  '', ''WAKEUP    ''
    , ''SIRQRAISE '', ''SLEEP     '', ''HIRQENTRY '', ''HIRQEXIT  '', ''SIRQENTRY ''
    , ''SIRQEXIT  '', ''TSKLENTRY '', ''TSKLEXIT  '', ''ENQUEUE   '', ''DEQUEUE   ''
    , ''WAITCOMPL '', ''COMPL     '', ''SEMUP     '', ''SEMDOWN   '', ''TEMPSYNCH ''
    , ''MIGRATE'', ''----------'', ''ID_QUEUE'', ''ID_SYNCH'', ''ID_STATE'']"

record sepentry =
  se_type :: sepentry_type
  se_cycles :: u32
  se_pid1 :: u32
  se_pid2 :: u32
  se_data :: u32
  se_addr :: addr
  se_location :: addr
  se_currpid :: u16
  se_cpu :: u16

text \<open>\<open>sizeof(struct sepentry)\<close> on the target: seven 4-byte members and two 2-byte members.\<close>

definition sizeof_sepentry :: nat where
  "sizeof_sepentry = 7 * 4 + 2 * 2"

record sepext_stats =
  st_entrycnt :: u32
  st_ctxcnt :: u32
  st_touscnt :: u32
  st_debug :: u32

record pktextr_info =
  pi_service_id :: u32
  pi_extract_start :: u32
  pi_num_bytes :: u32

definition MAX_EXTRACTORS :: nat where
  "MAX_EXTRACTORS = 100"

text \<open>The control words exchanged with the user-space program.\<close>

definition END_OF_DATA :: u32 where "END_OF_DATA = 1000001"

definition START_TRACING :: u32 where "START_TRACING = 1000002"

definition STOP_TRACING :: u32 where "STOP_TRACING = 1000003"

definition SYNC_COMPLETE :: u32 where "SYNC_COMPLETE = 1000004"

definition WAKE_UP_USNL :: u32 where "WAKE_UP_USNL = 1000005"

definition REQUEST_ENTRY :: u32 where "REQUEST_ENTRY = 1000006"

lemmas control_words = END_OF_DATA_def START_TRACING_def STOP_TRACING_def SYNC_COMPLETE_def
  WAKE_UP_USNL_def REQUEST_ENTRY_def

section \<open>Identifiers\<close>

definition MAX_QUEUES :: nat where "MAX_QUEUES = 100"

definition MAX_SYNCH :: nat where "MAX_SYNCH = 50"

definition MAX_STATE :: nat where "MAX_STATE = 100"

lemmas sem_limits = MAX_QUEUES_def MAX_SYNCH_def MAX_STATE_def

datatype sem_queue_id =
    PKTQ_NOLOC | PKTQ_IP_BACKLOG | PKTQ_BCM4329_TXQ
    | PKTQ_WL1251_TXQ | PKTQ_NIC_RX | PKTQ_NIC_TX | PKTQ_NIC | PKTQ_DMA_READYCMD1
    | PKTQ_DMA_READYCMD2 | PKTQ_DMA_READYCMD3 | PKTQ_DMA_READYCMD4 | PKTQ_DMA_READYCMD5
    | PKTQ_DMA_READYCMD6 | PKTQ_DMA_READYCMD7 | PKTQ_DMA_READYCMD8 | PKTQ_DMA_READYCMD9
    | PKTQ_DMA_READYCMD10 | PKTQ_DMA_READYCMD11 | PKTQ_DMA_READYCMD12 | PKTQ_DMA_READYCMD13
    | PKTQ_DMA_READYCMD14 | PKTQ_DMA_READYCMD15 | PKTQ_DMA_READYCMD16 | PKTQ_QDISK
    | LAST_PKTQ | SRVQ_HI_SOFTIRQ | SRVQ_TIMER_SOFTIRQ | SRVQ_NET_TX_SOFTIRQ
    | SRVQ_NET_RX_SOFTIRQ | SRVQ_BLOCK_SOFTIRQ | SRVQ_BLOCK_IOPOLL_SOFTIRQ
    | SRVQ_TASKLET_SOFTIRQ | SRVQ_SCHED_SOFTIRQ | SRVQ_HRTIMER_SOFTIRQ | SRVQ_TASKLET
    | SRVQ_TASKLET_HI | SRVQ_HRTIMER | SRVQ_OMAP2MCSPI | SRVQ_WL1251_HWWORK | SRVQ_HIRQ
    | QUEUE_LASTSRVQ | STQ_SPISIZES | STQ_SPIOPERATIONS | QUEUE_LASTREGISTERED

fun queue_code :: "sem_queue_id \<Rightarrow> nat" where
  "queue_code PKTQ_NOLOC = 0"
| "queue_code PKTQ_IP_BACKLOG = 1"
| "queue_code PKTQ_BCM4329_TXQ = 2"
| "queue_code PKTQ_WL1251_TXQ = 3"
| "queue_code PKTQ_NIC_RX = 4"
| "queue_code PKTQ_NIC_TX = 5"
| "queue_code PKTQ_NIC = 6"
| "queue_code PKTQ_DMA_READYCMD1 = 7"
| "queue_code PKTQ_DMA_READYCMD2 = 8"
| "queue_code PKTQ_DMA_READYCMD3 = 9"
| "queue_code PKTQ_DMA_READYCMD4 = 10"
| "queue_code PKTQ_DMA_READYCMD5 = 11"
| "queue_code PKTQ_DMA_READYCMD6 = 12"
| "queue_code PKTQ_DMA_READYCMD7 = 13"
| "queue_code PKTQ_DMA_READYCMD8 = 14"
| "queue_code PKTQ_DMA_READYCMD9 = 15"
| "queue_code PKTQ_DMA_READYCMD10 = 16"
| "queue_code PKTQ_DMA_READYCMD11 = 17"
| "queue_code PKTQ_DMA_READYCMD12 = 18"
| "queue_code PKTQ_DMA_READYCMD13 = 19"
| "queue_code PKTQ_DMA_READYCMD14 = 20"
| "queue_code PKTQ_DMA_READYCMD15 = 21"
| "queue_code PKTQ_DMA_READYCMD16 = 22"
| "queue_code PKTQ_QDISK = 23"
| "queue_code LAST_PKTQ = 24"
| "queue_code SRVQ_HI_SOFTIRQ = 25"
| "queue_code SRVQ_TIMER_SOFTIRQ = 26"
| "queue_code SRVQ_NET_TX_SOFTIRQ = 27"
| "queue_code SRVQ_NET_RX_SOFTIRQ = 28"
| "queue_code SRVQ_BLOCK_SOFTIRQ = 29"
| "queue_code SRVQ_BLOCK_IOPOLL_SOFTIRQ = 30"
| "queue_code SRVQ_TASKLET_SOFTIRQ = 31"
| "queue_code SRVQ_SCHED_SOFTIRQ = 32"
| "queue_code SRVQ_HRTIMER_SOFTIRQ = 33"
| "queue_code SRVQ_TASKLET = 34"
| "queue_code SRVQ_TASKLET_HI = 35"
| "queue_code SRVQ_HRTIMER = 36"
| "queue_code SRVQ_OMAP2MCSPI = 37"
| "queue_code SRVQ_WL1251_HWWORK = 38"
| "queue_code SRVQ_HIRQ = 39"
| "queue_code QUEUE_LASTSRVQ = 40"
| "queue_code STQ_SPISIZES = 41"
| "queue_code STQ_SPIOPERATIONS = 42"
| "queue_code QUEUE_LASTREGISTERED = 43"

datatype sem_queue_type =
    QT_FIFO | QT_PRIO | QT_RED | QT_BITMAP

fun queue_type_code :: "sem_queue_type \<Rightarrow> nat" where
  "queue_type_code QT_FIFO = 0"
| "queue_type_code QT_PRIO = 1"
| "queue_type_code QT_RED = 2"
| "queue_type_code QT_BITMAP = 3"

datatype sem_queue_operation =
    QUEUE_ENQUEUE | QUEUE_DEQUEUE

fun queue_op_code :: "sem_queue_operation \<Rightarrow> nat" where
  "queue_op_code QUEUE_ENQUEUE = 0"
| "queue_op_code QUEUE_DEQUEUE = 1"

datatype sem_queue_condition =
    QUEUE_NOTEMPTY | QUEUE_EMPTY

fun queue_cond_code :: "sem_queue_condition \<Rightarrow> nat" where
  "queue_cond_code QUEUE_NOTEMPTY = 0"
| "queue_cond_code QUEUE_EMPTY = 1"

datatype sem_synch_id =
    SYNCH_TEMPORARY | SYNCH_DPC | SYNCH_MCSPI_RX | SYNCH_MCSPI_TX
    | SYNCH_LASTREGISTERED | SYNCH_LAST

fun synch_code :: "sem_synch_id \<Rightarrow> nat" where
  "synch_code SYNCH_TEMPORARY = 0"
| "synch_code SYNCH_DPC = 1"
| "synch_code SYNCH_MCSPI_RX = 2"
| "synch_code SYNCH_MCSPI_TX = 3"
| "synch_code SYNCH_LASTREGISTERED = 4"
| "synch_code SYNCH_LAST = 50"

datatype sem_synch_type =
    ST_SEMAPHORE | ST_COMPLETION

fun synch_type_code :: "sem_synch_type \<Rightarrow> nat" where
  "synch_type_code ST_SEMAPHORE = 0"
| "synch_type_code ST_COMPLETION = 1"

datatype sem_synch_scope =
    SYNCH_LOCAL | SYNCH_GLOBAL

fun synch_scope_code :: "sem_synch_scope \<Rightarrow> nat" where
  "synch_scope_code SYNCH_LOCAL = 0"
| "synch_scope_code SYNCH_GLOBAL = 1"

datatype sem_thread_condition =
    THREAD_NOTREADY | THREAD_READY

fun thread_cond_code :: "sem_thread_condition \<Rightarrow> nat" where
  "thread_cond_code THREAD_NOTREADY = 0"
| "thread_cond_code THREAD_READY = 1"

datatype sem_state_id =
    STATE_IDENTIFYVIADEVICEFILE | STATE_WORKPENDING
    | STATE_RESCHEDQDISC | STATE_STOPQDISC | STATE_READINTERRUPT | STATE_INTERRUPT
    | STATE_INTERRUPTENABLED | STATE_NUMTXCOMPLETE | STATE_IFFORXMIT
    | STATE_SIZEOFNEXTRXFROMNIC | STATE_TRIGGERNICTX | STATE_SINGLE_READ
    | STATE_DATA_AVAILABLE | STATE_CTRL_AVAILABLE | STATE_LASTREGISTERED

fun state_code :: "sem_state_id \<Rightarrow> nat" where
  "state_code STATE_IDENTIFYVIADEVICEFILE = 0"
| "state_code STATE_WORKPENDING = 1"
| "state_code STATE_RESCHEDQDISC = 2"
| "state_code STATE_STOPQDISC = 3"
| "state_code STATE_READINTERRUPT = 4"
| "state_code STATE_INTERRUPT = 5"
| "state_code STATE_INTERRUPTENABLED = 6"
| "state_code STATE_NUMTXCOMPLETE = 7"
| "state_code STATE_IFFORXMIT = 8"
| "state_code STATE_SIZEOFNEXTRXFROMNIC = 9"
| "state_code STATE_TRIGGERNICTX = 10"
| "state_code STATE_SINGLE_READ = 11"
| "state_code STATE_DATA_AVAILABLE = 12"
| "state_code STATE_CTRL_AVAILABLE = 13"
| "state_code STATE_LASTREGISTERED = 100"

datatype sem_state_scope =
    STATE_LOCAL | STATE_GLOBAL

fun state_scope_code :: "sem_state_scope \<Rightarrow> nat" where
  "state_scope_code STATE_LOCAL = 0"
| "state_scope_code STATE_GLOBAL = 1"

datatype sem_state_operation =
    STATE_READ | STATE_WRITE

fun state_op_code :: "sem_state_operation \<Rightarrow> nat" where
  "state_op_code STATE_READ = 0"
| "state_op_code STATE_WRITE = 1"

section \<open>The tables of \<open>sepextdefs.c\<close>\<close>

record sem_queue_struct =
  sq_type :: sem_queue_type
  sq_size :: u32
  sq_head :: addr
  sq_stringid :: string

record sem_synch =
  sy_type :: sem_synch_type
  sy_variable :: addr
  sy_stringid :: string

record sem_state_condition =
  sc_stringid :: string

text \<open>
  A C array with an initialiser shorter than the array has zeros in the rest: the enumerator 0,
  the size 0, the null pointer and the empty string.
\<close>

definition pad_zero :: "nat \<Rightarrow> 'a \<Rightarrow> 'a list \<Rightarrow> 'a list" where
  "pad_zero n z xs = xs @ replicate (n - length xs) z"

definition sem_queues_init :: "sem_queue_struct list" where
  "sem_queues_init = pad_zero MAX_QUEUES \<lparr>sq_type = QT_FIFO, sq_size = 0, sq_head = 0, sq_stringid = []\<rparr>
    (map (\<lambda>(t, n, s). \<lparr>sq_type = t, sq_size = n, sq_head = 0, sq_stringid = s\<rparr>)
     [(QT_FIFO, 0, ''noloc''), (QT_FIFO, 1000, ''ip:backlog'')
    , (QT_FIFO, 256, ''bcm4329:txq''), (QT_FIFO, 0, ''nic:rxtx'')
    , (QT_FIFO, 0, ''dma:readycmd1''), (QT_FIFO, 0, ''dma:readycmd2'')
    , (QT_FIFO, 0, ''dma:readycmd3''), (QT_FIFO, 0, ''dma:readycmd4'')
    , (QT_FIFO, 0, ''dma:readycmd5''), (QT_FIFO, 0, ''dma:readycmd6'')
    , (QT_FIFO, 0, ''dma:readycmd7''), (QT_FIFO, 0, ''dma:readycmd8'')
    , (QT_FIFO, 0, ''dma:readycmd9''), (QT_FIFO, 0, ''dma:readycmd10'')
    , (QT_FIFO, 0, ''dma:readycmd11''), (QT_FIFO, 0, ''dma:readycmd12'')
    , (QT_FIFO, 0, ''dma:readycmd13''), (QT_FIFO, 0, ''dma:readycmd14'')
    , (QT_FIFO, 0, ''dma:readycmd15''), (QT_FIFO, 0, ''dma:readycmd16'')
    , (QT_FIFO, 0, ''kernel:qdisc''), (QT_FIFO, 0, ''lastpktq'')
    , (QT_FIFO, 1, ''softirq:hi''), (QT_FIFO, 1, ''softirq:timer'')
    , (QT_FIFO, 1, ''softirq:tx''), (QT_FIFO, 1, ''softirq:rx'')
    , (QT_FIFO, 1, ''softirq:block''), (QT_FIFO, 1, ''softirq:block-iopoll'')
    , (QT_FIFO, 1, ''softirq:tasklet''), (QT_FIFO, 1, ''softirq:sched'')
    , (QT_FIFO, 1, ''softirq:hrtimer''), (QT_FIFO, 0, ''tasklet:scheduled'')
    , (QT_FIFO, 0, ''tasklet:scheduled-hi''), (QT_FIFO, 0, ''hrtimer:scheduled'')
    , (QT_FIFO, 0, ''wl1251:hwwork'')])"

definition sem_synchvars_init :: "sem_synch list" where
  "sem_synchvars_init = pad_zero MAX_SYNCH \<lparr>sy_type = ST_SEMAPHORE, sy_variable = 0, sy_stringid = []\<rparr>
    (map (\<lambda>(t, s). \<lparr>sy_type = t, sy_variable = 0, sy_stringid = s\<rparr>)
     [(ST_COMPLETION, ''temporary:completion''), (ST_SEMAPHORE, ''bcm4329:dpc'')
    , (ST_SEMAPHORE, ''wl12xx:mcspirx''), (ST_SEMAPHORE, ''wl12xx:mcspitx'')])"

definition sem_statevars_init :: "sem_state_condition list" where
  "sem_statevars_init = pad_zero MAX_STATE \<lparr>sc_stringid = []\<rparr> [\<lparr>sc_stringid = ''kernel:workpending''\<rparr>]"

section \<open>Facts about the data\<close>

lemma length_typestrings [simp]: "length typestrings = 44"
  by (simp add: typestrings_def)

lemma type_code_bound: "type_code t \<le> 44"
  by (cases t) simp_all

lemma length_sem_tables [simp]:
  "length sem_queues_init = MAX_QUEUES" "length sem_synchvars_init = MAX_SYNCH"
  "length sem_statevars_init = MAX_STATE"
  by (simp_all add: sem_queues_init_def sem_synchvars_init_def sem_statevars_init_def pad_zero_def
      sem_limits)

lemma id_types [simp]:
  "\<not> ID_QUEUE < STARTIDS" "\<not> ID_SYNCH < STARTIDS" "\<not> ID_STATE < STARTIDS"
  by (simp_all add: sepentry_type_order)

end
