(* ===== verification/KernelText.thy ===== *)
theory KernelText
  imports Prelude
begin

text \<open>
  The text routines of the kernel library that the tracing framework's proc files rest on: the
  character classes of \<open>lib/ctype.c\<close> and \<open>include/linux/ctype.h\<close>, \<open>skip_spaces\<close> of
  \<open>lib/string.c\<close>, and from \<open>lib/vsprintf.c\<close> the number parser \<open>simple_strtoull\<close>, the scanner
  \<open>vsscanf\<close> and the decimal printer \<open>put_dec\<close>.

  A C string is the list of its characters before the terminating NUL; reading the character at
  its end gives the NUL.
\<close>

type_synonym cstr = string

abbreviation NUL :: char where "NUL \<equiv> CHR 0x00"

definition ord :: "char \<Rightarrow> nat" where
  "ord c = of_char c"

definition hdc :: "cstr \<Rightarrow> char" where
  "hdc s = (case s of [] \<Rightarrow> NUL | c # _ \<Rightarrow> c)"

definition cstring_of :: "string \<Rightarrow> cstr" where
  "cstring_of buf = takeWhile (\<lambda>c. c \<noteq> NUL) buf"

section \<open>Character classes\<close>

abbreviation cU :: u8 where "cU \<equiv> 0x01"
abbreviation cL :: u8 where "cL \<equiv> 0x02"
abbreviation cD :: u8 where "cD \<equiv> 0x04"
abbreviation cC :: u8 where "cC \<equiv> 0x08"
abbreviation cP :: u8 where "cP \<equiv> 0x10"
abbreviation cS :: u8 where "cS \<equiv> 0x20"
abbreviation cX :: u8 where "cX \<equiv> 0x40"
abbreviation cSP :: u8 where "cSP \<equiv> 0x80"

definition ctype :: "u8 list" where
  "ctype =
    [cC,cC,cC,cC,cC,cC,cC,cC,
     cC,cC OR cS,cC OR cS,cC OR cS,cC OR cS,cC OR cS,cC,cC,
     cC,cC,cC,cC,cC,cC,cC,cC,
     cC,cC,cC,cC,cC,cC,cC,cC,
     cS OR cSP,cP,cP,cP,cP,cP,cP,cP,
     cP,cP,cP,cP,cP,cP,cP,cP,
     cD,cD,cD,cD,cD,cD,cD,cD,
     cD,cD,cP,cP,cP,cP,cP,cP,
     cP,cU OR cX,cU OR cX,cU OR cX,cU OR cX,cU OR cX,cU OR cX,cU,
     cU,cU,cU,cU,cU,cU,cU,cU,
     cU,cU,cU,cU,cU,cU,cU,cU,
     cU,cU,cU,cP,cP,cP,cP,cP,
     cP,cL OR cX,cL OR cX,cL OR cX,cL OR cX,cL OR cX,cL OR cX,cL,
     cL,cL,cL,cL,cL,cL,cL,cL,
     cL,cL,cL,cL,cL,cL,cL,cL,
     cL,cL,cL,cP,cP,cP,cP,cC,
     0,0,0,0,0,0,0,0,0,0,0,0,0,0,0,0,
     0,0,0,0,0,0,0,0,0,0,0,0,0,0,0,0,
     cS OR cSP,cP,cP,cP,cP,cP,cP,cP,cP,cP,cP,cP,cP,cP,cP,cP,
     cP,cP,cP,cP,cP,cP,cP,cP,cP,cP,cP,cP,cP,cP,cP,cP,
     cU,cU,cU,cU,cU,cU,cU,cU,cU,cU,cU,cU,cU,cU,cU,cU,
     cU,cU,cU,cU,cU,cU,cU,cP,cU,cU,cU,cU,cU,cU,cU,cL,
     cL,cL,cL,cL,cL,cL,cL,cL,cL,cL,cL,cL,cL,cL,cL,cL,
     cL,cL,cL,cL,cL,cL,cL,cP,cL,cL,cL,cL,cL,cL,cL,cL]"

definition ismask :: "char \<Rightarrow> u8" where
  "ismask c = ctype ! ord c"

definition isdigit :: "char \<Rightarrow> bool" where
  "isdigit c \<longleftrightarrow> ismask c AND cD \<noteq> 0"

definition isspace :: "char \<Rightarrow> bool" where
  "isspace c \<longleftrightarrow> ismask c AND cS \<noteq> 0"

definition isxdigit :: "char \<Rightarrow> bool" where
  "isxdigit c \<longleftrightarrow> ismask c AND (cD OR cX) \<noteq> 0"

text \<open>\<open>TOLOWER\<close> of \<open>vsprintf.c\<close>: bit 5 of the character is set.\<close>

definition TOLOWER :: "char \<Rightarrow> nat" where
  "TOLOWER c = ord c OR 0x20"

fun skip_spaces :: "cstr \<Rightarrow> cstr" where
  "skip_spaces [] = []"
| "skip_spaces (c # s) = (if isspace c then skip_spaces s else c # s)"

section \<open>Numbers from text\<close>

definition simple_guess_base :: "cstr \<Rightarrow> nat" where
  "simple_guess_base cp =
     (if hdc cp = CHR ''0'' then
        (if TOLOWER (hdc (tl cp)) = ord CHR ''x'' \<and> isxdigit (hdc (tl (tl cp))) then 16 else 8)
      else 10)"

definition digit_value :: "char \<Rightarrow> nat" where
  "digit_value c = (if isdigit c then ord c - ord CHR ''0'' else TOLOWER c - ord CHR ''a'' + 10)"

fun strtoull_loop :: "nat \<Rightarrow> u64 \<Rightarrow> cstr \<Rightarrow> u64 \<times> cstr" where
  "strtoull_loop base result [] = (result, [])"
| "strtoull_loop base result (c # cp) =
     (if isxdigit c \<and> digit_value c < base
      then strtoull_loop base (result * of_nat base + of_nat (digit_value c)) cp
      else (result, c # cp))"

definition simple_strtoull :: "cstr \<Rightarrow> nat \<Rightarrow> u64 \<times> cstr" where
  "simple_strtoull cp base0 =
     (let base = (if base0 = 0 then simple_guess_base cp else base0);
          cp' = (if base = 16 \<and> hdc cp = CHR ''0'' \<and> TOLOWER (hdc (tl cp)) = ord CHR ''x''
                 then tl (tl cp) else cp)
      in strtoull_loop base 0 cp')"

definition simple_strtoul :: "cstr \<Rightarrow> nat \<Rightarrow> u32 \<times> cstr" where
  "simple_strtoul cp base = (case simple_strtoull cp base of (r, next) \<Rightarrow> (ucast r, next))"

definition simple_strtol :: "cstr \<Rightarrow> nat \<Rightarrow> u32 \<times> cstr" where
  "simple_strtol cp base =
     (if hdc cp = CHR ''-''
      then (case simple_strtoul (tl cp) base of (r, next) \<Rightarrow> (- r, next))
      else simple_strtoul cp base)"

definition simple_strtoll :: "cstr \<Rightarrow> nat \<Rightarrow> u64 \<times> cstr" where
  "simple_strtoll cp base =
     (if hdc cp = CHR ''-''
      then (case simple_strtoull (tl cp) base of (r, next) \<Rightarrow> (- r, next))
      else simple_strtoull cp base)"

fun skip_atoi_loop :: "u32 \<Rightarrow> cstr \<Rightarrow> u32 \<times> cstr" where
  "skip_atoi_loop i [] = (i, [])"
| "skip_atoi_loop i (c # s) =
     (if isdigit c then skip_atoi_loop (i * 10 + of_nat (ord c) - of_nat (ord CHR ''0'')) s
      else (i, c # s))"

definition skip_atoi :: "cstr \<Rightarrow> u32 \<times> cstr" where
  "skip_atoi s = skip_atoi_loop 0 s"

section \<open>The scanner\<close>

text \<open>What a conversion stores through its pointer argument, at the width of the target.\<close>

datatype scan_val = V8 u8 | V16 u16 | V32 u32 | V64 u64 | VStr string | VPos nat

definition scan_qualifier :: "cstr \<Rightarrow> char option \<times> cstr" where
  "scan_qualifier fmt =
     (let c = hdc fmt in
      if c = CHR ''h'' \<or> TOLOWER c = ord CHR ''l'' \<or> TOLOWER c = ord CHR ''z'' then
        (let fmt1 = tl fmt in
         if c = hdc fmt1 then
           (if c = CHR ''h'' then (Some CHR ''H'', tl fmt1)
            else if c = CHR ''l'' then (Some CHR ''L'', tl fmt1)
            else (Some c, fmt1))
         else (Some c, fmt1))
      else (None, fmt))"

definition scan_width :: "cstr \<Rightarrow> u16 \<times> cstr" where
  "scan_width fmt =
     (if isdigit (hdc fmt) then (case skip_atoi fmt of (w, fmt') \<Rightarrow> (ucast w, fmt')) else (- 1, fmt))"

text \<open>The base and signedness of the integer conversions.\<close>

definition scan_conv :: "char \<Rightarrow> (nat \<times> bool) option" where
  "scan_conv c =
     (if c = CHR ''o'' then Some (8, False)
      else if c = CHR ''x'' \<or> c = CHR ''X'' then Some (16, False)
      else if c = CHR ''i'' then Some (0, True)
      else if c = CHR ''d'' then Some (10, True)
      else if c = CHR ''u'' then Some (10, False)
      else None)"

definition scan_digit_ok :: "nat \<Rightarrow> bool \<Rightarrow> cstr \<Rightarrow> bool" where
  "scan_digit_ok base is_sign str =
     (let digit = (if is_sign \<and> hdc str = CHR ''-'' then hdc (tl str) else hdc str)
      in \<not> (digit = NUL
           \<or> (base = 16 \<and> \<not> isxdigit digit)
           \<or> (base = 10 \<and> \<not> isdigit digit)
           \<or> (base = 8 \<and> (\<not> isdigit digit \<or> ord digit > ord CHR ''7''))
           \<or> (base = 0 \<and> \<not> isdigit digit)))"

definition scan_long :: "bool \<Rightarrow> nat \<Rightarrow> cstr \<Rightarrow> u32 \<times> cstr" where
  "scan_long is_sign base str = (if is_sign then simple_strtol str base else simple_strtoul str base)"

definition scan_int :: "char option \<Rightarrow> bool \<Rightarrow> nat \<Rightarrow> cstr \<Rightarrow> scan_val \<times> cstr" where
  "scan_int q is_sign base str =
     (if q = Some CHR ''H'' then
        (case scan_long is_sign base str of (r, next) \<Rightarrow> (V8 (ucast r), next))
      else if q = Some CHR ''h'' then
        (case scan_long is_sign base str of (r, next) \<Rightarrow> (V16 (ucast r), next))
      else if q = Some CHR ''l'' then
        (case scan_long is_sign base str of (r, next) \<Rightarrow> (V32 r, next))
      else if q = Some CHR ''L'' then
        (case (if is_sign then simple_strtoll str base else simple_strtoull str base)
         of (r, next) \<Rightarrow> (V64 r, next))
      else if q = Some CHR ''Z'' \<or> q = Some CHR ''z'' then
        (case simple_strtoul str base of (r, next) \<Rightarrow> (V32 r, next))
      else (case scan_long is_sign base str of (r, next) \<Rightarrow> (V32 r, next)))"

text \<open>The copying loops of \<open>%c\<close> and \<open>%s\<close>; the field width is a signed 16-bit counter.\<close>

fun scan_chars :: "u16 \<Rightarrow> cstr \<Rightarrow> string \<times> cstr" where
  "scan_chars fw [] = ([], [])"
| "scan_chars fw (c # str) =
     (if sint (fw - 1) > 0 \<and> str \<noteq> []
      then (case scan_chars (fw - 1) str of (s, rest) \<Rightarrow> (c # s, rest))
      else ([c], str))"

fun scan_word :: "u16 \<Rightarrow> cstr \<Rightarrow> string \<times> cstr" where
  "scan_word fw [] = ([], [])"
| "scan_word fw (c # str) =
     (if \<not> isspace c \<and> fw \<noteq> 0
      then (case scan_word (fw - 1) str of (s, rest) \<Rightarrow> (c # s, rest))
      else ([], c # str))"

text \<open>A \<open>%n\<close> at the place in the format where the scan stopped is still filled.\<close>

definition vsscanf_end :: "nat \<Rightarrow> scan_val list \<Rightarrow> cstr \<Rightarrow> nat \<Rightarrow> nat \<times> scan_val list" where
  "vsscanf_end num outs fmt pos =
     (if hdc fmt = CHR ''%'' \<and> hdc (tl fmt) = CHR ''n'' then (num, outs @ [VPos pos]) else (num, outs))"

lemma length_skip_spaces: "length (skip_spaces s) \<le> length s"
  by (induction s) auto

lemma length_skip_atoi_loop: "length (snd (skip_atoi_loop i s)) \<le> length s"
  by (induction i s rule: skip_atoi_loop.induct) auto

lemma length_scan_width: "length (snd (scan_width s)) \<le> length s"
  using length_skip_atoi_loop [of 0 s]
  by (auto simp: scan_width_def skip_atoi_def split: prod.splits)

lemma length_scan_qualifier: "length (snd (scan_qualifier s)) \<le> length s"
  by (auto simp: scan_qualifier_def Let_def)

lemma scan_shrink_literal:
  assumes "fmt \<noteq> []"
  shows "length (tl (if isspace (hd fmt) then skip_spaces (tl fmt) else fmt)) < length fmt"
  using assms length_skip_spaces [of "tl fmt"] by (cases fmt) auto

lemma scan_shrink_star:
  assumes "fmt \<noteq> []"
  shows "length (dropWhile P (tl (if isspace (hd fmt) then skip_spaces (tl fmt) else fmt))) < length fmt"
  using scan_shrink_literal [OF assms] by (rule le_less_trans [OF length_dropWhile_le])

lemma scan_shrink_conv:
  assumes "fmt \<noteq> []"
  shows "length (tl (snd (scan_qualifier (snd (scan_width
    (tl (if isspace (hd fmt) then skip_spaces (tl fmt) else fmt))))))) < length fmt"
proof -
  let ?s = "tl (if isspace (hd fmt) then skip_spaces (tl fmt) else fmt)"
  have "length (snd (scan_qualifier (snd (scan_width ?s)))) \<le> length ?s"
    using length_scan_qualifier length_scan_width by (rule le_trans)
  then show ?thesis
    using scan_shrink_literal [OF assms] by simp
qed

lemmas scan_shrinks = scan_shrink_literal scan_shrink_star scan_shrink_conv

text \<open>
  The loop of \<open>vsscanf\<close>. Each round takes at least one character off the format, so the length of
  the format bounds the number of rounds.
\<close>

function vsscanf_loop ::
  "cstr \<Rightarrow> nat \<Rightarrow> scan_val list \<Rightarrow> cstr \<Rightarrow> cstr \<Rightarrow> nat \<times> scan_val list" where
  "vsscanf_loop buf num outs fmt str =
     (if fmt = [] \<or> str = [] then vsscanf_end num outs fmt (length buf - length str)
      else
        let fmt1 = (if isspace (hd fmt) then skip_spaces (tl fmt) else fmt);
            str1 = (if isspace (hd fmt) then skip_spaces str else str)
        in
        if fmt1 = [] then vsscanf_end num outs [] (length buf - length str1)
        else if hd fmt1 \<noteq> CHR ''%'' then
          (if hd fmt1 \<noteq> hdc str1
           then vsscanf_end num outs (tl fmt1) (length buf - length str1 + 1)
           else vsscanf_loop buf num outs (tl fmt1) (tl str1))
        else if hdc (tl fmt1) = CHR ''*'' then
          vsscanf_loop buf num outs (dropWhile (\<lambda>c. \<not> isspace c \<and> c \<noteq> CHR ''%'') (tl fmt1))
            (dropWhile (\<lambda>c. \<not> isspace c) str1)
        else
          let fw = fst (scan_width (tl fmt1));
              fmt3 = snd (scan_width (tl fmt1));
              q = fst (scan_qualifier fmt3);
              fmt4 = snd (scan_qualifier fmt3)
          in
          if fmt4 = [] \<or> str1 = [] then vsscanf_end num outs fmt4 (length buf - length str1)
          else if hd fmt4 = CHR ''c'' then
            (case scan_chars (if fw = - 1 then 1 else fw) str1 of
               (s, rest) \<Rightarrow> vsscanf_loop buf (num + 1) (outs @ [VStr s]) (tl fmt4) rest)
          else if hd fmt4 = CHR ''s'' then
            (case scan_word (if fw = - 1 then 32767 else fw) (skip_spaces str1) of
               (s, rest) \<Rightarrow> vsscanf_loop buf (num + 1) (outs @ [VStr s]) (tl fmt4) rest)
          else if hd fmt4 = CHR ''n'' then
            vsscanf_loop buf num (outs @ [VPos (length buf - length str1)]) (tl fmt4) str1
          else if hd fmt4 = CHR ''%'' then
            (if hd str1 \<noteq> CHR ''%'' then (num, outs)
             else vsscanf_loop buf num outs (tl fmt4) (tl str1))
          else
            (case scan_conv (hd fmt4) of
               None \<Rightarrow> (num, outs)
             | Some (base, is_sign) \<Rightarrow>
                 let str2 = skip_spaces str1 in
                 if \<not> scan_digit_ok base is_sign str2
                 then vsscanf_end num outs (tl fmt4) (length buf - length str2)
                 else (case scan_int q is_sign base str2 of
                         (v, next) \<Rightarrow> vsscanf_loop buf (num + 1) (outs @ [v]) (tl fmt4) next)))"
  by pat_completeness auto
termination
  by (relation "measure (\<lambda>(buf, num, outs, fmt, str). length fmt)")
    (simp_all only: in_measure split_conv wf_measure, (rule scan_shrinks, blast)+)

declare vsscanf_loop.simps [simp del]

definition sscanf :: "cstr \<Rightarrow> cstr \<Rightarrow> nat \<times> scan_val list" where
  "sscanf buf fmt = vsscanf_loop buf 0 [] fmt buf"

section \<open>The decimal printer\<close>

text \<open>
  \<open>put_dec_trunc\<close>, \<open>put_dec_full\<close> and \<open>put_dec\<close> write the digits of a number, least significant
  first, dividing by ten with multiplications and shifts. The intermediate values stay below
  \<open>2 ^ 32\<close> for the arguments the callers pass (below 100000), so natural numbers are exact here.
\<close>

definition digit_char :: "nat \<Rightarrow> char" where
  "digit_char d = char_of (d + ord CHR ''0'')"

definition put_dec_trunc :: "nat \<Rightarrow> string" where
  "put_dec_trunc q =
     (let d1 = (q div 2 ^ 4) mod 16;
          d2 = (q div 2 ^ 8) mod 16;
          d3 = q div 2 ^ 12;
          d0 = 6 * (d3 + d2 + d1) + q mod 16;
          q0 = (d0 * 0xcd) div 2 ^ 11;
          c0 = d0 - 10 * q0;
          d1' = q0 + 9 * d3 + 5 * d2 + d1
      in if d1' = 0 then [digit_char c0]
         else
           let q1 = (d1' * 0xcd) div 2 ^ 11;
               c1 = d1' - 10 * q1;
               d2' = q1 + 2 * d2
           in if d2' = 0 \<and> d3 = 0 then [digit_char c0, digit_char c1]
              else
                let q2 = (d2' * 0xd) div 2 ^ 7;
                    c2 = d2' - 10 * q2;
                    d3' = q2 + 4 * d3
                in if d3' = 0 then [digit_char c0, digit_char c1, digit_char c2]
                   else
                     let q3 = (d3' * 0xcd) div 2 ^ 11;
                         c3 = d3' - 10 * q3
                     in [digit_char c0, digit_char c1, digit_char c2, digit_char c3]
                        @ (if q3 \<noteq> 0 then [digit_char q3] else []))"

definition put_dec_full :: "nat \<Rightarrow> string" where
  "put_dec_full q =
     (let d1 = (q div 2 ^ 4) mod 16;
          d2 = (q div 2 ^ 8) mod 16;
          d3 = q div 2 ^ 12;
          d0 = 6 * (d3 + d2 + d1) + q mod 16;
          q0 = (d0 * 0xcd) div 2 ^ 11;
          c0 = d0 - 10 * q0;
          d1' = q0 + 9 * d3 + 5 * d2 + d1;
          q1 = (d1' * 0xcd) div 2 ^ 11;
          c1 = d1' - 10 * q1;
          d2' = q1 + 2 * d2;
          q2 = (d2' * 0xd) div 2 ^ 7;
          c2 = d2' - 10 * q2;
          d3' = q2 + 4 * d3;
          q3 = (d3' * 0xcd) div 2 ^ 11;
          c3 = d3' - 10 * q3
      in [digit_char c0, digit_char c1, digit_char c2, digit_char c3, digit_char q3])"

fun put_dec :: "nat \<Rightarrow> string" where
  "put_dec num =
     (if num < 100000 then put_dec_trunc num
      else put_dec_full (num mod 100000) @ put_dec (num div 100000))"

declare put_dec.simps [simp del]

text \<open>The reference: the decimal digits of a number, least significant first.\<close>

fun dec_digits :: "nat \<Rightarrow> nat list" where
  "dec_digits n = (if n < 10 then [n] else n mod 10 # dec_digits (n div 10))"

declare dec_digits.simps [simp del]

lemma mult_shift_div10:
  assumes "x < 400"
  shows "(x * 0xcd) div 2 ^ 11 = x div (10 :: nat)"
proof (rule div_nat_eqI)
  have x: "x = 10 * (x div 10) + x mod 10" "x mod 10 < 10" "x div 10 < 40"
    using assms by simp_all
  show "2 ^ 11 * (x div 10) \<le> x * 0xcd" using x by simp
  show "x * 0xcd < 2 ^ 11 * Suc (x div 10)" using x by simp
qed

lemma mult_shift7_div10:
  assumes "x < 64"
  shows "(x * 0xd) div 2 ^ 7 = x div (10 :: nat)"
proof (rule div_nat_eqI)
  have x: "x = 10 * (x div 10) + x mod 10" "x mod 10 < 10" "x div 10 < 7"
    using assms by simp_all
  show "2 ^ 7 * (x div 10) \<le> x * 0xd" using x by simp
  show "x * 0xd < 2 ^ 7 * Suc (x div 10)" using x assms by simp
qed

text \<open>
  The arithmetic of the printers: with \<open>h1 h2 h3\<close> the upper hexadecimal digits of the argument,
  the sums stay in the range where the multiplications divide by ten, and their remainders are
  the decimal digits.
\<close>

lemma dec_carry_sum:
  fixes q :: nat
  assumes "q = m + 16 * h1 + 256 * h2 + 4096 * h3" "6 * (h3 + h2 + h1) + m = 10 * a0 + b0"
    "a0 + 9 * h3 + 5 * h2 + h1 = 10 * a1 + b1" "a1 + 2 * h2 = 10 * a2 + b2" "e3 = a2 + 4 * h3"
  shows "q = b0 + 10 * b1 + 100 * b2 + 1000 * e3"
  using assms by simp

lemma dec_carry_digits:
  fixes q :: nat
  assumes "q < 100000"
  defines "h1 \<equiv> (q div 2 ^ 4) mod 16" and "h2 \<equiv> (q div 2 ^ 8) mod 16" and "h3 \<equiv> q div 2 ^ 12"
  defines "e0 \<equiv> 6 * (h3 + h2 + h1) + q mod 16"
  defines "e1 \<equiv> e0 div 10 + 9 * h3 + 5 * h2 + h1"
  defines "e2 \<equiv> e1 div 10 + 2 * h2"
  defines "e3 \<equiv> e2 div 10 + 4 * h3"
  shows "e0 < 400" "e1 < 400" "e2 < 64" "e3 < 400"
    and "q = e0 mod 10 + 10 * (e1 mod 10) + 100 * (e2 mod 10) + 1000 * e3"
proof -
  have "q div 2 ^ 4 = 16 * (q div 2 ^ 8) + h1" "q div 2 ^ 8 = 16 * h3 + h2"
    unfolding h1_def h2_def h3_def
    using div_mult2_eq [of q "2 ^ 4" 16] div_mult2_eq [of q "2 ^ 8" 16] by simp_all
  then have q: "q = q mod 16 + 16 * h1 + 256 * h2 + 4096 * h3"
    using mod_mult_div_eq [of q 16] by simp
  have h: "h1 < 16" "h2 < 16" "h3 < 25" "q mod 16 < 16"
    using assms(1) by (auto simp: h1_def h2_def h3_def)
  have e0: "e0 < 340" using h unfolding e0_def by simp
  then show "e0 < 400" by simp
  from e0 have "e0 div 10 < 34" by simp
  then have e1: "e1 < 340" using h unfolding e1_def by simp
  then show "e1 < 400" by simp
  from e1 have "e1 div 10 < 34" by simp
  then show "e2 < 64" using h unfolding e2_def by simp
  then have "e2 div 10 < 7" by simp
  then show "e3 < 400" using h unfolding e3_def by simp
  show "q = e0 mod 10 + 10 * (e1 mod 10) + 100 * (e2 mod 10) + 1000 * e3"
    by (rule dec_carry_sum [OF q, where ?a0.0 = "e0 div 10" and ?a1.0 = "e1 div 10"
          and ?a2.0 = "e2 div 10"])
      (simp_all only: e0_def [symmetric] e1_def [symmetric] e2_def [symmetric] e3_def [symmetric]
        mult_div_mod_eq)
qed

lemma digit_split:
  fixes c :: nat
  assumes "c < 10"
  shows "(c + 10 * r) mod 10 = c" "(c + 10 * r) div 10 = r"
  using assms by simp_all

lemma dec_digits_split:
  assumes "c < 10" "0 < r"
  shows "dec_digits (c + 10 * r) = c # dec_digits r"
  using assms digit_split [OF assms(1), of r] by (subst dec_digits.simps) simp

lemma dec_digits_single: "c < 10 \<Longrightarrow> dec_digits c = [c]"
  by (subst dec_digits.simps) simp

text \<open>Both printers in terms of the exact carries.\<close>

lemma put_dec_exact:
  fixes q :: nat
  assumes "q < 100000"
  defines "h1 \<equiv> (q div 2 ^ 4) mod 16" and "h2 \<equiv> (q div 2 ^ 8) mod 16" and "h3 \<equiv> q div 2 ^ 12"
  defines "e0 \<equiv> 6 * (h3 + h2 + h1) + q mod 16"
  defines "e1 \<equiv> e0 div 10 + 9 * h3 + 5 * h2 + h1"
  defines "e2 \<equiv> e1 div 10 + 2 * h2"
  defines "e3 \<equiv> e2 div 10 + 4 * h3"
  shows "put_dec_full q = map digit_char [e0 mod 10, e1 mod 10, e2 mod 10, e3 mod 10, e3 div 10]"
    and "put_dec_trunc q = map digit_char
      (if e1 = 0 then [e0 mod 10]
       else if e2 = 0 \<and> h3 = 0 then [e0 mod 10, e1 mod 10]
       else if e3 = 0 then [e0 mod 10, e1 mod 10, e2 mod 10]
       else [e0 mod 10, e1 mod 10, e2 mod 10, e3 mod 10]
            @ (if e3 div 10 = 0 then [] else [e3 div 10]))"
proof -
  note b = dec_carry_digits(1-4) [OF assms(1), folded h1_def h2_def h3_def,
      folded e0_def, folded e1_def, folded e2_def, folded e3_def]
  note m = mult_shift_div10 [OF b(1)] mult_shift_div10 [OF b(2)] mult_shift7_div10 [OF b(3)]
    mult_shift_div10 [OF b(4)]
  note f = h1_def [symmetric] h2_def [symmetric] h3_def [symmetric] e0_def [symmetric]
    e1_def [symmetric] e2_def [symmetric] e3_def [symmetric] m minus_mult_div_eq_mod
  show "put_dec_full q = map digit_char [e0 mod 10, e1 mod 10, e2 mod 10, e3 mod 10, e3 div 10]"
    by (simp only: put_dec_full_def Let_def f list.map)
  show "put_dec_trunc q = map digit_char
      (if e1 = 0 then [e0 mod 10]
       else if e2 = 0 \<and> h3 = 0 then [e0 mod 10, e1 mod 10]
       else if e3 = 0 then [e0 mod 10, e1 mod 10, e2 mod 10]
       else [e0 mod 10, e1 mod 10, e2 mod 10, e3 mod 10]
            @ (if e3 div 10 = 0 then [] else [e3 div 10]))"
    by (simp only: put_dec_trunc_def Let_def f) simp
qed

lemma put_dec_trunc_digits:
  assumes "q < 100000"
  shows "put_dec_trunc q = map digit_char (dec_digits q)"
proof -
  define h1 h2 h3 where "h1 = (q div 2 ^ 4) mod 16" "h2 = (q div 2 ^ 8) mod 16" "h3 = q div 2 ^ 12"
  define e0 where "e0 = 6 * (h3 + h2 + h1) + q mod 16"
  define e1 where "e1 = e0 div 10 + 9 * h3 + 5 * h2 + h1"
  define e2 where "e2 = e1 div 10 + 2 * h2"
  define e3 where "e3 = e2 div 10 + 4 * h3"
  note d = h1_h2_h3_def e0_def e1_def e2_def e3_def
  have q: "q = e0 mod 10 + 10 * (e1 mod 10) + 100 * (e2 mod 10) + 1000 * e3"
    using dec_carry_digits(5) [OF assms] by (simp only: d)
  have "e3 < 100" using q assms by simp
  have p: "put_dec_trunc q = map digit_char
      (if e1 = 0 then [e0 mod 10]
       else if e2 = 0 \<and> h3 = 0 then [e0 mod 10, e1 mod 10]
       else if e3 = 0 then [e0 mod 10, e1 mod 10, e2 mod 10]
       else [e0 mod 10, e1 mod 10, e2 mod 10, e3 mod 10]
            @ (if e3 div 10 = 0 then [] else [e3 div 10]))"
    using put_dec_exact(2) [OF assms] by (simp only: d)
  have lt: "e0 mod 10 < 10" "e1 mod 10 < 10" "e2 mod 10 < 10" by simp_all
  have q': "q = e0 mod 10 + 10 * (e1 mod 10 + 10 * (e2 mod 10 + 10 * e3))"
    using q by simp
  have e3: "dec_digits e3 = e3 mod 10 # (if e3 div 10 = 0 then [] else [e3 div 10])"
    using \<open>e3 < 100\<close> dec_digits_single [of "e3 div 10"] by (subst dec_digits.simps) auto
  consider "e1 = 0" "e2 = 0" "e3 = 0" | "e1 \<noteq> 0" "e2 = 0" "h3 = 0" "e3 = 0" "e1 mod 10 > 0"
    | "e1 \<noteq> 0" "\<not> (e2 = 0 \<and> h3 = 0)" "e3 = 0" "e2 mod 10 > 0"
    | "e1 \<noteq> 0" "\<not> (e2 = 0 \<and> h3 = 0)" "e3 \<noteq> 0"
    by (cases "e1 = 0"; cases "e2 = 0"; cases "h3 = 0"; cases "e3 = 0")
      (auto simp: e1_def e2_def e3_def)
  then show ?thesis
    by cases (simp_all only: p arg_cong [OF q', of dec_digits],
      simp_all add: lt dec_digits_split dec_digits_single e3 del: distrib_left_numeral)
qed


lemma put_dec_full_digits:
  assumes "q < 100000" "0 < r"
  shows "put_dec_full q @ map digit_char (dec_digits r) = map digit_char (dec_digits (q + 100000 * r))"
proof -
  define h1 h2 h3 where "h1 = (q div 2 ^ 4) mod 16" and "h2 = (q div 2 ^ 8) mod 16" and "h3 = q div 2 ^ 12"
  define e0 where "e0 = 6 * (h3 + h2 + h1) + q mod 16"
  define e1 where "e1 = e0 div 10 + 9 * h3 + 5 * h2 + h1"
  define e2 where "e2 = e1 div 10 + 2 * h2"
  define e3 where "e3 = e2 div 10 + 4 * h3"
  note defs = h1_def h2_def h3_def e0_def e1_def e2_def e3_def
  have q: "q = e0 mod 10 + 10 * (e1 mod 10) + 100 * (e2 mod 10) + 1000 * e3"
    using dec_carry_digits(5) [OF assms(1)] unfolding defs .
  then have "e3 < 100" using assms(1) by simp
  then have "e3 div 10 < 10" by simp
  have p: "put_dec_full q = map digit_char [e0 mod 10, e1 mod 10, e2 mod 10, e3 mod 10, e3 div 10]"
    using put_dec_exact(1) [OF assms(1)] unfolding defs .
  have "q + 100000 * r = e0 mod 10 + 10 * (e1 mod 10 + 10 * (e2 mod 10 + 10 * (e3 + 100 * r)))"
    using q by simp
  also have "e3 + 100 * r = e3 mod 10 + 10 * (e3 div 10 + 10 * r)"
    using mod_mult_div_eq [of e3 10] by simp
  finally show ?thesis
    using \<open>e3 div 10 < 10\<close> assms(2) by (simp only: p) (simp add: dec_digits_split del: distrib_left_numeral)
qed

lemma put_dec_digits: "put_dec n = map digit_char (dec_digits n)"
proof (induction n rule: put_dec.induct)
  case (1 num)
  show ?case
  proof (cases "num < 100000")
    case True
    then show ?thesis using put_dec_trunc_digits by (simp add: put_dec.simps [of num])
  next
    case False
    then have "put_dec num = put_dec_full (num mod 100000) @ map digit_char (dec_digits (num div 100000))"
      using 1 by (simp add: put_dec.simps [of num])
    also have "\<dots> = map digit_char (dec_digits (num mod 100000 + 100000 * (num div 100000)))"
      using False by (intro put_dec_full_digits) auto
    finally show ?thesis by simp
  qed
qed

section \<open>Reading a printed number back\<close>

lemma digit_char_class:
  assumes "d < 10"
  shows "isdigit (digit_char d)" "isxdigit (digit_char d)" "digit_value (digit_char d) = d"
    "\<not> isspace (digit_char d)" "digit_char d \<noteq> NUL" "digit_char d \<noteq> CHR ''-''"
proof -
  have "d \<in> {0, 1, 2, 3, 4, 5, 6, 7, 8, 9}" using assms by auto
  then show "isdigit (digit_char d)" "isxdigit (digit_char d)" "digit_value (digit_char d) = d"
    "\<not> isspace (digit_char d)" "digit_char d \<noteq> NUL" "digit_char d \<noteq> CHR ''-''"
    by (elim insertE emptyE; simp; code_simp)+
qed

lemma dec_digits_bound: "d \<in> set (dec_digits n) \<Longrightarrow> d < 10"
  by (induction n rule: dec_digits.induct) (subst (asm) (2) dec_digits.simps, auto split: if_splits)

lemma dec_digits_nonempty: "dec_digits n \<noteq> []"
  by (subst dec_digits.simps) simp

lemma dec_digits_value: "foldr (\<lambda>d v. d + 10 * v) (dec_digits n) 0 = n"
  by (induction n rule: dec_digits.induct) (subst dec_digits.simps, simp)

text \<open>A text ends its number where no further hexadecimal digit follows.\<close>

definition ends_number :: "cstr \<Rightarrow> bool" where
  "ends_number rest \<longleftrightarrow> (case rest of [] \<Rightarrow> True | c # _ \<Rightarrow> \<not> isxdigit c)"

lemma strtoull_loop_end: "ends_number rest \<Longrightarrow> strtoull_loop base acc rest = (acc, rest)"
  by (cases rest) (auto simp: ends_number_def)

lemma strtoull_loop_digits:
  assumes "\<forall>d\<in>set ds. d < 10" "ends_number rest"
  shows "strtoull_loop 10 (of_nat acc) (map digit_char ds @ rest)
    = (of_nat (foldl (\<lambda>v d. d + 10 * v) acc ds), rest)"
  using assms(1)
proof (induction ds arbitrary: acc)
  case Nil
  then show ?case using assms(2) by (simp add: strtoull_loop_end)
next
  case (Cons d ds)
  then show ?case
    using Cons.IH [of "d + 10 * acc"] by (simp add: digit_char_class algebra_simps)
qed

definition dec_string :: "nat \<Rightarrow> string" where
  "dec_string n = rev (put_dec n)"

lemma dec_string_digits: "dec_string n = map digit_char (rev (dec_digits n))"
  by (simp add: dec_string_def put_dec_digits rev_map)

lemma strtoull_loop_dec_string:
  assumes "ends_number rest"
  shows "strtoull_loop 10 0 (dec_string n @ rest) = (of_nat n, rest)"
  using strtoull_loop_digits [of "rev (dec_digits n)" rest 0] assms dec_digits_bound
  by (simp add: dec_string_digits foldr_conv_foldl [symmetric] foldl_conv_foldr dec_digits_value)

lemma simple_strtoull_dec_string:
  "ends_number rest \<Longrightarrow> simple_strtoull (dec_string n @ rest) 10 = (of_nat n, rest)"
  by (simp add: simple_strtoull_def strtoull_loop_dec_string)

lemma ucast_of_nat_64: "ucast (of_nat n :: u64) = (of_nat n :: u32)"
  by (rule bit_word_eqI) (simp add: bit_simps)

lemma simple_strtoul_dec_string:
  "ends_number rest \<Longrightarrow> simple_strtoul (dec_string n @ rest) 10 = (of_nat n, rest)"
  by (simp add: simple_strtoul_def simple_strtoull_dec_string ucast_of_nat_64)

lemma dec_string_hd:
  obtains d where "dec_string n = digit_char d # tl (dec_string n)" "d < 10"
proof -
  have "rev (dec_digits n) \<noteq> []" using dec_digits_nonempty by simp
  then obtain d ds where "rev (dec_digits n) = d # ds" by (cases "rev (dec_digits n)") auto
  moreover from this have "d < 10" using dec_digits_bound [of d n] by (metis list.set_intros(1) set_rev)
  ultimately show ?thesis using that [of d] by (simp add: dec_string_digits)
qed

section \<open>Scanning a printed number\<close>

lemma isspace_lits [simp]: "isspace CHR '' ''" "\<not> isspace CHR ''%''"
  by code_simp+

lemma isdigit_conv [simp]: "\<not> isdigit CHR ''u''" "\<not> isdigit CHR ''d''"
  by code_simp+

lemma tolower_conv [simp]: "TOLOWER CHR ''u'' = 117" "TOLOWER CHR ''d'' = 100"
  "ord CHR ''l'' = 108" "ord CHR ''z'' = 122"
  by code_simp+

lemma scan_conv_ud:
  assumes "c = CHR ''u'' \<or> c = CHR ''d''"
  shows "scan_width (c # fmt) = (- 1, c # fmt)" "scan_qualifier (c # fmt) = (None, c # fmt)"
    "scan_conv c = Some (10, c = CHR ''d'')"
  using assms by (elim disjE; simp add: scan_width_def scan_qualifier_def scan_conv_def hdc_def)+

lemma dec_string_Cons:
  obtains c s where "dec_string n = c # s" "isdigit c" "\<not> isspace c" "c \<noteq> NUL" "c \<noteq> CHR ''-''"
  using dec_string_hd [of n] digit_char_class by metis

lemma skip_spaces_dec_string [simp]: "skip_spaces (dec_string n @ rest) = dec_string n @ rest"
  by (rule dec_string_Cons [of n]) simp

lemma scan_digit_ok_dec_string [simp]: "scan_digit_ok 10 b (dec_string n @ rest)"
  by (rule dec_string_Cons [of n]) (simp add: scan_digit_ok_def hdc_def)

lemma scan_int_dec_string:
  assumes "ends_number rest"
  shows "scan_int None b 10 (dec_string n @ rest) = (V32 (of_nat n), rest)"
proof -
  have "hdc (dec_string n @ rest) \<noteq> CHR ''-''"
    by (rule dec_string_Cons [of n]) (simp add: hdc_def)
  then show ?thesis
    by (simp add: scan_int_def scan_long_def simple_strtol_def simple_strtoul_dec_string assms)
qed

lemma dec_string_not_Nil [simp]: "dec_string n \<noteq> []"
  by (rule dec_string_Cons [of n]) simp

text \<open>One round of the scanner over a decimal conversion, at the start of the format or after a space.\<close>

lemma vsscanf_loop_dec:
  assumes "c = CHR ''u'' \<or> c = CHR ''d''" "ends_number rest"
  shows "vsscanf_loop buf num outs (CHR ''%'' # c # fmt) (dec_string n @ rest)
      = vsscanf_loop buf (num + 1) (outs @ [V32 (of_nat n)]) fmt rest"
    and "vsscanf_loop buf num outs (CHR '' '' # CHR ''%'' # c # fmt) (CHR '' '' # dec_string n @ rest)
      = vsscanf_loop buf (num + 1) (outs @ [V32 (of_nat n)]) fmt rest"
proof -
  have c: "c \<notin> {CHR ''*'', CHR ''c'', CHR ''s'', CHR ''n'', CHR ''%''}" using assms(1) by auto
  show "vsscanf_loop buf num outs (CHR ''%'' # c # fmt) (dec_string n @ rest)
      = vsscanf_loop buf (num + 1) (outs @ [V32 (of_nat n)]) fmt rest"
    using c by (subst vsscanf_loop.simps)
      (simp add: scan_conv_ud [OF assms(1)] scan_int_dec_string assms(2) hdc_def)
  show "vsscanf_loop buf num outs (CHR '' '' # CHR ''%'' # c # fmt) (CHR '' '' # dec_string n @ rest)
      = vsscanf_loop buf (num + 1) (outs @ [V32 (of_nat n)]) fmt rest"
    using c by (subst vsscanf_loop.simps)
      (simp add: scan_conv_ud [OF assms(1)] scan_int_dec_string assms(2) hdc_def)
qed

lemma ends_number_simps [simp]: "ends_number []" "ends_number (c # s) \<longleftrightarrow> \<not> isxdigit c"
  by (simp_all add: ends_number_def)

lemma isxdigit_lits [simp]: "\<not> isxdigit CHR '' ''" "\<not> isxdigit CHR ''\<newline>''"
  by code_simp+

lemma vsscanf_loop_Nil: "vsscanf_loop buf num outs [] str = (num, outs)"
  by (subst vsscanf_loop.simps) (simp add: vsscanf_end_def hdc_def)

lemma sscanf_three_decimals:
  assumes "ends_number rest"
  shows "sscanf (dec_string a @ '' '' @ dec_string b @ '' '' @ dec_string c @ rest) ''%u %u %u''
    = (3, [V32 (of_nat a), V32 (of_nat b), V32 (of_nat c)])"
  using assms by (simp add: sscanf_def vsscanf_loop_dec vsscanf_loop_Nil)

lemma sscanf_one_decimal:
  assumes "ends_number rest"
  shows "sscanf (dec_string a @ rest) ''%d'' = (1, [V32 (of_nat a)])"
  using assms by (simp add: sscanf_def vsscanf_loop_dec vsscanf_loop_Nil)

end
