(* ===== verification/SepTracer.thy ===== *)
theory SepTracer
  imports SepTypes KernelText
begin

text \<open>
  The core of the tracer, \<open>kernel/trace/sepextracttracer/sepext_trace.c\<close>: the trace buffer that
  \<open>trace_entry\<close> fills, the netlink handler \<open>nl_rcv_func\<close> through which the user-space program
  drains it, the wake-up of that program, the proc command, and set-up and tear-down. The
  theory closes with the abstract log that the buffer implements and with the invariant of the
  tracer under every sequence of events.
\<close>

section \<open>State\<close>

text \<open>
  A netlink message is the C object it was copied from, the number of bytes the sender asked
  for and the addressee.
\<close>

datatype nlobj = NlWord u32 | NlEntry sepentry

record nlmsg =
  nm_obj :: nlobj
  nm_length :: u32
  nm_pid :: u32

text \<open>
  The globals of \<open>sepext_trace.c\<close> and \<open>globals.c\<close>. \<open>tracing_active\<close>, bit 0 of
  \<open>tasklet_scheduled\<close> and \<open>stop_tracing_requested\<close> only ever hold 0 and 1. \<open>lastentry\<close> is an
  \<open>atomic_t\<close> that is only compared with unsigned integers. The buffer is the empty list while the
  pointer \<open>entries\<close> is null. \<open>call_queue\<close> counts the calls of \<open>schedule_usnl\<close> posted to CPU 0 that
  have not run, \<open>sep_tasklet\<close> is the scheduled bit of the tasklet, \<open>outbox\<close> holds what was handed
  to the netlink socket. The last four fields say which resources are held.
\<close>

record tracer =
  entries :: "sepentry list"
  avail_entries :: u32
  lastread :: u32
  tracing_active :: bool
  lastentry :: u32
  tasklet_scheduled :: bool
  stop_tracing_requested :: bool
  us_pid :: u32
  stats :: sepext_stats
  sem_queues :: "sem_queue_struct list"
  sem_synchvars :: "sem_synch list"
  call_queue :: nat
  sep_tasklet :: bool
  outbox :: "nlmsg list"
  has_statsproc :: bool
  has_cmdproc :: bool
  has_buffer :: bool
  has_netlink :: bool

text \<open>
  What a call reads from the machine: the cycle counter, the current process, the processor it
  runs on, whether the allocation of a socket buffer succeeds, and what \<open>nlmsg_unicast\<close> returns.
\<close>

record sysenv =
  ev_cycles :: u32
  ev_pid :: u32
  ev_cpu :: u32
  ev_skb :: bool
  ev_unicast :: int

section \<open>Messages to user space\<close>

definition send_to_userspace :: "sysenv \<Rightarrow> nlobj \<Rightarrow> u32 \<Rightarrow> u32 \<Rightarrow> tracer \<Rightarrow> tracer" where
  "send_to_userspace env data len pid s =
     (if \<not> ev_skb env then s
      else if ev_unicast env < 0 then s
      else s\<lparr>outbox := outbox s @ [\<lparr>nm_obj = data, nm_length = len, nm_pid = pid\<rparr>]\<rparr>)"

definition awake_usnl :: "sysenv \<Rightarrow> tracer \<Rightarrow> tracer" where
  "awake_usnl env s =
     send_to_userspace env (NlWord WAKE_UP_USNL) (of_nat sizeof_sepentry) (us_pid s) s"

definition schedule_usnl :: "sysenv \<Rightarrow> tracer \<Rightarrow> tracer" where
  "schedule_usnl env s = (if us_pid s = 0 then s else awake_usnl env s)"

text \<open>
  \<open>smp_call_function_single (0, \<dots>)\<close>: on CPU 0 the function runs at once, on another CPU it is
  posted to CPU 0, which is online.
\<close>

definition smp_call_schedule_usnl :: "sysenv \<Rightarrow> tracer \<Rightarrow> tracer" where
  "smp_call_schedule_usnl env s =
     (if ev_cpu env = 0 then schedule_usnl env s else s\<lparr>call_queue := call_queue s + 1\<rparr>)"

text \<open>CPU 0 takes the interrupt for one posted call.\<close>

definition run_posted_call :: "sysenv \<Rightarrow> tracer \<Rightarrow> tracer" where
  "run_posted_call env s =
     (if call_queue s = 0 then s
      else schedule_usnl env (s\<lparr>call_queue := call_queue s - 1\<rparr>))"

section \<open>Recording an entry\<close>

record trace_args =
  ta_location :: addr
  ta_type :: sepentry_type
  ta_pid1 :: u16
  ta_pid2 :: u16
  ta_data :: u32
  ta_addr :: addr

definition targs :: "addr \<Rightarrow> sepentry_type \<Rightarrow> u16 \<Rightarrow> u16 \<Rightarrow> u32 \<Rightarrow> addr \<Rightarrow> trace_args" where
  "targs loc ty p1 p2 d ad =
     \<lparr>ta_location = loc, ta_type = ty, ta_pid1 = p1, ta_pid2 = p2, ta_data = d, ta_addr = ad\<rparr>"

text \<open>The part of \<open>trace_entry\<close> with interrupts off: it takes the next slot, if there is one.\<close>

definition trace_reserve :: "sysenv \<Rightarrow> sepentry_type \<Rightarrow> tracer \<Rightarrow> tracer \<times> u32 option" where
  "trace_reserve env type s =
     (if \<not> tracing_active s \<and> type < STARTIDS then (s, None)
      else
        let a = lastentry s + 1;
            s1 = s\<lparr>lastentry := a\<rparr>
        in
        if a > avail_entries s1 then
          (let s2 = s1\<lparr>tracing_active := False\<rparr> in
           if \<not> tasklet_scheduled s2
           then (smp_call_schedule_usnl env (s2\<lparr>tasklet_scheduled := True\<rparr>), None)
           else (s2, None))
        else (s1, Some a))"

definition new_entry :: "sysenv \<Rightarrow> trace_args \<Rightarrow> sepentry" where
  "new_entry env ta =
     \<lparr>se_type = ta_type ta, se_cycles = ev_cycles env, se_pid1 = ucast (ta_pid1 ta),
      se_pid2 = ucast (ta_pid2 ta), se_data = ta_data ta, se_addr = ta_addr ta,
      se_location = ta_location ta, se_currpid = ucast (ev_pid env), se_cpu = ucast (ev_cpu env)\<rparr>"

text \<open>The part after it: the slot is written and the entry counted.\<close>

definition trace_fill :: "sysenv \<Rightarrow> trace_args \<Rightarrow> u32 \<Rightarrow> tracer \<Rightarrow> tracer outcome" where
  "trace_fill env ta a s =
     bind_outcome (upd_checked (entries s) (unat (a - 1)) (new_entry env ta))
       (\<lambda>es. Inr (s\<lparr>entries := es, stats := (stats s)\<lparr>st_entrycnt := st_entrycnt (stats s) + 1\<rparr>\<rparr>))"

definition trace_entry :: "sysenv \<Rightarrow> trace_args \<Rightarrow> tracer \<Rightarrow> tracer outcome" where
  "trace_entry env ta s =
     (case trace_reserve env (ta_type ta) s of
        (s', None) \<Rightarrow> Inr s'
      | (s', Some a) \<Rightarrow> trace_fill env ta a s')"

section \<open>The netlink handler\<close>

text \<open>The loops of \<open>trace_IDs\<close>; each call of \<open>trace_entry\<close> has a machine environment of its own.\<close>

definition trace_queue_id :: "(nat \<Rightarrow> sysenv) \<Rightarrow> nat \<Rightarrow> tracer \<Rightarrow> tracer outcome" where
  "trace_queue_id envs i s =
     bind_outcome (nth_checked (sem_queues s) i)
       (\<lambda>q. trace_entry (envs i) (targs 0 ID_QUEUE (of_nat i) 0 0 (sq_head q)) s)"

definition trace_synch_id :: "(nat \<Rightarrow> sysenv) \<Rightarrow> nat \<Rightarrow> tracer \<Rightarrow> tracer outcome" where
  "trace_synch_id envs i s =
     bind_outcome (nth_checked (sem_synchvars s) i)
       (\<lambda>v. trace_entry (envs i) (targs 0 ID_SYNCH (of_nat i) 0 0 (sy_variable v)) s)"

definition trace_state_id :: "(nat \<Rightarrow> sysenv) \<Rightarrow> nat \<Rightarrow> tracer \<Rightarrow> tracer outcome" where
  "trace_state_id envs i s = trace_entry (envs i) (targs 0 ID_STATE (of_nat i) 0 0 0) s"

definition trace_IDs :: "(nat \<Rightarrow> nat \<Rightarrow> sysenv) \<Rightarrow> tracer \<Rightarrow> tracer outcome" where
  "trace_IDs envs s =
     bind_outcome (fold_outcome (trace_queue_id (envs 0))
         [queue_code PKTQ_NOLOC ..< queue_code QUEUE_LASTREGISTERED] s) (\<lambda>s1.
     bind_outcome (fold_outcome (trace_synch_id (envs 1))
         [synch_code SYNCH_TEMPORARY ..< synch_code SYNCH_LASTREGISTERED] s1)
       (fold_outcome (trace_state_id (envs 2))
         [state_code STATE_IDENTIFYVIADEVICEFILE ..< state_code STATE_LASTREGISTERED]))"

text \<open>The branch of \<open>nl_rcv_func\<close> that answers \<open>REQUEST_ENTRY\<close>.\<close>

definition serve_request :: "sysenv \<Rightarrow> tracer \<Rightarrow> tracer outcome" where
  "serve_request env s =
     (if stop_tracing_requested s
         \<and> (lastentry s \<le> lastread s \<or> lastread s \<ge> avail_entries s) then
        Inr ((send_to_userspace env (NlWord STOP_TRACING) 4 (us_pid s) s)
               \<lparr>stop_tracing_requested := False\<rparr>)
      else if tracing_active s \<or> lastread s \<ge> avail_entries s then
        Inr (send_to_userspace env (NlWord END_OF_DATA) 4 (us_pid s) s)
      else
        let s1 = s\<lparr>stats := (stats s)\<lparr>st_touscnt := st_touscnt (stats s) + 1\<rparr>\<rparr> in
        bind_outcome (nth_checked (entries s1) (unat (lastread s1))) (\<lambda>e.
          let s2 = send_to_userspace env (NlEntry e) (of_nat sizeof_sepentry) (us_pid s1) s1
          in Inr (s2\<lparr>lastread := lastread s2 + 1\<rparr>)))"

definition nl_rcv_func ::
  "sysenv \<Rightarrow> (nat \<Rightarrow> nat \<Rightarrow> sysenv) \<Rightarrow> u32 \<Rightarrow> u32 \<Rightarrow> tracer \<Rightarrow> tracer outcome" where
  "nl_rcv_func env envs nlmsg_pid word s0 =
     (let s = s0\<lparr>us_pid := nlmsg_pid\<rparr> in
      if word = START_TRACING then
        trace_IDs envs (s\<lparr>lastentry := 0, tracing_active := True\<rparr>)
      else if word = STOP_TRACING then
        Inr (s\<lparr>tasklet_scheduled := False, tracing_active := False, lastread := 0, lastentry := 0\<rparr>)
      else if word = SYNC_COMPLETE then
        (if \<not> tracing_active s
         then Inr (s\<lparr>lastread := 0, lastentry := 0, tasklet_scheduled := False,
                     tracing_active := True\<rparr>)
         else Inr s)
      else if word = REQUEST_ENTRY then serve_request env s
      else Inr s)"

section \<open>Stopping, and the proc files\<close>

definition stop_tracing :: "tracer \<Rightarrow> tracer" where
  "stop_tracing s =
     (let s1 = s\<lparr>tracing_active := False, stop_tracing_requested := True\<rparr> in
      if \<not> tasklet_scheduled s1 then
        (let s2 = s1\<lparr>tasklet_scheduled := True\<rparr>
         in if us_pid s2 \<noteq> 0 then s2\<lparr>sep_tasklet := True\<rparr> else s2)
      else s1)"

text \<open>The softirq runs the scheduled tasklet, whose function is \<open>awake_usnl\<close>.\<close>

definition run_sep_tasklet :: "sysenv \<Rightarrow> tracer \<Rightarrow> tracer" where
  "run_sep_tasklet env s =
     (if sep_tasklet s then awake_usnl env (s\<lparr>sep_tasklet := False\<rparr>) else s)"

definition SEPEXT_STOP :: u32 where
  "SEPEXT_STOP = 1"

definition EPERM :: int where
  "EPERM = 1"

definition printstats :: "tracer \<Rightarrow> int \<times> u32 list" where
  "printstats s = (- EPERM,
     [st_entrycnt (stats s), st_ctxcnt (stats s), st_touscnt (stats s), st_debug (stats s)])"

text \<open>
  \<open>run_command\<close>: \<open>buffer\<close> is the text at the user's address, up to the first NUL, \<open>ret\<close> the number
  of bytes \<open>copy_from_user\<close> could not copy.
\<close>

definition run_command :: "cstr \<Rightarrow> u32 \<Rightarrow> u32 \<Rightarrow> tracer \<Rightarrow> int \<times> tracer" where
  "run_command buffer count ret s =
     (if count > 5 then (- 1, s)
      else if ret \<noteq> 0 then (- 1, s)
      else
        let cmd = (case sscanf buffer ''%d'' of (_, V32 v # _) \<Rightarrow> v | _ \<Rightarrow> 0) in
        if cmd = 0 then (- 1, s)
        else (uint count, if cmd = SEPEXT_STOP then stop_tracing s else s))"

definition read_command :: "int \<times> bool" where
  "read_command = (0, True)"

section \<open>Set-up and tear-down\<close>

text \<open>
  Whether each kernel service succeeds is a parameter; \<open>vmalloc\<close> takes the size in bytes, computed
  in 32 bits as in the source, and gives the contents of the new buffer as whole entries.
\<close>

record init_env =
  ie_proc_create :: bool
  ie_create_proc_entry :: bool
  ie_vmalloc :: "u32 \<Rightarrow> sepentry list option"
  ie_netlink_create :: bool

definition initialize_tracer :: "init_env \<Rightarrow> u32 \<Rightarrow> tracer \<Rightarrow> int \<times> tracer" where
  "initialize_tracer ie num_entries s =
     (if \<not> ie_proc_create ie then (- EPERM, s)
      else
        let s1 = s\<lparr>has_statsproc := True, has_cmdproc := ie_create_proc_entry ie\<rparr> in
        case ie_vmalloc ie (of_nat sizeof_sepentry * num_entries) of
          None \<Rightarrow> (1, s1\<lparr>entries := []\<rparr>)
        | Some buf \<Rightarrow>
            let s2 = s1\<lparr>entries := buf, has_buffer := True, lastread := 0,
                        avail_entries := num_entries, tasklet_scheduled := False,
                        tracing_active := False, stop_tracing_requested := False\<rparr>
            in if \<not> ie_netlink_create ie then (1, s2) else (0, s2\<lparr>has_netlink := True\<rparr>))"

text \<open>
  \<open>tasklet_kill\<close> waits until a scheduled tasklet has run, and its function sends on the socket. In
  \<open>cleanup_tracer\<close> the socket is released before.
\<close>

definition tasklet_kill_sep :: "sysenv \<Rightarrow> tracer \<Rightarrow> tracer outcome" where
  "tasklet_kill_sep env s =
     (if sep_tasklet s \<and> \<not> has_netlink s then Inl UseAfterFree else Inr (run_sep_tasklet env s))"

definition cleanup_tracer :: "sysenv \<Rightarrow> tracer \<Rightarrow> tracer outcome" where
  "cleanup_tracer env s =
     tasklet_kill_sep env
       (s\<lparr>has_statsproc := False, has_cmdproc := False, has_buffer := False, has_netlink := False\<rparr>)"

text \<open>The globals before the module is loaded; the tables are those of \<open>sepextdefs.c\<close>.\<close>

definition tracer_boot :: tracer where
  "tracer_boot =
     \<lparr>entries = [], avail_entries = 0, lastread = 0, tracing_active = False, lastentry = 0,
      tasklet_scheduled = False, stop_tracing_requested = False, us_pid = 0,
      stats = \<lparr>st_entrycnt = 0, st_ctxcnt = 0, st_touscnt = 0, st_debug = 0\<rparr>,
      sem_queues = sem_queues_init, sem_synchvars = sem_synchvars_init,
      call_queue = 0, sep_tasklet = False, outbox = [], has_statsproc = False,
      has_cmdproc = False, has_buffer = False, has_netlink = False\<rparr>"

section \<open>Messages leave the rest of the tracer alone\<close>

text \<open>What the wake-up path can change: the outbox and the counter of posted calls.\<close>

definition same_buffer :: "tracer \<Rightarrow> tracer \<Rightarrow> bool" where
  "same_buffer s s' \<longleftrightarrow>
     s'\<lparr>outbox := [], call_queue := 0\<rparr> = s\<lparr>outbox := [], call_queue := 0\<rparr>"

lemma same_buffer_fields:
  assumes "same_buffer s s'"
  shows "entries s' = entries s" "avail_entries s' = avail_entries s" "lastread s' = lastread s"
    "tracing_active s' = tracing_active s" "lastentry s' = lastentry s"
    "tasklet_scheduled s' = tasklet_scheduled s" "us_pid s' = us_pid s"
    "stop_tracing_requested s' = stop_tracing_requested s" "stats s' = stats s"
    "sem_queues s' = sem_queues s" "sem_synchvars s' = sem_synchvars s"
    "has_netlink s' = has_netlink s"
  using assms by (cases s; cases s'; simp add: same_buffer_def)+

lemma same_buffer_refl [simp]: "same_buffer s s"
  by (simp add: same_buffer_def)

lemma same_buffer_outbox [simp]: "same_buffer s (s\<lparr>outbox := ob\<rparr>)"
  by (simp add: same_buffer_def)

lemma same_buffer_send [simp]: "same_buffer s (send_to_userspace env d n p s)"
  by (simp add: send_to_userspace_def)

lemma same_buffer_awake [simp]: "same_buffer s (awake_usnl env s)"
  by (simp add: awake_usnl_def)

lemma same_buffer_schedule [simp]: "same_buffer s (schedule_usnl env s)"
  by (simp add: schedule_usnl_def)

lemma same_buffer_smp_call [simp]: "same_buffer s (smp_call_schedule_usnl env s)"
  by (simp add: smp_call_schedule_usnl_def, simp add: same_buffer_def)

lemma same_buffer_posted [simp]: "same_buffer s (run_posted_call env s)"
  using same_buffer_schedule [of "s\<lparr>call_queue := call_queue s - 1\<rparr>" env]
  by (simp add: run_posted_call_def same_buffer_def)

section \<open>The invariant\<close>

text \<open>
  \<open>tr_wf\<close> is the shape the set-up gives the tracer: the buffer has the announced number of
  entries and the tables have their C sizes. \<open>tr_inv\<close> adds the bounds of the two cursors; the
  147 are the identifiers that \<open>trace_IDs\<close> records whether or not there is room.
\<close>

definition id_count :: nat where
  "id_count = 147"

definition tr_wf :: "tracer \<Rightarrow> bool" where
  "tr_wf s \<longleftrightarrow> length (entries s) = unat (avail_entries s) \<and> unat (avail_entries s) < 2 ^ 27
     \<and> lastread s \<le> avail_entries s
     \<and> length (sem_queues s) = MAX_QUEUES \<and> length (sem_synchvars s) = MAX_SYNCH"

definition tr_bound :: "tracer \<Rightarrow> bool" where
  "tr_bound s \<longleftrightarrow> (tracing_active s \<longrightarrow> lastentry s \<le> avail_entries s)"

definition tr_inv :: "tracer \<Rightarrow> bool" where
  "tr_inv s \<longleftrightarrow> tr_wf s \<and> tr_bound s \<and> unat (lastentry s) \<le> unat (avail_entries s) + id_count"

lemma tr_wf_same_buffer: "same_buffer s s' \<Longrightarrow> tr_wf s' = tr_wf s"
  by (simp add: tr_wf_def same_buffer_fields)

lemma tr_bound_same_buffer: "same_buffer s s' \<Longrightarrow> tr_bound s' = tr_bound s"
  by (simp add: tr_bound_def same_buffer_fields)

lemma tr_inv_same_buffer: "same_buffer s s' \<Longrightarrow> tr_inv s' = tr_inv s"
  by (simp add: tr_inv_def tr_wf_same_buffer tr_bound_same_buffer same_buffer_fields)

lemma tr_inv_lastentry:
  assumes "tr_inv s"
  shows "unat (lastentry s) + id_count < 2 ^ 32 - 1"
proof -
  have "unat (avail_entries s) < 2 ^ 27" "unat (lastentry s) \<le> unat (avail_entries s) + id_count"
    using assms by (simp_all add: tr_inv_def tr_wf_def)
  then show ?thesis by (simp add: id_count_def)
qed

section \<open>What recording does\<close>

text \<open>The three outcomes of taking a slot.\<close>

lemma trace_reserve_cases:
  obtains (off) "\<not> tracing_active s" "type < STARTIDS" "trace_reserve env type s = (s, None)"
  | (full) s' where "tracing_active s \<or> \<not> type < STARTIDS" "avail_entries s < lastentry s + 1"
      "trace_reserve env type s = (s', None)"
      "same_buffer (s\<lparr>lastentry := lastentry s + 1, tracing_active := False,
         tasklet_scheduled := True\<rparr>) s'"
  | (slot) "tracing_active s \<or> \<not> type < STARTIDS" "lastentry s + 1 \<le> avail_entries s"
      "trace_reserve env type s = (s\<lparr>lastentry := lastentry s + 1\<rparr>, Some (lastentry s + 1))"
proof (cases "\<not> tracing_active s \<and> type < STARTIDS")
  case True
  then show thesis by (intro off) (simp_all add: trace_reserve_def)
next
  case act: False
  show thesis
  proof (cases "avail_entries s < lastentry s + 1")
    case True
    then show thesis
    proof (cases "tasklet_scheduled s")
      case ts: True
      let ?s = "s\<lparr>lastentry := lastentry s + 1, tracing_active := False\<rparr>"
      have "same_buffer (?s\<lparr>tasklet_scheduled := True\<rparr>) ?s"
        using ts by (cases s) (simp add: same_buffer_def)
      with True act ts show thesis
        by (intro full [of ?s]) (auto simp: trace_reserve_def Let_def)
    next
      case False
      with True act show thesis
        by (intro full [of "smp_call_schedule_usnl env (s\<lparr>lastentry := lastentry s + 1,
              tracing_active := False, tasklet_scheduled := True\<rparr>)"])
          (auto simp: trace_reserve_def Let_def)
    qed
  next
    case False
    with act show thesis by (intro slot) (auto simp: trace_reserve_def Let_def not_less)
  qed
qed

text \<open>
  Recording never leaves the buffer as long as the counter has not reached its last value, keeps
  the shape and the bound, and moves the counter by at most one.
\<close>

lemma trace_entry_step:
  assumes "tr_wf s" "tr_bound s" "lastentry s \<noteq> - 1"
  shows "\<exists>s'. trace_entry env ta s = Inr s' \<and> tr_wf s' \<and> tr_bound s'
    \<and> avail_entries s' = avail_entries s \<and> unat (lastentry s') \<le> unat (lastentry s) + 1
    \<and> (tracing_active s' \<longrightarrow> tracing_active s)"
proof (rule trace_reserve_cases [of s "ta_type ta" env])
  assume "trace_reserve env (ta_type ta) s = (s, None)"
  then show ?thesis using assms by (simp add: trace_entry_def)
next
  fix s'
  assume r: "trace_reserve env (ta_type ta) s = (s', None)"
    and b: "same_buffer (s\<lparr>lastentry := lastentry s + 1, tracing_active := False,
      tasklet_scheduled := True\<rparr>) s'"
  then show ?thesis
    using assms by (simp add: trace_entry_def same_buffer_fields tr_wf_def tr_bound_def unat_inc)
next
  assume a: "lastentry s + 1 \<le> avail_entries s"
    and r: "trace_reserve env (ta_type ta) s = (s\<lparr>lastentry := lastentry s + 1\<rparr>, Some (lastentry s + 1))"
  have "unat (lastentry s) < length (entries s)"
    using a assms(1) unat_inc [OF assms(3)] by (simp add: tr_wf_def word_le_nat_alt)
  then show ?thesis
    using r a assms by (simp add: trace_entry_def trace_fill_def tr_wf_def tr_bound_def unat_inc)
qed

lemma trace_entry_inv:
  assumes "tr_inv s" "ta_type ta < STARTIDS"
  shows "\<exists>s'. trace_entry env ta s = Inr s' \<and> tr_inv s'"
proof (rule trace_reserve_cases [of s "ta_type ta" env])
  have l: "lastentry s \<noteq> - 1" using tr_inv_lastentry [OF assms(1)] by auto
  obtain s' where s': "trace_entry env ta s = Inr s'" "tr_wf s'" "tr_bound s'"
      "avail_entries s' = avail_entries s" "unat (lastentry s') \<le> unat (lastentry s) + 1"
    using trace_entry_step [OF _ _ l, of env ta] assms(1) by (auto simp: tr_inv_def)
  have act: "\<exists>s'. trace_entry env ta s = Inr s' \<and> tr_inv s'" if "tracing_active s"
  proof -
    have "unat (lastentry s) \<le> unat (avail_entries s)"
      using assms(1) that by (simp add: tr_inv_def tr_bound_def word_le_nat_alt)
    with s' show ?thesis by (auto simp: tr_inv_def id_count_def)
  qed
  { assume "trace_reserve env (ta_type ta) s = (s, None)"
    then show ?thesis using assms(1) by (simp add: trace_entry_def) }
  { assume "tracing_active s \<or> \<not> ta_type ta < STARTIDS"
    then show ?thesis using act assms(2) by blast }
  { assume "tracing_active s \<or> \<not> ta_type ta < STARTIDS"
    then show ?thesis using act assms(2) by blast }
qed

text \<open>A loop of recordings, each within the range of the counter.\<close>

lemma fold_trace_step:
  assumes step: "\<And>x s. x \<in> set xs \<Longrightarrow> tr_wf s \<Longrightarrow> \<exists>env ta. f x s = trace_entry env ta s"
    and "tr_wf s" "tr_bound s" "unat (lastentry s) + length xs < 2 ^ 32"
  shows "\<exists>s'. fold_outcome f xs s = Inr s' \<and> tr_wf s' \<and> tr_bound s'
    \<and> avail_entries s' = avail_entries s \<and> unat (lastentry s') \<le> unat (lastentry s) + length xs"
  using assms
proof (induction xs arbitrary: s)
  case Nil
  then show ?case by simp
next
  case (Cons x xs)
  have l: "lastentry s \<noteq> - 1" using Cons.prems(4) by auto
  from Cons.prems obtain env ta where "f x s = trace_entry env ta s" by fastforce
  with trace_entry_step [OF Cons.prems(2,3) l, of env ta] obtain s1
    where s1: "f x s = Inr s1" "tr_wf s1" "tr_bound s1" "avail_entries s1 = avail_entries s"
      "unat (lastentry s1) \<le> unat (lastentry s) + 1" by auto
  have "\<exists>s'. fold_outcome f xs s1 = Inr s' \<and> tr_wf s' \<and> tr_bound s'
    \<and> avail_entries s' = avail_entries s1 \<and> unat (lastentry s') \<le> unat (lastentry s1) + length xs"
    using Cons.prems s1 by (intro Cons.IH) auto
  with s1 show ?case by auto
qed

lemma id_calls:
  assumes "tr_wf s"
  shows "i < 43 \<Longrightarrow> \<exists>env ta. trace_queue_id envs i s = trace_entry env ta s"
    "i < 4 \<Longrightarrow> \<exists>env ta. trace_synch_id envs i s = trace_entry env ta s"
    "\<exists>env ta. trace_state_id envs i s = trace_entry env ta s"
  using assms
  by (auto simp: trace_queue_id_def trace_synch_id_def trace_state_id_def tr_wf_def sem_limits)

lemma trace_IDs_inv:
  assumes "tr_wf s" "tr_bound s" "lastentry s = 0"
  shows "\<exists>s'. trace_IDs envs s = Inr s' \<and> tr_inv s'"
proof -
  obtain s1 where s1: "fold_outcome (trace_queue_id (envs 0)) [0..<43] s = Inr s1" "tr_wf s1"
      "tr_bound s1" "avail_entries s1 = avail_entries s" "unat (lastentry s1) \<le> 43"
    using fold_trace_step [of "[0..<43]" "trace_queue_id (envs 0)" s] assms id_calls(1) by auto
  obtain s2 where s2: "fold_outcome (trace_synch_id (envs 1)) [0..<4] s1 = Inr s2" "tr_wf s2"
      "tr_bound s2" "avail_entries s2 = avail_entries s" "unat (lastentry s2) \<le> 47"
    using fold_trace_step [of "[0..<4]" "trace_synch_id (envs 1)" s1] s1 id_calls(2) by auto
  obtain s3 where "fold_outcome (trace_state_id (envs 2)) [0..<100] s2 = Inr s3" "tr_wf s3"
      "tr_bound s3" "avail_entries s3 = avail_entries s" "unat (lastentry s3) \<le> 147"
    using fold_trace_step [of "[0..<100]" "trace_state_id (envs 2)" s2] s2 id_calls(3) by auto
  with s1 s2 show ?thesis
    by (simp add: trace_IDs_def tr_inv_def id_count_def del: upt_Suc upt_conv_Cons)
qed

lemma serve_request_inv:
  assumes "tr_inv s"
  shows "\<exists>s'. serve_request env s = Inr s' \<and> tr_inv s'"
proof -
  have wf: "length (entries s) = unat (avail_entries s)" "lastread s \<le> avail_entries s"
    using assms by (simp_all add: tr_inv_def tr_wf_def)
  consider (stop) "stop_tracing_requested s \<and> (lastentry s \<le> lastread s \<or> lastread s \<ge> avail_entries s)"
    | (eod) "\<not> (stop_tracing_requested s \<and> (lastentry s \<le> lastread s \<or> lastread s \<ge> avail_entries s))"
        "tracing_active s \<or> lastread s \<ge> avail_entries s"
    | (ent) "\<not> (stop_tracing_requested s \<and> (lastentry s \<le> lastread s \<or> lastread s \<ge> avail_entries s))"
        "\<not> tracing_active s" "lastread s < avail_entries s"
    by force
  then show ?thesis
  proof cases
    case stop
    then show ?thesis
      using assms same_buffer_fields [OF same_buffer_send [of s env "NlWord STOP_TRACING" 4 "us_pid s"]]
      by (simp add: serve_request_def tr_inv_def tr_wf_def tr_bound_def)
  next
    case eod
    then show ?thesis
      using assms by (auto simp: serve_request_def tr_inv_same_buffer [OF same_buffer_send])
  next
    case ent
    let ?s1 = "s\<lparr>stats := (stats s)\<lparr>st_touscnt := st_touscnt (stats s) + 1\<rparr>\<rparr>"
    let ?s2 = "send_to_userspace env (NlEntry (entries s ! unat (lastread s)))
      (of_nat sizeof_sepentry) (us_pid s) ?s1"
    have i: "unat (lastread s) < length (entries s)"
      using wf(1) ent(3) by (simp add: word_less_nat_alt)
    have "lastread s + 1 \<le> avail_entries s"
      using ent(3) by (rule inc_le)
    then have "tr_inv (?s2\<lparr>lastread := lastread s + 1\<rparr>)"
      using assms by (simp add: tr_inv_def tr_wf_def tr_bound_def
          same_buffer_fields [OF same_buffer_send [of ?s1]])
    then show ?thesis
      using ent i by (auto simp: serve_request_def Let_def same_buffer_fields [OF same_buffer_send [of ?s1]])
  qed
qed

lemma nl_rcv_func_inv:
  assumes "tr_inv s"
  shows "\<exists>s'. nl_rcv_func env envs pid w s = Inr s' \<and> tr_inv s'"
proof -
  have us: "tr_inv (s\<lparr>us_pid := pid\<rparr>)"
    using assms by (simp add: tr_inv_def tr_wf_def tr_bound_def)
  have start: "\<exists>s'. trace_IDs envs (s\<lparr>us_pid := pid, lastentry := 0, tracing_active := True\<rparr>) = Inr s'
      \<and> tr_inv s'"
    using assms by (intro trace_IDs_inv) (simp_all add: tr_inv_def tr_wf_def tr_bound_def)
  show ?thesis
    using us start serve_request_inv [OF us, of env] assms
    by (auto simp: nl_rcv_func_def Let_def tr_inv_def tr_wf_def tr_bound_def)
qed

lemma stop_tracing_inv: "tr_inv s \<Longrightarrow> tr_inv (stop_tracing s)"
  by (simp add: stop_tracing_def tr_inv_def tr_wf_def tr_bound_def Let_def)

lemma run_command_inv: "tr_inv s \<Longrightarrow> tr_inv (snd (run_command buf n r s))"
  by (simp add: run_command_def Let_def stop_tracing_inv)

lemma run_sep_tasklet_inv: "tr_inv s \<Longrightarrow> tr_inv (run_sep_tasklet env s)"
  using tr_inv_same_buffer [OF same_buffer_awake [of "s\<lparr>sep_tasklet := False\<rparr>" env]]
  by (simp add: run_sep_tasklet_def tr_inv_def tr_wf_def tr_bound_def)

section \<open>Every sequence of events\<close>

text \<open>
  What can happen to the tracer between set-up and tear-down: a probe records (its type is below
  \<open>STARTIDS\<close>), a netlink message arrives, CPU 0 runs a posted call, the softirq runs the tasklet,
  or the command file is written.
\<close>

datatype tr_event =
    EvTrace sysenv trace_args
  | EvNetlink sysenv "nat \<Rightarrow> nat \<Rightarrow> sysenv" u32 u32
  | EvPosted sysenv
  | EvTasklet sysenv
  | EvCommand cstr u32 u32

fun tr_event_ok :: "tr_event \<Rightarrow> bool" where
  "tr_event_ok (EvTrace env ta) = (ta_type ta < STARTIDS)"
| "tr_event_ok _ = True"

fun tr_exec :: "tr_event \<Rightarrow> tracer \<Rightarrow> tracer outcome" where
  "tr_exec (EvTrace env ta) s = trace_entry env ta s"
| "tr_exec (EvNetlink env envs pid w) s = nl_rcv_func env envs pid w s"
| "tr_exec (EvPosted env) s = Inr (run_posted_call env s)"
| "tr_exec (EvTasklet env) s = Inr (run_sep_tasklet env s)"
| "tr_exec (EvCommand buf n r) s = Inr (snd (run_command buf n r s))"

lemma tr_exec_inv:
  assumes "tr_inv s" "tr_event_ok e"
  shows "\<exists>s'. tr_exec e s = Inr s' \<and> tr_inv s'"
  using assms
  by (cases e) (simp_all add: trace_entry_inv nl_rcv_func_inv tr_inv_same_buffer [OF same_buffer_posted]
      run_sep_tasklet_inv run_command_inv)

lemma tr_run_inv:
  assumes "tr_inv s" "\<forall>e\<in>set es. tr_event_ok e"
  shows "\<exists>s'. fold_outcome tr_exec es s = Inr s' \<and> tr_inv s'"
  using assms
proof (induction es arbitrary: s)
  case (Cons e es)
  then obtain s1 where "tr_exec e s = Inr s1" "tr_inv s1" using tr_exec_inv [of s e] by auto
  with Cons show ?case by auto
qed simp

text \<open>A buffer of the requested size, and the set-up.\<close>

definition vmalloc_ok :: "(u32 \<Rightarrow> sepentry list option) \<Rightarrow> bool" where
  "vmalloc_ok vm \<longleftrightarrow> (\<forall>n buf. vm n = Some buf \<longrightarrow> length buf = unat n div sizeof_sepentry)"

lemma buffer_size:
  fixes n :: u32
  assumes "unat n < 2 ^ 27"
  shows "unat (of_nat sizeof_sepentry * n) div sizeof_sepentry = unat n"
proof -
  have "unat (32 * n :: u32) = 32 * unat n"
    using assms by (simp add: unat_word_ariths)
  then show ?thesis by (simp add: sizeof_sepentry_def)
qed

lemma initialize_tracer_inv:
  assumes "vmalloc_ok (ie_vmalloc ie)" "unat num < 2 ^ 27"
    "initialize_tracer ie num tracer_boot = (0, s)"
  shows "tr_inv s"
proof -
  obtain buf where buf: "ie_vmalloc ie (of_nat sizeof_sepentry * num) = Some buf" "ie_proc_create ie"
      "ie_netlink_create ie"
    using assms(3) by (auto simp: initialize_tracer_def Let_def EPERM_def split: if_splits option.splits)
  then have "length buf = unat num"
    using assms(1) buffer_size [OF assms(2)] by (auto simp: vmalloc_ok_def)
  moreover have "s = tracer_boot\<lparr>has_statsproc := True, has_cmdproc := ie_create_proc_entry ie,
      entries := buf, has_buffer := True, avail_entries := num, has_netlink := True\<rparr>"
    using assms(3) buf by (simp add: initialize_tracer_def Let_def tracer_boot_def)
  ultimately show ?thesis
    using assms(2) by (simp add: tr_inv_def tr_wf_def tr_bound_def tracer_boot_def)
qed

end
