(* ===== verification/SepLog.thy ===== *)
theory SepLog
  imports SepTracer
begin

text \<open>
  The contract of the trace buffer: a log of bounded length that takes entries while it is
  switched on, switches itself off at the first entry it has no room for, and is read out in
  order. \<open>trace_sink\<close> is the interface the probes rely on; it is interpreted on \<open>trace_entry\<close>.
\<close>

section \<open>The abstract log\<close>

record blog =
  bl_cap :: nat
  bl_log :: "sepentry list"
  bl_on :: bool

definition blog_trace :: "sepentry \<Rightarrow> blog \<Rightarrow> blog" where
  "blog_trace e b =
     (if \<not> bl_on b \<and> se_type e < STARTIDS then b
      else if length (bl_log b) < bl_cap b then b\<lparr>bl_log := bl_log b @ [e]\<rparr>
      else b\<lparr>bl_on := False\<rparr>)"

lemma blog_trace_cap [simp]: "bl_cap (blog_trace e b) = bl_cap b"
  by (simp add: blog_trace_def)

lemma fold_blog_cap [simp]: "bl_cap (fold blog_trace es b) = bl_cap b"
  by (induction es arbitrary: b) simp_all

lemma fold_blog_off:
  "\<not> bl_on b \<Longrightarrow> \<forall>e\<in>set es. se_type e < STARTIDS \<Longrightarrow> fold blog_trace es b = b"
  by (induction es arbitrary: b) (simp_all add: blog_trace_def)

text \<open>While there is room a switched-on log takes everything, in order.\<close>

lemma fold_blog_room:
  "bl_on b \<Longrightarrow> length (bl_log b) + length es \<le> bl_cap b
    \<Longrightarrow> fold blog_trace es b = b\<lparr>bl_log := bl_log b @ es\<rparr>"
  by (induction es arbitrary: b) (simp_all add: blog_trace_def)

lemma fold_blog_take:
  assumes "bl_on b" "length (bl_log b) \<le> bl_cap b" "\<forall>e\<in>set es. se_type e < STARTIDS"
  shows "fold blog_trace es b =
    \<lparr>bl_cap = bl_cap b, bl_log = take (bl_cap b) (bl_log b @ es),
     bl_on = (length (bl_log b) + length es \<le> bl_cap b)\<rparr>"
  using assms
proof (induction es arbitrary: b)
  case Nil
  then show ?case by (cases b) simp
next
  case (Cons e es)
  show ?case
  proof (cases "length (bl_log b) < bl_cap b")
    case True
    then show ?thesis using Cons by (simp add: blog_trace_def take_Cons')
  next
    case False
    then have "fold blog_trace es (b\<lparr>bl_on := False\<rparr>) = b\<lparr>bl_on := False\<rparr>"
      using Cons.prems by (intro fold_blog_off) simp_all
    moreover have "blog_trace e b = b\<lparr>bl_on := False\<rparr>"
      using False Cons.prems by (simp add: blog_trace_def)
    ultimately show ?thesis
      using False Cons.prems by (cases b) simp
  qed
qed

section \<open>The interface of the recorder\<close>

locale trace_sink =
  fixes emit :: "'c \<Rightarrow> 's \<Rightarrow> 's outcome"
    and ent :: "'c \<Rightarrow> sepentry"
    and view :: "'s \<Rightarrow> blog"
    and ok :: "'s \<Rightarrow> bool"
  assumes emit_spec: "ok s \<Longrightarrow> se_type (ent c) < STARTIDS
      \<Longrightarrow> \<exists>s'. emit c s = Inr s' \<and> ok s' \<and> view s' = blog_trace (ent c) (view s)"
    and view_bound: "ok s \<Longrightarrow> length (bl_log (view s)) \<le> bl_cap (view s)"
begin

lemma emit_all:
  assumes "ok s" "\<forall>c\<in>set cs. se_type (ent c) < STARTIDS"
  shows "\<exists>s'. fold_outcome emit cs s = Inr s' \<and> ok s'
    \<and> view s' = fold blog_trace (map ent cs) (view s)"
  using assms
proof (induction cs arbitrary: s)
  case (Cons c cs)
  from emit_spec [OF Cons.prems(1)] Cons.prems(2) obtain s1
    where s1: "emit c s = Inr s1" "ok s1" "view s1 = blog_trace (ent c) (view s)" by auto
  have "\<exists>s'. fold_outcome emit cs s1 = Inr s' \<and> ok s' \<and> view s' = fold blog_trace (map ent cs) (view s1)"
    using Cons s1(2) by (intro Cons.IH) auto
  with s1 show ?case by auto
qed simp

lemma emit_all_prefix:
  assumes "ok s" "bl_on (view s)" "\<forall>c\<in>set cs. se_type (ent c) < STARTIDS"
  shows "\<exists>s'. fold_outcome emit cs s = Inr s' \<and> ok s' \<and> view s' =
    \<lparr>bl_cap = bl_cap (view s), bl_log = take (bl_cap (view s)) (bl_log (view s) @ map ent cs),
     bl_on = (length (bl_log (view s)) + length cs \<le> bl_cap (view s))\<rparr>"
proof -
  have "fold blog_trace (map ent cs) (view s) =
    \<lparr>bl_cap = bl_cap (view s), bl_log = take (bl_cap (view s)) (bl_log (view s) @ map ent cs),
     bl_on = (length (bl_log (view s)) + length (map ent cs) \<le> bl_cap (view s))\<rparr>"
    using assms by (intro fold_blog_take) (auto simp: view_bound)
  with emit_all [OF assms(1,3)] show ?thesis by auto
qed

end

section \<open>The buffer implements the log\<close>

definition tr_view :: "tracer \<Rightarrow> blog" where
  "tr_view s = \<lparr>bl_cap = unat (avail_entries s), bl_log = take (unat (lastentry s)) (entries s),
     bl_on = tracing_active s\<rparr>"

lemma tr_view_same_buffer: "same_buffer s s' \<Longrightarrow> tr_view s' = tr_view s"
  by (simp add: tr_view_def same_buffer_fields)

lemma new_entry_type [simp]: "se_type (new_entry env ta) = ta_type ta"
  by (simp add: new_entry_def)

lemma trace_entry_view:
  assumes "tr_wf s" "lastentry s \<noteq> - 1" "trace_entry env ta s = Inr s'"
  shows "tr_view s' = blog_trace (new_entry env ta) (tr_view s)"
proof (rule trace_reserve_cases [of s "ta_type ta" env])
  have len: "length (entries s) = unat (avail_entries s)" using assms(1) by (simp add: tr_wf_def)
  note inc = unat_inc [OF assms(2)]
  { assume "\<not> tracing_active s" "ta_type ta < STARTIDS" "trace_reserve env (ta_type ta) s = (s, None)"
    then show ?thesis using assms(3) by (simp add: trace_entry_def blog_trace_def tr_view_def) }
  { fix t
    assume a: "tracing_active s \<or> \<not> ta_type ta < STARTIDS" "avail_entries s < lastentry s + 1"
      "trace_reserve env (ta_type ta) s = (t, None)"
      and b: "same_buffer (s\<lparr>lastentry := lastentry s + 1, tracing_active := False,
        tasklet_scheduled := True\<rparr>) t"
    have "s' = t" using a(3) assms(3) by (simp add: trace_entry_def)
    moreover have "unat (avail_entries s) \<le> unat (lastentry s)"
      using a(2) inc by (simp add: word_less_nat_alt)
    ultimately show ?thesis
      using a(1) len inc tr_view_same_buffer [OF b] by (auto simp: tr_view_def blog_trace_def) }
  { assume a: "tracing_active s \<or> \<not> ta_type ta < STARTIDS" "lastentry s + 1 \<le> avail_entries s"
      "trace_reserve env (ta_type ta) s = (s\<lparr>lastentry := lastentry s + 1\<rparr>, Some (lastentry s + 1))"
    have i: "unat (lastentry s) < length (entries s)"
      using a(2) inc len by (simp add: word_le_nat_alt)
    then have "entries s' = (entries s)[unat (lastentry s) := new_entry env ta]"
      "lastentry s' = lastentry s + 1" "avail_entries s' = avail_entries s"
      "tracing_active s' = tracing_active s"
      using a(3) assms(3) by (auto simp: trace_entry_def trace_fill_def)
    moreover have "take (Suc (unat (lastentry s))) ((entries s)[unat (lastentry s) := new_entry env ta])
        = take (unat (lastentry s)) (entries s) @ [new_entry env ta]"
      using i by (simp add: take_Suc_conv_app_nth)
    ultimately show ?thesis
      using a(1) i len inc by (auto simp: tr_view_def blog_trace_def) }
qed

text \<open>The recorder of the tracer is a sink for calls paired with their machine environment.\<close>

definition emit_call :: "sysenv \<times> trace_args \<Rightarrow> tracer \<Rightarrow> tracer outcome" where
  "emit_call c s = trace_entry (fst c) (snd c) s"

definition call_entry :: "sysenv \<times> trace_args \<Rightarrow> sepentry" where
  "call_entry c = new_entry (fst c) (snd c)"

interpretation recorder: trace_sink emit_call call_entry tr_view tr_inv
proof unfold_locales
  fix s c
  assume "tr_inv s" "se_type (call_entry c) < STARTIDS"
  moreover from this obtain s' where "trace_entry (fst c) (snd c) s = Inr s'" "tr_inv s'"
    using trace_entry_inv [of s "snd c" "fst c"] by (auto simp: call_entry_def)
  moreover have "lastentry s \<noteq> - 1" using tr_inv_lastentry [OF \<open>tr_inv s\<close>] by auto
  ultimately show "\<exists>s'. emit_call c s = Inr s' \<and> tr_inv s'
      \<and> tr_view s' = blog_trace (call_entry c) (tr_view s)"
    using trace_entry_view by (auto simp: emit_call_def call_entry_def tr_inv_def)
qed (simp add: tr_inv_def tr_wf_def tr_view_def)

section \<open>The interface of the reader\<close>

text \<open>
  An environment delivers if a message in it reaches the socket. Entries are fetched one by one: a state has a cursor into a log, and asking hands over the entry at
  the cursor, as a message or as a printed line, and moves on. \<open>kept\<close> is what asking leaves as it is;
  the log is part of it.
\<close>

definition delivers :: "sysenv \<Rightarrow> bool" where
  "delivers env \<longleftrightarrow> ev_skb env \<and> 0 \<le> ev_unicast env"

locale log_reader =
  fixes ask :: "sysenv \<Rightarrow> 's \<Rightarrow> 's outcome"
    and ready :: "'s \<Rightarrow> bool"
    and kept :: "'s \<Rightarrow> 'k"
    and log :: "'k \<Rightarrow> sepentry list"
    and cursor :: "'s \<Rightarrow> nat"
    and got :: "'s \<Rightarrow> 'm list"
    and shape :: "'s \<Rightarrow> sepentry \<Rightarrow> 'm"
  assumes ask_next: "ready s \<Longrightarrow> delivers env \<Longrightarrow> cursor s < length (log (kept s))
      \<Longrightarrow> \<exists>s'. ask env s = Inr s' \<and> ready s' \<and> kept s' = kept s \<and> cursor s' = Suc (cursor s)
        \<and> shape s' = shape s \<and> got s' = got s @ [shape s (log (kept s) ! cursor s)]"
begin

lemma ask_all:
  assumes "ready s" "\<forall>env\<in>set envs. delivers env" "cursor s + length envs \<le> length (log (kept s))"
  shows "\<exists>s'. fold_outcome ask envs s = Inr s' \<and> ready s' \<and> kept s' = kept s
    \<and> cursor s' = cursor s + length envs
    \<and> got s' = got s @ map (shape s) (take (length envs) (drop (cursor s) (log (kept s))))"
  using assms
proof (induction envs arbitrary: s)
  case (Cons env envs)
  let ?l = "log (kept s)" and ?c = "cursor s"
  from Cons.prems ask_next [of s env] obtain s1
    where s1: "ask env s = Inr s1" "ready s1" "kept s1 = kept s" "cursor s1 = Suc ?c"
      "shape s1 = shape s" "got s1 = got s @ [shape s (?l ! ?c)]" by auto
  have "drop ?c ?l = ?l ! ?c # drop (Suc ?c) ?l"
    using Cons.prems(3) by (simp add: Cons_nth_drop_Suc)
  with Cons.IH [of s1] Cons.prems s1 show ?case by auto
qed simp

end

section \<open>Reading the log out\<close>

definition entry_msg :: "u32 \<Rightarrow> sepentry \<Rightarrow> nlmsg" where
  "entry_msg pid e = \<lparr>nm_obj = NlEntry e, nm_length = of_nat sizeof_sepentry, nm_pid = pid\<rparr>"

definition word_msg :: "u32 \<Rightarrow> u32 \<Rightarrow> nlmsg" where
  "word_msg pid w = \<lparr>nm_obj = NlWord w, nm_length = 4, nm_pid = pid\<rparr>"

definition request :: "u32 \<Rightarrow> sysenv \<Rightarrow> tracer \<Rightarrow> tracer outcome" where
  "request pid env s = nl_rcv_func env (\<lambda>_ _. env) pid REQUEST_ENTRY s"

lemma request_eq: "request pid env s = serve_request env (s\<lparr>us_pid := pid\<rparr>)"
  by (simp add: request_def nl_rcv_func_def control_words)

text \<open>
  A request is answered from the log as long as the tracer is off and either a stop is pending or
  the log is full, and the cursor has not reached the end of the log.
\<close>

definition readable :: "tracer \<Rightarrow> bool" where
  "readable s \<longleftrightarrow> tr_inv s \<and> \<not> tracing_active s
     \<and> (stop_tracing_requested s \<or> avail_entries s \<le> lastentry s)"

lemma readable_log_length:
  assumes "readable s"
  shows "length (bl_log (tr_view s)) = min (unat (lastentry s)) (unat (avail_entries s))"
  using assms by (simp add: readable_def tr_inv_def tr_wf_def tr_view_def)

lemma request_entry:
  assumes "readable s" "delivers env" "unat (lastread s) < length (bl_log (tr_view s))"
  shows "\<exists>s'. request pid env s = Inr s' \<and> readable s' \<and> tr_view s' = tr_view s
    \<and> stop_tracing_requested s' = stop_tracing_requested s
    \<and> unat (lastread s') = Suc (unat (lastread s))
    \<and> outbox s' = outbox s @ [entry_msg pid (bl_log (tr_view s) ! unat (lastread s))]"
proof -
  have r: "unat (lastread s) < unat (lastentry s)" "unat (lastread s) < unat (avail_entries s)"
    "length (entries s) = unat (avail_entries s)"
    using assms(1,3) readable_log_length [OF assms(1)] by (auto simp: readable_def tr_inv_def tr_wf_def)
  then have lt: "lastread s < lastentry s" "lastread s < avail_entries s"
    by (simp_all add: word_less_nat_alt)
  then have "lastread s \<noteq> - 1" using word_order.not_eq_extremum by fastforce
  then have inc: "unat (lastread s + 1) = Suc (unat (lastread s))" by (rule unat_inc)
  let ?s' = "s\<lparr>us_pid := pid, stats := (stats s)\<lparr>st_touscnt := st_touscnt (stats s) + 1\<rparr>,
    outbox := outbox s @ [entry_msg pid (entries s ! unat (lastread s))], lastread := lastread s + 1\<rparr>"
  have "request pid env s = Inr ?s'"
    using lt r assms(1,2) unfolding request_eq
    by (auto simp: serve_request_def readable_def Let_def send_to_userspace_def delivers_def entry_msg_def
        dest: leD)
  moreover have "readable ?s'"
    using assms(1) inc_le [OF lt(2)] by (simp add: readable_def tr_inv_def tr_wf_def tr_bound_def)
  moreover have "entries s ! unat (lastread s) = bl_log (tr_view s) ! unat (lastread s)"
    using r by (simp add: tr_view_def)
  ultimately show ?thesis using inc by (simp add: tr_view_def)
qed

interpretation fetcher: log_reader "request pid" readable "\<lambda>s. (tr_view s, stop_tracing_requested s)" "bl_log \<circ> fst"
  "\<lambda>s. unat (lastread s)" outbox "\<lambda>_. entry_msg pid" for pid
  by unfold_locales (use request_entry in fastforce)

text \<open>The answer after the last entry.\<close>

lemma request_last:
  assumes "readable s" "delivers env" "unat (lastread s) = length (bl_log (tr_view s))"
  shows "\<exists>s'. request pid env s = Inr s' \<and> tr_view s' = tr_view s \<and> \<not> stop_tracing_requested s'
    \<and> outbox s' = outbox s
        @ [word_msg pid (if stop_tracing_requested s then STOP_TRACING else END_OF_DATA)]"
proof -
  have r: "lastentry s \<le> lastread s \<or> avail_entries s \<le> lastread s"
    using assms(3) readable_log_length [OF assms(1)] by (auto simp: word_le_nat_alt min_def split: if_splits)
  have full: "avail_entries s \<le> lastread s" if "\<not> stop_tracing_requested s"
    using that r assms(1) by (auto simp: readable_def)
  let ?w = "if stop_tracing_requested s then STOP_TRACING else END_OF_DATA"
  let ?s' = "s\<lparr>us_pid := pid, outbox := outbox s @ [word_msg pid ?w], stop_tracing_requested := False\<rparr>"
  have "request pid env s = Inr ?s'"
  proof (cases "stop_tracing_requested s")
    case True
    then show ?thesis
      using r assms(2) unfolding request_eq
      by (auto simp: serve_request_def send_to_userspace_def delivers_def word_msg_def)
  next
    case False
    then have "s\<lparr>stop_tracing_requested := False\<rparr> = s" by simp
    with False show ?thesis
      using full assms(2) unfolding request_eq
      by (simp add: serve_request_def send_to_userspace_def delivers_def word_msg_def)
  qed
  then show ?thesis by (simp add: tr_view_def)
qed

lemma drain_log:
  assumes "readable s" "lastread s = 0" "\<forall>env\<in>set envs. delivers env"
    "length envs = Suc (length (bl_log (tr_view s)))"
  shows "\<exists>s'. fold_outcome (request pid) envs s = Inr s' \<and> tr_view s' = tr_view s
    \<and> \<not> stop_tracing_requested s'
    \<and> outbox s' = outbox s @ map (entry_msg pid) (bl_log (tr_view s))
        @ [word_msg pid (if stop_tracing_requested s then STOP_TRACING else END_OF_DATA)]"
proof -
  obtain env0 init where e: "envs = init @ [env0]" using assms(4) by (cases envs rule: rev_cases) auto
  from fetcher.ask_all [OF assms(1), of init pid] assms e obtain s1
    where s1: "fold_outcome (request pid) init s = Inr s1" "readable s1" "tr_view s1 = tr_view s"
      "stop_tracing_requested s1 = stop_tracing_requested s"
      "unat (lastread s1) = length (bl_log (tr_view s))"
      "outbox s1 = outbox s @ map (entry_msg pid) (bl_log (tr_view s))" by auto
  from request_last [OF s1(2), of env0 pid] assms(3) e s1 show ?thesis
    by (auto simp: fold_outcome_append)
qed

section \<open>A whole session\<close>

text \<open>The trace entries among the messages, and the wake-up calls sent or still posted.\<close>

definition msg_entries :: "nlmsg \<Rightarrow> sepentry list" where
  "msg_entries m = (case nm_obj m of NlEntry e \<Rightarrow> [e] | NlWord w \<Rightarrow> [])"

definition delivered :: "tracer \<Rightarrow> sepentry list" where
  "delivered s = concat (map msg_entries (outbox s))"

definition is_wakeup :: "nlmsg \<Rightarrow> bool" where
  "is_wakeup m \<longleftrightarrow> nm_obj m = NlWord WAKE_UP_USNL"

definition wakeups :: "tracer \<Rightarrow> nat" where
  "wakeups s = length (filter is_wakeup (outbox s)) + call_queue s"

lemma msg_entries_simps [simp]:
  "msg_entries (entry_msg pid e) = [e]" "msg_entries (word_msg pid w) = []"
  by (simp_all add: msg_entries_def entry_msg_def word_msg_def)

lemma concat_entry_msgs [simp]: "concat (map (msg_entries \<circ> entry_msg pid) es) = es"
  by (induction es) simp_all

lemma smp_call_delivered: "delivered (smp_call_schedule_usnl env s) = delivered s"
  by (simp add: smp_call_schedule_usnl_def schedule_usnl_def awake_usnl_def send_to_userspace_def
      delivered_def msg_entries_def)

lemma smp_call_wakeups:
  "delivers env \<Longrightarrow> us_pid s \<noteq> 0 \<Longrightarrow> wakeups (smp_call_schedule_usnl env s) = wakeups s + 1"
  by (auto simp: smp_call_schedule_usnl_def schedule_usnl_def awake_usnl_def send_to_userspace_def
      wakeups_def is_wakeup_def delivers_def)

text \<open>Recording moves neither the read cursor nor what was delivered.\<close>

lemma trace_entry_frame:
  assumes "trace_entry env ta s = Inr s'"
  shows "lastread s' = lastread s" "delivered s' = delivered s" "us_pid s' = us_pid s"
    "stop_tracing_requested s' = stop_tracing_requested s"
    "tracing_active s' \<Longrightarrow> tracing_active s"
  using assms same_buffer_fields [OF same_buffer_smp_call] smp_call_delivered
  by (auto simp: trace_entry_def trace_reserve_def trace_fill_def Let_def bind_outcome_eq_Inr
      delivered_def split: if_splits option.splits)

text \<open>A recording that finds the tracer on and leaves it off has posted the wake-up.\<close>

lemma trace_entry_wakeups:
  assumes "trace_entry env ta s = Inr s'" "delivers env" "us_pid s \<noteq> 0" "ta_type ta < STARTIDS"
    "tasklet_scheduled s \<longleftrightarrow> \<not> tracing_active s"
  shows "tasklet_scheduled s' \<longleftrightarrow> \<not> tracing_active s'"
    "wakeups s' = wakeups s + (if tracing_active s \<and> \<not> tracing_active s' then 1 else 0)"
  using assms same_buffer_fields [OF same_buffer_smp_call] smp_call_wakeups [OF assms(2)]
  by (auto simp: trace_entry_def trace_reserve_def trace_fill_def Let_def bind_outcome_eq_Inr
      wakeups_def split: if_splits option.splits)

lemma emit_call_Cons:
  "fold_outcome emit_call (c # cs) s = Inr s' \<Longrightarrow>
    \<exists>t. trace_entry (fst c) (snd c) s = Inr t \<and> fold_outcome emit_call cs t = Inr s'"
  by (simp add: emit_call_def [of c] bind_outcome_eq_Inr)

lemma fold_trace_frame:
  assumes "fold_outcome emit_call cs s = Inr s'"
  shows "lastread s' = lastread s \<and> delivered s' = delivered s \<and> us_pid s' = us_pid s
    \<and> stop_tracing_requested s' = stop_tracing_requested s"
  using assms
proof (induction cs arbitrary: s)
  case (Cons c cs)
  from emit_call_Cons [OF Cons.prems(1)] obtain t
    where t: "trace_entry (fst c) (snd c) s = Inr t" "fold_outcome emit_call cs t = Inr s'" by blast
  with Cons.IH [OF t(2)] trace_entry_frame [OF t(1)] show ?case by simp
qed simp

lemma fold_trace_wakeups:
  assumes "fold_outcome emit_call cs s = Inr s'" "\<forall>c\<in>set cs. delivers (fst c) \<and> ta_type (snd c) < STARTIDS"
    "us_pid s \<noteq> 0" "tasklet_scheduled s \<longleftrightarrow> \<not> tracing_active s"
  shows "(tracing_active s' \<longrightarrow> tracing_active s)
    \<and> wakeups s' = wakeups s + (if tracing_active s \<and> \<not> tracing_active s' then 1 else 0)"
  using assms
proof (induction cs arbitrary: s)
  case (Cons c cs)
  from emit_call_Cons [OF Cons.prems(1)] obtain t
    where t: "trace_entry (fst c) (snd c) s = Inr t" "fold_outcome emit_call cs t = Inr s'" by blast
  have w: "tasklet_scheduled t \<longleftrightarrow> \<not> tracing_active t"
    "wakeups t = wakeups s + (if tracing_active s \<and> \<not> tracing_active t then 1 else 0)"
    using trace_entry_wakeups [OF t(1)] Cons.prems by auto
  have ih: "(tracing_active s' \<longrightarrow> tracing_active t)
    \<and> wakeups s' = wakeups t + (if tracing_active t \<and> \<not> tracing_active s' then 1 else 0)"
    using Cons.prems(2,3) trace_entry_frame(3) [OF t(1)] by (intro Cons.IH [OF t(2) _ _ w(1)]) simp_all
  show ?case
    using ih w(2) trace_entry_frame(5) [OF t(1)] by (cases "tracing_active t") simp_all
qed simp

lemma stop_tracing_fields:
  "entries (stop_tracing s) = entries s" "avail_entries (stop_tracing s) = avail_entries s"
  "lastentry (stop_tracing s) = lastentry s" "lastread (stop_tracing s) = lastread s"
  "outbox (stop_tracing s) = outbox s" "\<not> tracing_active (stop_tracing s)"
  "stop_tracing_requested (stop_tracing s)"
  by (simp_all add: stop_tracing_def Let_def)

lemma stop_tracing_readable: "tr_inv s \<Longrightarrow> readable (stop_tracing s)"
  by (simp add: readable_def stop_tracing_inv stop_tracing_fields)

lemma stop_tracing_log: "bl_log (tr_view (stop_tracing s)) = bl_log (tr_view s)"
  by (simp add: tr_view_def stop_tracing_fields)

text \<open>
  (C1) A session, end to end: from any consistent state with tracing on and nothing read, whatever
  number of probes record, the stop command followed by one request per stored entry and one more
  delivers exactly the first entries the buffer has room for, each once and in the order of
  recording, and the last answer is the word that tells the reader to stop.
\<close>

theorem session_delivers:
  assumes "tr_inv s" "tracing_active s" "lastread s = 0"
    "\<forall>c\<in>set cs. ta_type (snd c) < STARTIDS" "\<forall>env\<in>set envs. delivers env"
    "length envs = Suc (min (unat (avail_entries s)) (unat (lastentry s) + length cs))"
  shows "\<exists>s'. bind_outcome (fold_outcome emit_call cs s)
        (\<lambda>t. fold_outcome (request pid) envs (stop_tracing t)) = Inr s'
    \<and> delivered s' = delivered s @ take (unat (avail_entries s))
        (take (unat (lastentry s)) (entries s) @ map call_entry cs)
    \<and> last (outbox s') = word_msg pid STOP_TRACING \<and> \<not> stop_tracing_requested s'"
proof -
  have wf: "length (entries s) = unat (avail_entries s)" "unat (lastentry s) \<le> unat (avail_entries s)"
    using assms(1,2) by (simp_all add: tr_inv_def tr_wf_def tr_bound_def word_le_nat_alt)
  let ?l = "take (unat (avail_entries s)) (take (unat (lastentry s)) (entries s) @ map call_entry cs)"
  obtain t where t: "fold_outcome emit_call cs s = Inr t" "tr_inv t" "bl_log (tr_view t) = ?l"
    using recorder.emit_all_prefix [of s cs] assms by (auto simp: tr_view_def call_entry_def)
  have f: "lastread t = 0" "delivered t = delivered s"
    using fold_trace_frame [OF t(1)] assms(3) by simp_all
  have len: "length ?l = min (unat (avail_entries s)) (unat (lastentry s) + length cs)"
    using wf by simp
  obtain s' where "fold_outcome (request pid) envs (stop_tracing t) = Inr s'"
      "\<not> stop_tracing_requested s'"
      "outbox s' = outbox t @ map (entry_msg pid) ?l @ [word_msg pid STOP_TRACING]"
    using drain_log [OF stop_tracing_readable [OF t(2)], of envs pid] assms(5,6) t(3) f(1) len
    by (auto simp: stop_tracing_log stop_tracing_fields)
  then show ?thesis using t(1) f(2) by (simp add: delivered_def)
qed

text \<open>A small tracer for the witnesses: two slots, tracing on, a reader registered.\<close>

definition demo_env :: sysenv where
  "demo_env = \<lparr>ev_cycles = 7, ev_pid = 100, ev_cpu = 1, ev_skb = True, ev_unicast = 0\<rparr>"

definition demo_call :: "sysenv \<times> trace_args" where
  "demo_call = (demo_env, targs 0x8000 SERVICEENTRY 1 2 3 0x9000)"

definition demo_tracer :: tracer where
  "demo_tracer = tracer_boot\<lparr>entries := [call_entry demo_call, call_entry demo_call],
     avail_entries := 2, tracing_active := True, us_pid := 42\<rparr>"

lemma demo_tracer_inv: "tr_inv demo_tracer" "tracing_active demo_tracer" "lastread demo_tracer = 0"
  "lastentry demo_tracer = 0" "avail_entries demo_tracer = 2" "us_pid demo_tracer = 42"
  "\<not> tasklet_scheduled demo_tracer" "delivered demo_tracer = []" "wakeups demo_tracer = 0"
  "tr_view demo_tracer = \<lparr>bl_cap = 2, bl_log = [], bl_on = True\<rparr>"
  by (simp_all add: demo_tracer_def tracer_boot_def tr_inv_def tr_wf_def tr_bound_def delivered_def
      wakeups_def tr_view_def)

lemma demo_call_ok: "delivers demo_env" "ta_type (snd demo_call) < STARTIDS" "fst demo_call = demo_env"
  by (simp_all add: demo_env_def demo_call_def targs_def delivers_def sepentry_type_order)

theorem session_delivers_witness:
  "\<exists>s'. bind_outcome (fold_outcome emit_call [demo_call, demo_call, demo_call] demo_tracer)
        (\<lambda>t. fold_outcome (request 42) [demo_env, demo_env, demo_env] (stop_tracing t)) = Inr s'
    \<and> delivered s' = [call_entry demo_call, call_entry demo_call]
    \<and> last (outbox s') = word_msg 42 STOP_TRACING \<and> \<not> stop_tracing_requested s'"
  using session_delivers [of demo_tracer "[demo_call, demo_call, demo_call]"
      "[demo_env, demo_env, demo_env]" 42]
  by (simp only: demo_tracer_inv) (simp add: demo_call_ok)

text \<open>
  (C4) The wake-up is sent exactly once. From a state with tracing on, a registered reader and no
  wake-up outstanding, any run of probes posts one wake-up if it overflows the buffer and none if
  it does not.
\<close>

theorem overflow_wakes_once:
  assumes "tr_inv s" "tracing_active s" "\<not> tasklet_scheduled s" "us_pid s \<noteq> 0"
    "\<forall>c\<in>set cs. delivers (fst c) \<and> ta_type (snd c) < STARTIDS"
  shows "\<exists>s'. fold_outcome emit_call cs s = Inr s' \<and> wakeups s' = wakeups s
    + (if unat (lastentry s) + length cs \<le> unat (avail_entries s) then 0 else 1)"
proof -
  have wf: "length (entries s) = unat (avail_entries s)" "unat (lastentry s) \<le> unat (avail_entries s)"
    using assms(1,2) by (simp_all add: tr_inv_def tr_wf_def tr_bound_def word_le_nat_alt)
  obtain t where t: "fold_outcome emit_call cs s = Inr t"
      "tracing_active t \<longleftrightarrow> unat (lastentry s) + length cs \<le> unat (avail_entries s)"
    using recorder.emit_all_prefix [of s cs] assms wf
    by (auto simp: tr_view_def call_entry_def min_absorb2)
  with fold_trace_wakeups [OF t(1)] assms show ?thesis by auto
qed

theorem overflow_wakes_once_witness:
  "\<exists>s'. fold_outcome emit_call [demo_call, demo_call, demo_call, demo_call] demo_tracer = Inr s'
    \<and> wakeups s' = 1"
  using overflow_wakes_once [of demo_tracer "[demo_call, demo_call, demo_call, demo_call]"]
  by (simp only: demo_tracer_inv) (simp add: demo_call_ok)

text \<open>
  (C3) The buffer implements the abstract log: a probe's recording never faults, keeps the
  invariant, and has on the log read off the buffer the effect that the bounded log specifies,
  on every branch (switched off, room left, full).
\<close>

theorem trace_entry_refines:
  assumes "tr_inv s" "ta_type ta < STARTIDS"
  shows "\<exists>s'. trace_entry env ta s = Inr s' \<and> tr_inv s'
    \<and> tr_view s' = blog_trace (new_entry env ta) (tr_view s)"
  using recorder.emit_spec [of s "(env, ta)"] assms by (simp add: emit_call_def call_entry_def)

theorem trace_entry_refines_witness:
  "\<exists>s'. trace_entry demo_env (snd demo_call) demo_tracer = Inr s' \<and> tr_inv s'
    \<and> bl_log (tr_view s') = [new_entry demo_env (snd demo_call)]"
  using trace_entry_refines [of demo_tracer "snd demo_call" demo_env, OF demo_tracer_inv(1) demo_call_ok(2)]
  by (auto simp: demo_tracer_inv blog_trace_def)


definition demo_init :: init_env where
  "demo_init = \<lparr>ie_proc_create = True, ie_create_proc_entry = True,
     ie_vmalloc = (\<lambda>n. Some (replicate (unat n div sizeof_sepentry) (call_entry demo_call))),
     ie_netlink_create = True\<rparr>"


section \<open>Where the tracer departs from its description\<close>

text \<open>
  (C5) The comment on the request branch of \<open>nl_rcv_func\<close> says that a reader that asks before the
  buffer is filled is told so. After a set-up with room, with tracing never started, the first
  request is answered with whatever the fresh allocation contains.
\<close>

theorem request_before_start:
  assumes "initialize_tracer ie num tracer_boot = (0, s)"
    "ie_vmalloc ie (of_nat sizeof_sepentry * num) = Some buf" "buf \<noteq> []" "num \<noteq> 0" "delivers env"
  shows "\<exists>s'. request pid env s = Inr s' \<and> outbox s' = [entry_msg pid (hd buf)]"
proof -
  have "s = tracer_boot\<lparr>has_statsproc := True, has_cmdproc := ie_create_proc_entry ie,
      entries := buf, has_buffer := True, avail_entries := num, has_netlink := True\<rparr>"
    using assms(1,2)
    by (auto simp: initialize_tracer_def Let_def tracer_boot_def EPERM_def split: if_splits)
  then show ?thesis
    using assms(3-5) unfolding request_eq
    by (simp add: serve_request_def tracer_boot_def Let_def send_to_userspace_def delivers_def
        entry_msg_def hd_conv_nth)
qed

theorem request_before_start_witness:
  "\<exists>s'. request 42 demo_env (snd (initialize_tracer demo_init 1 tracer_boot)) = Inr s'
    \<and> outbox s' = [entry_msg 42 (call_entry demo_call)]"
  using request_before_start [of demo_init 1 "snd (initialize_tracer demo_init 1 tracer_boot)"
      "[call_entry demo_call]" demo_env 42] demo_call_ok(1)
  by (simp add: initialize_tracer_def demo_init_def Let_def sizeof_sepentry_def)

text \<open>
  (C6) The size of the buffer is computed in 32 bits. Asked for \<open>2 ^ 27 + 1\<close> entries the set-up
  succeeds with a buffer of one entry, and the second recorded entry is written outside it.
\<close>

theorem buffer_size_overflow:
  assumes "vmalloc_ok (ie_vmalloc ie)" "initialize_tracer ie 0x08000001 tracer_boot = (0, s)"
  shows "avail_entries s = 0x08000001 \<and> length (entries s) = 1
    \<and> fold_outcome emit_call [c1, c2] (s\<lparr>tracing_active := True\<rparr>) = Inl OutOfBounds"
proof -
  have wrap: "(4294967328 :: u32) = 32" by code_simp
  obtain buf where "ie_vmalloc ie 32 = Some buf"
    and s: "s = tracer_boot\<lparr>has_statsproc := True, has_cmdproc := ie_create_proc_entry ie,
      entries := buf, has_buffer := True, avail_entries := 0x08000001, has_netlink := True\<rparr>"
    using assms(2) by (auto simp: initialize_tracer_def Let_def tracer_boot_def EPERM_def
        sizeof_sepentry_def wrap split: if_splits option.splits)
  then have len: "length buf = 1"
    using assms(1) by (auto simp: vmalloc_ok_def sizeof_sepentry_def)
  show ?thesis
    using s len by (simp add: tracer_boot_def emit_call_def trace_entry_def trace_reserve_def
        trace_fill_def Let_def upd_checked_def)
qed

theorem buffer_size_overflow_witness:
  "fold_outcome emit_call [demo_call, demo_call]
    ((snd (initialize_tracer demo_init 0x08000001 tracer_boot))\<lparr>tracing_active := True\<rparr>) = Inl OutOfBounds"
  by (rule conjunct2 [OF conjunct2 [OF buffer_size_overflow [where ie = demo_init]]])
    (simp_all add: vmalloc_ok_def initialize_tracer_def demo_init_def Let_def)

text \<open> Tear-down after a stop command: the tasklet that the command scheduled has not run, the
  socket it sends on is released first, and waiting for the tasklet runs it on the released socket.
\<close>

theorem cleanup_after_stop:
  assumes "us_pid s \<noteq> 0" "\<not> tasklet_scheduled s"
  shows "cleanup_tracer env (stop_tracing s) = Inl UseAfterFree"
  using assms by (simp add: cleanup_tracer_def tasklet_kill_sep_def stop_tracing_def Let_def)

theorem cleanup_after_stop_witness:
  "cleanup_tracer demo_env (stop_tracing demo_tracer) = Inl UseAfterFree"
  by (rule cleanup_after_stop) (simp_all add: demo_tracer_inv)

text \<open>
  The command file: a decimal number followed by a character that is no digit is read as that
  number. The number 1 stops the tracer, 0 is refused, every other number is accepted and ignored.
\<close>

theorem run_command_decimal:
  assumes "ends_number rest" "count \<le> 5"
  shows "run_command (dec_string n @ rest) count 0 s =
    (if (of_nat n :: u32) = 0 then (- 1, s)
     else (uint count, if (of_nat n :: u32) = SEPEXT_STOP then stop_tracing s else s))"
  using assms by (auto simp: run_command_def sscanf_one_decimal dest: leD)

theorem run_command_decimal_witness:
  "run_command (dec_string 1 @ ''\<newline>'') 2 0 demo_tracer = (2, stop_tracing demo_tracer)"
  using run_command_decimal [of "''\<newline>''" 2 1 demo_tracer] by (simp add: SEPEXT_STOP_def)

end
