(* ===== verification/SepProbes.thy ===== *)
theory SepProbes
  imports SepLog
begin

text \<open>
  The static probes, \<open>kernel/trace/sepextracttracer/static.c\<close>: the functions hooked to the
  tracepoints of \<open>include/trace/sepextract.h\<close>, the packet extractors configured through the proc
  file \<open>pktextr\<close>, and the registration of the probes.
\<close>

section \<open>State\<close>

text \<open>
  The tracer, the table of packet extractors and its fill count, the debugging switch, the buffer
  of the proc file, the names of the registered tracepoints, and whether the proc file exists.
\<close>

record probes =
  tr :: tracer
  pi_entries :: "pktextr_info list"
  num_pi_entries :: nat
  doStackTrace :: u32
  pktextrprocbuffer :: string
  registered :: "string list"
  has_pktextr :: bool

definition record_call :: "sysenv \<Rightarrow> trace_args \<Rightarrow> probes \<Rightarrow> probes outcome" where
  "record_call env ta s = bind_outcome (trace_entry env ta (tr s)) (\<lambda>t. Inr (s\<lparr>tr := t\<rparr>))"

section \<open>Reading packets\<close>

text \<open>Memory is read byte-wise; the processor is little-endian, the network is big-endian.\<close>

type_synonym memory = "addr \<Rightarrow> u8"

definition load16 :: "memory \<Rightarrow> addr \<Rightarrow> u16" where
  "load16 mem p = ucast (mem p) OR push_bit 8 (ucast (mem (p + 1)))"

definition load32 :: "memory \<Rightarrow> addr \<Rightarrow> u32" where
  "load32 mem p = ucast (mem p) OR push_bit 8 (ucast (mem (p + 1)))
     OR push_bit 16 (ucast (mem (p + 2))) OR push_bit 24 (ucast (mem (p + 3)))"

definition ntohs :: "u16 \<Rightarrow> u16" where
  "ntohs x = push_bit 8 x OR drop_bit 8 x"

definition ntohl :: "u32 \<Rightarrow> u32" where
  "ntohl x = push_bit 24 x OR (push_bit 8 x AND 0x00ff0000) OR (drop_bit 8 x AND 0x0000ff00)
     OR drop_bit 24 x"

definition extract_value :: "memory \<Rightarrow> addr \<Rightarrow> pktextr_info \<Rightarrow> u32" where
  "extract_value mem pktdata pe =
     (if pi_num_bytes pe = 1 then ucast (mem (pktdata + pi_extract_start pe))
      else if pi_num_bytes pe = 2 then ucast (load16 mem (pktdata + pi_extract_start pe))
      else load32 mem (pktdata + pi_extract_start pe))"

section \<open>The probe of packet queues\<close>

text \<open>
  The body of the search loop for one extractor; \<open>match\<close> is the condition of the loop that runs,
  \<open>extracted\<close> the flag it sets.
\<close>

definition pktq_step ::
  "(pktextr_info \<Rightarrow> bool outcome) \<Rightarrow> (nat \<Rightarrow> sysenv) \<Rightarrow> (sepentry_type \<Rightarrow> pktextr_info \<Rightarrow> trace_args)
    \<Rightarrow> nat \<times> pktextr_info \<Rightarrow> bool \<times> probes \<Rightarrow> (bool \<times> probes) outcome" where
  "pktq_step match envs args ie st =
     (case (ie, st) of ((i, pe), (extracted, s)) \<Rightarrow>
        bind_outcome (match pe) (\<lambda>m.
          if m then
            (let typeToTrace = (if extracted then PKTQUEUEN else PKTQUEUE)
             in bind_outcome (record_call (envs i) (args typeToTrace pe) s) (\<lambda>s'. Inr (True, s')))
          else Inr (extracted, s)))"

definition probe_sepext_pktqueue ::
  "sysenv \<Rightarrow> addr \<Rightarrow> memory \<Rightarrow> (nat \<Rightarrow> sysenv) \<Rightarrow> addr \<Rightarrow> u32 \<Rightarrow> addr \<Rightarrow> sem_queue_operation
    \<Rightarrow> probes \<Rightarrow> probes outcome" where
  "probe_sepext_pktqueue env ra mem envs pktdata queue head op s =
     (let opc = of_nat (queue_op_code op) in
      if pktdata = 0 then record_call env (targs ra PKTQUEUE opc (ucast queue) 0 head) s
      else
        let args = (\<lambda>ty pe. targs ra ty opc (ucast queue) (extract_value mem pktdata pe) head);
            active = enumerate 0 (take (num_pi_entries s) (pi_entries s))
        in bind_outcome
          (if queue \<noteq> 0 then
             fold_outcome (pktq_step (\<lambda>pe. Inr (pi_service_id pe = queue)) envs args) active (False, s)
           else if head \<noteq> 0 then
             fold_outcome (pktq_step (\<lambda>pe.
                 bind_outcome (nth_checked (sem_queues (tr s)) (unat (pi_service_id pe)))
                   (\<lambda>q. Inr (sq_head q = head))) envs args) active (False, s)
           else Inr (False, s))
          (\<lambda>(extracted, s').
             if extracted then Inr s'
             else record_call env (targs ra PKTQUEUE opc (ucast queue) 0 head) s'))"

section \<open>The other probes\<close>

definition probe_sepext_srventry :: "sysenv \<Rightarrow> addr \<Rightarrow> addr \<Rightarrow> probes \<Rightarrow> probes outcome" where
  "probe_sepext_srventry env ra address s =
     record_call env (targs ra SERVICEENTRY 0 0 0 address) s"

definition probe_sepext_srvexit :: "sysenv \<Rightarrow> addr \<Rightarrow> addr \<Rightarrow> probes \<Rightarrow> probes outcome" where
  "probe_sepext_srvexit env ra address s =
     record_call env (targs ra SERVICEEXIT 0 0 0 address) s"

definition probe_sepext_peustart :: "sysenv \<Rightarrow> addr \<Rightarrow> addr \<Rightarrow> probes \<Rightarrow> probes outcome" where
  "probe_sepext_peustart env ra address s =
     record_call env (targs ra PEUSTART 0 0 0 address) s"

definition probe_sepext_peustop :: "sysenv \<Rightarrow> addr \<Rightarrow> addr \<Rightarrow> probes \<Rightarrow> probes outcome" where
  "probe_sepext_peustop env ra address s =
     record_call env (targs ra PEUSTOP 0 0 0 address) s"

definition probe_sepext_looprestart :: "sysenv \<Rightarrow> addr \<Rightarrow> probes \<Rightarrow> probes outcome" where
  "probe_sepext_looprestart env ra s =
     record_call env (targs ra LOOPRESTART 0 0 0 0) s"

definition probe_sepext_loopstart :: "sysenv \<Rightarrow> addr \<Rightarrow> u32 \<Rightarrow> u16 \<Rightarrow> u32 \<Rightarrow> u32 \<Rightarrow> probes \<Rightarrow> probes outcome" where
  "probe_sepext_loopstart env ra maxIterations perQueue from to s =
     record_call env (targs ra LOOPSTART perQueue (ucast from) to maxIterations) s"

definition probe_sepext_loopstop :: "sysenv \<Rightarrow> addr \<Rightarrow> probes \<Rightarrow> probes outcome" where
  "probe_sepext_loopstop env ra s =
     record_call env (targs ra LOOPSTOP 0 0 0 0) s"

definition probe_sepext_queuecondition :: "sysenv \<Rightarrow> addr \<Rightarrow> sem_queue_condition \<Rightarrow> u32 \<Rightarrow> u32 \<Rightarrow> probes \<Rightarrow> probes outcome" where
  "probe_sepext_queuecondition env ra condition from to s =
     record_call env (targs ra QUEUECOND (ucast from) (ucast to) (of_nat (queue_cond_code condition)) 0) s"

definition probe_sepext_threadcondition :: "sysenv \<Rightarrow> addr \<Rightarrow> sem_thread_condition \<Rightarrow> u32 \<Rightarrow> probes \<Rightarrow> probes outcome" where
  "probe_sepext_threadcondition env ra condition pid s =
     record_call env (targs ra THREADCOND (ucast pid) 0 (of_nat (thread_cond_code condition)) 0) s"

definition probe_sepext_statecondition :: "sysenv \<Rightarrow> addr \<Rightarrow> sem_state_id \<Rightarrow> u32 \<Rightarrow> u32 \<Rightarrow> u32 \<Rightarrow> probes \<Rightarrow> probes outcome" where
  "probe_sepext_statecondition env ra condition val readwrite global s =
     record_call env (targs ra STATECOND (ucast readwrite) (ucast global) val (of_nat (state_code condition))) s"

definition probe_sepext_conditionend :: "sysenv \<Rightarrow> addr \<Rightarrow> probes \<Rightarrow> probes outcome" where
  "probe_sepext_conditionend env ra s =
     record_call env (targs ra CONDEND 0 0 0 0) s"

record sk_buff =
  skb_protocol :: u16
  skb_network_header :: addr

definition ETH_P_IP :: u16 where "ETH_P_IP = 0x0800"

definition IPPROTO_UDP :: u8 where "IPPROTO_UDP = 17"

definition PKTGEN_MAGIC :: u32 where "PKTGEN_MAGIC = 0xbe9be955"

text \<open>
  The first byte of an IPv4 header holds the version and the length of the header in words; the
  protocol is byte 9. The pktgen header follows the 8 bytes of the UDP header.
\<close>

definition probe_sepext_pktextract ::
  "sysenv \<Rightarrow> addr \<Rightarrow> memory \<Rightarrow> sk_buff \<Rightarrow> u32 \<Rightarrow> probes \<Rightarrow> probes outcome" where
  "probe_sepext_pktextract env ra mem skb global s =
     (if global = 1 \<or> global = 2 then
        if ntohs (skb_protocol skb) \<noteq> ETH_P_IP then Inr s
        else
          let ip_header = skb_network_header skb in
          if drop_bit 4 (mem ip_header) \<noteq> 4 then Inr s
          else if mem (ip_header + 9) \<noteq> IPPROTO_UDP then Inr s
          else
            let ip_hdr_len = ucast (mem ip_header AND 0x0f) * 4;
                udp_hdr = ip_header + ip_hdr_len;
                pg_hdr = udp_hdr + 8
            in
            if ntohl (load32 mem pg_hdr) \<noteq> PKTGEN_MAGIC then Inr s
            else record_call env
              (targs ra PKTEXTRACT (load16 mem udp_hdr) (ucast global)
                 (ntohl (load32 mem (pg_hdr + 4)) + 1) 0) s
      else record_call env (targs ra PKTEXTRACT 0 (ucast global) 0 0) s)"

definition probe_sepext_srvqueue :: "sysenv \<Rightarrow> addr \<Rightarrow> addr \<Rightarrow> u32 \<Rightarrow> addr \<Rightarrow> sem_queue_operation \<Rightarrow> probes \<Rightarrow> probes outcome" where
  "probe_sepext_srvqueue env ra address queue head operation s =
     record_call env (targs ra SRVQUEUE (of_nat (queue_op_code operation)) (ucast queue) head address) s"

definition probe_sepext_statequeue :: "sysenv \<Rightarrow> addr \<Rightarrow> u32 \<Rightarrow> u32 \<Rightarrow> sem_queue_operation \<Rightarrow> u32 \<Rightarrow> probes \<Rightarrow> probes outcome" where
  "probe_sepext_statequeue env ra queue val operation scope s =
     record_call env (targs ra STATEQUEUE (of_nat (queue_op_code operation)) (ucast queue) val scope) s"

definition probe_sepext_wakeup :: "sysenv \<Rightarrow> addr \<Rightarrow> u32 \<Rightarrow> probes \<Rightarrow> probes outcome" where
  "probe_sepext_wakeup env location p_pid s =
     record_call env (targs location TTWAKEUP (ucast p_pid) 0 0 0) s"

definition probe_sepext_migrate :: "sysenv \<Rightarrow> u32 \<Rightarrow> u32 \<Rightarrow> probes \<Rightarrow> probes outcome" where
  "probe_sepext_migrate env newCPU pid s =
     record_call env (targs 0 MIGRATE (ucast pid) (ucast newCPU) 0 0) s"

definition probe_sepext_dequeuerq :: "sysenv \<Rightarrow> addr \<Rightarrow> u32 \<Rightarrow> u32 \<Rightarrow> probes \<Rightarrow> probes outcome" where
  "probe_sepext_dequeuerq env location p_pid flags s =
     record_call env (targs location SLEEP (ucast p_pid) 0 flags 0) s"

definition probe_sepext_hirqstart :: "sysenv \<Rightarrow> u32 \<Rightarrow> probes \<Rightarrow> probes outcome" where
  "probe_sepext_hirqstart env hirq s =
     record_call env (targs 0 HIRQSTART (ucast hirq) 0 0 0) s"

definition probe_sepext_hirqstop :: "sysenv \<Rightarrow> u32 \<Rightarrow> probes \<Rightarrow> probes outcome" where
  "probe_sepext_hirqstop env hirq s =
     record_call env (targs 0 HIRQSTOP (ucast hirq) 0 0 0) s"

definition probe_sepext_tempsynch :: "sysenv \<Rightarrow> addr \<Rightarrow> sem_synch_type \<Rightarrow> addr \<Rightarrow> sem_synch_scope \<Rightarrow> probes \<Rightarrow> probes outcome" where
  "probe_sepext_tempsynch env location type variable scope s =
     record_call env (targs location TEMPSYNCH (of_nat (synch_scope_code scope)) 0 (of_nat (synch_type_code type)) variable) s"

definition probe_sepext_semaphore_up :: "sysenv \<Rightarrow> addr \<Rightarrow> addr \<Rightarrow> sem_synch_scope \<Rightarrow> probes \<Rightarrow> probes outcome" where
  "probe_sepext_semaphore_up env location x scope s =
     record_call env (targs location SEMUP (of_nat (synch_scope_code scope)) 0 0 x) s"

definition probe_sepext_semaphore_down :: "sysenv \<Rightarrow> addr \<Rightarrow> addr \<Rightarrow> sem_synch_scope \<Rightarrow> probes \<Rightarrow> probes outcome" where
  "probe_sepext_semaphore_down env location x scope s =
     record_call env (targs location SEMDOWN (of_nat (synch_scope_code scope)) 0 0 x) s"

definition probe_sepext_wait_for_completion :: "sysenv \<Rightarrow> addr \<Rightarrow> addr \<Rightarrow> sem_synch_scope \<Rightarrow> probes \<Rightarrow> probes outcome" where
  "probe_sepext_wait_for_completion env location x scope s =
     record_call env (targs location WAITCOMPL (of_nat (synch_scope_code scope)) 0 0 x) s"

definition probe_sepext_wait_for_completion_timeout :: "sysenv \<Rightarrow> addr \<Rightarrow> addr \<Rightarrow> u32 \<Rightarrow> sem_synch_scope \<Rightarrow> probes \<Rightarrow> probes outcome" where
  "probe_sepext_wait_for_completion_timeout env location x timeout scope s =
     record_call env (targs location WAITCOMPL (of_nat (synch_scope_code scope)) 0 0 x) s"

definition probe_sepext_wait_for_completion_interruptible :: "sysenv \<Rightarrow> addr \<Rightarrow> addr \<Rightarrow> sem_synch_scope \<Rightarrow> probes \<Rightarrow> probes outcome" where
  "probe_sepext_wait_for_completion_interruptible env location x scope s =
     record_call env (targs location WAITCOMPL (of_nat (synch_scope_code scope)) 0 0 x) s"

definition probe_sepext_wait_for_completion_interruptible_timeout :: "sysenv \<Rightarrow> addr \<Rightarrow> addr \<Rightarrow> u32 \<Rightarrow> sem_synch_scope \<Rightarrow> probes \<Rightarrow> probes outcome" where
  "probe_sepext_wait_for_completion_interruptible_timeout env location x timeout scope s =
     record_call env (targs location WAITCOMPL (of_nat (synch_scope_code scope)) 0 0 x) s"

definition probe_sepext_wait_for_completion_killable :: "sysenv \<Rightarrow> addr \<Rightarrow> addr \<Rightarrow> sem_synch_scope \<Rightarrow> probes \<Rightarrow> probes outcome" where
  "probe_sepext_wait_for_completion_killable env location x scope s =
     record_call env (targs location WAITCOMPL (of_nat (synch_scope_code scope)) 0 0 x) s"

definition probe_sepext_wait_for_completion_killable_timeout :: "sysenv \<Rightarrow> addr \<Rightarrow> addr \<Rightarrow> u32 \<Rightarrow> sem_synch_scope \<Rightarrow> probes \<Rightarrow> probes outcome" where
  "probe_sepext_wait_for_completion_killable_timeout env location x timeout scope s =
     record_call env (targs location WAITCOMPL (of_nat (synch_scope_code scope)) 0 0 x) s"

definition probe_sepext_try_wait_for_completion :: "sysenv \<Rightarrow> addr \<Rightarrow> addr \<Rightarrow> sem_synch_scope \<Rightarrow> probes \<Rightarrow> probes outcome" where
  "probe_sepext_try_wait_for_completion env location x scope s =
     record_call env (targs location WAITCOMPL (of_nat (synch_scope_code scope)) 0 0 x) s"

definition probe_sepext_complete :: "sysenv \<Rightarrow> addr \<Rightarrow> addr \<Rightarrow> sem_synch_scope \<Rightarrow> probes \<Rightarrow> probes outcome" where
  "probe_sepext_complete env location x scope s =
     record_call env (targs location COMPL (of_nat (synch_scope_code scope)) 0 0 x) s"

definition probe_sepext_complete_all :: "sysenv \<Rightarrow> addr \<Rightarrow> addr \<Rightarrow> sem_synch_scope \<Rightarrow> probes \<Rightarrow> probes outcome" where
  "probe_sepext_complete_all env location x scope s =
     record_call env (targs location COMPL (of_nat (synch_scope_code scope)) 0 0 x) s"

definition probe_sepext_pktenq :: "sysenv \<Rightarrow> addr \<Rightarrow> addr \<Rightarrow> probes \<Rightarrow> probes outcome" where
  "probe_sepext_pktenq env ra address s =
     record_call env (targs ra PKTENQ 0 0 0 address) s"

definition probe_sepext_pktdeq :: "sysenv \<Rightarrow> addr \<Rightarrow> addr \<Rightarrow> probes \<Rightarrow> probes outcome" where
  "probe_sepext_pktdeq env ra address s =
     record_call env (targs ra PKTDEQ 0 0 0 address) s"

definition probe_sepext_pktstart :: "sysenv \<Rightarrow> addr \<Rightarrow> probes \<Rightarrow> probes outcome" where
  "probe_sepext_pktstart env ra s =
     record_call env (targs ra PKTSTART 0 0 0 0) s"

definition probe_sepext_pktstop :: "sysenv \<Rightarrow> addr \<Rightarrow> probes \<Rightarrow> probes outcome" where
  "probe_sepext_pktstop env ra s =
     record_call env (targs ra PKTSTOP 0 0 0 0) s"

definition probe_sepext_enqueuerq :: "sysenv \<Rightarrow> addr \<Rightarrow> u32 \<Rightarrow> u32 \<Rightarrow> probes \<Rightarrow> probes outcome" where
  "probe_sepext_enqueuerq env location p_pid flags s =
     record_call env (targs location WAKEUP (ucast p_pid) 0 flags 0) s"

definition probe_list_add_tail :: "sysenv \<Rightarrow> addr \<Rightarrow> addr \<Rightarrow> probes \<Rightarrow> probes outcome" where
  "probe_list_add_tail env ra head s =
     record_call env (targs ra ENQUEUE 0 0 0 head) s"

definition probe_sepext_softirqraise :: "sysenv \<Rightarrow> addr \<Rightarrow> u32 \<Rightarrow> probes \<Rightarrow> probes outcome" where
  "probe_sepext_softirqraise env ra nr s =
     record_call env (targs ra SIRQRAISE (ucast nr) 0 0 0) s"

definition probe_sepext_softirqstart :: "sysenv \<Rightarrow> addr \<Rightarrow> u32 \<Rightarrow> probes \<Rightarrow> probes outcome" where
  "probe_sepext_softirqstart env ra sirq s =
     record_call env (targs ra SOFTIRQSTART (ucast sirq) 0 0 0) s"

definition probe_sepext_softirqstop :: "sysenv \<Rightarrow> addr \<Rightarrow> u32 \<Rightarrow> probes \<Rightarrow> probes outcome" where
  "probe_sepext_softirqstop env ra sirq s =
     record_call env (targs ra SOFTIRQSTOP (ucast sirq) 0 0 0) s"

definition probe_sepext_taskletstart :: "sysenv \<Rightarrow> addr \<Rightarrow> u32 \<Rightarrow> probes \<Rightarrow> probes outcome" where
  "probe_sepext_taskletstart env ra tasklet s =
     record_call env (targs ra TASKLETSTART (ucast tasklet) 0 0 0) s"

definition probe_sepext_taskletstop :: "sysenv \<Rightarrow> addr \<Rightarrow> u32 \<Rightarrow> probes \<Rightarrow> probes outcome" where
  "probe_sepext_taskletstop env ra tasklet s =
     record_call env (targs ra TASKLETSTOP (ucast tasklet) 0 0 0) s"

definition probe_sepext_ctxswitch :: "sysenv \<Rightarrow> u32 \<Rightarrow> u32 \<Rightarrow> probes \<Rightarrow> probes outcome" where
  "probe_sepext_ctxswitch env prev_pid next_pid s =
     (let st = stats (tr s);
          s1 = s\<lparr>tr := (tr s)\<lparr>stats := st\<lparr>st_ctxcnt := st_ctxcnt st + 1\<rparr>\<rparr>\<rparr>
      in record_call env (targs 0 CTXSWITCH (ucast prev_pid) (ucast next_pid) 0 0) s1)"

definition probe_sepext_debug :: "sysenv \<Rightarrow> u32 \<Rightarrow> probes \<Rightarrow> probes" where
  "probe_sepext_debug env data s = s\<lparr>doStackTrace := (if data \<noteq> 0 then ev_pid env else 0)\<rparr>"

section \<open>The proc file of the packet extractors\<close>

definition PKTEXTR_STRINGSIZE :: nat where
  "PKTEXTR_STRINGSIZE = 10 + 1 + 10 + 1 + 1 + 2"

text \<open>
  \<open>user\<close> holds the \<open>count\<close> bytes at the user's address and \<open>ret\<close> is the number of them that
  \<open>copy_from_user\<close> fails to copy, which it replaces by zero bytes.
\<close>

definition copy_from_user :: "string \<Rightarrow> nat \<Rightarrow> string \<Rightarrow> string" where
  "copy_from_user user ret buf =
     (let n = length user; bytes = take (n - ret) user @ replicate (min ret n) NUL
      in bytes @ drop n buf)"

definition add_pktextr :: "string \<Rightarrow> nat \<Rightarrow> probes \<Rightarrow> (int \<times> probes) outcome" where
  "add_pktextr user ret s =
     (let count = length user in
      if num_pi_entries s \<ge> MAX_EXTRACTORS then Inr (- 1, s)
      else if count > PKTEXTR_STRINGSIZE then Inr (- 1, s)
      else
        bind_outcome (upd_checked (pktextrprocbuffer s) count NUL) (\<lambda>buf.
          let buf' = copy_from_user user ret buf;
              s1 = s\<lparr>pktextrprocbuffer := buf'\<rparr>
          in
          if ret \<noteq> 0 then Inr (- 1, s1)
          else
            (case sscanf (cstring_of buf') ''%u %u %u'' of
               (n, vs) \<Rightarrow>
                 if n < 3 then Inr (- 1, s1)
                 else
                   (case vs of V32 service_id # V32 extract_start # V32 num_bytes # _ \<Rightarrow>
                      bind_outcome (upd_checked (pi_entries s1) (num_pi_entries s1)
                          \<lparr>pi_service_id = service_id, pi_extract_start = extract_start,
                           pi_num_bytes = num_bytes\<rparr>) (\<lambda>es.
                        Inr (int count, s1\<lparr>pi_entries := es, num_pi_entries := num_pi_entries s1 + 1\<rparr>))
                    | _ \<Rightarrow> Inr (- 1, s1)))))"

definition read_pktextr :: "int \<times> bool" where
  "read_pktextr = (0, True)"

section \<open>Registration\<close>

text \<open>
  Registering a probe fails when the kernel reports an error or the probe is registered already;
  the macro then unregisters it.
\<close>

definition register_trace :: "(string \<Rightarrow> bool) \<Rightarrow> string \<Rightarrow> string list \<Rightarrow> string list" where
  "register_trace reg_ok x reg =
     (if reg_ok x \<and> x \<notin> set reg then reg @ [x] else removeAll x reg)"

definition unregister_trace :: "string \<Rightarrow> string list \<Rightarrow> string list" where
  "unregister_trace x reg = removeAll x reg"

record sepext_config =
  CONFIG_TRACEPOINTS :: bool
  CONFIG_MIGRATION :: bool
  CONFIG_PKTEXTR :: bool

definition activated_probes :: "sepext_config \<Rightarrow> string list" where
  "activated_probes cfg =
     (if CONFIG_TRACEPOINTS cfg then
        [''srventry'', ''srvexit'', ''hirqstart'', ''hirqstop'', ''ctxswitch'', ''peustart'',
         ''peustop'', ''pktqueue'', ''srvqueue'', ''loopstart'', ''looprestart'', ''loopstop'',
         ''queuecondition'', ''statecondition'', ''semaphore_up'', ''semaphore_down'', ''wakeup'',
         ''dequeuerq'', ''wait_for_completion'', ''wait_for_completion_timeout'',
         ''wait_for_completion_interruptible'', ''wait_for_completion_interruptible_timeout'',
         ''wait_for_completion_killable'', ''wait_for_completion_killable_timeout'',
         ''try_wait_for_completion'', ''complete'', ''complete_all'', ''tempsynch'']
      else [])
     @ (if CONFIG_MIGRATION cfg then [''migrate''] else [])
     @ (if CONFIG_PKTEXTR cfg then [''pktextract''] else [])"

definition deactivated_probes :: "sepext_config \<Rightarrow> string list" where
  "deactivated_probes cfg =
     (if CONFIG_TRACEPOINTS cfg then
        [''wakeup'', ''srventry'', ''srvexit'', ''ctxswitch'', ''hirqstart'', ''hirqstop'',
         ''peustart'', ''peustop'', ''pktqueue'', ''loopstart'', ''looprestart'', ''loopstop'',
         ''queuecondition'', ''srvqueue'', ''semaphore_up'', ''semaphore_down'',
         ''wait_for_completion'', ''wait_for_completion_timeout'',
         ''wait_for_completion_interruptible'', ''wait_for_completion_interruptible_timeout'',
         ''wait_for_completion_killable'', ''wait_for_completion_killable_timeout'',
         ''try_wait_for_completion'', ''complete'', ''complete_all'']
      else [])
     @ (if CONFIG_MIGRATION cfg then [''migrate''] else [])
     @ (if CONFIG_PKTEXTR cfg then [''pktextract''] else [])"

definition activate_static_probes :: "sepext_config \<Rightarrow> bool \<Rightarrow> (string \<Rightarrow> bool) \<Rightarrow> probes \<Rightarrow> probes" where
  "activate_static_probes cfg proc_ok reg_ok s =
     s\<lparr>num_pi_entries := 0, doStackTrace := 0, has_pktextr := proc_ok,
       registered := fold (register_trace reg_ok) (activated_probes cfg) (registered s)\<rparr>"

definition deactivate_static_probes :: "sepext_config \<Rightarrow> probes \<Rightarrow> probes" where
  "deactivate_static_probes cfg s =
     s\<lparr>has_pktextr := False,
       registered := fold unregister_trace (deactivated_probes cfg) (registered s)\<rparr>"

section \<open>Tracepoints\<close>

text \<open>
  The calls of the probes with their arguments, by the groups of the source, and the function each
  of them runs.
\<close>

datatype proto_tp =
    Tp_srventry addr | Tp_srvexit addr | Tp_peustart addr | Tp_peustop addr | Tp_looprestart
  | Tp_loopstart u32 u16 u32 u32 | Tp_loopstop | Tp_queuecondition sem_queue_condition u32 u32
  | Tp_threadcondition sem_thread_condition u32 | Tp_statecondition sem_state_id u32 u32 u32
  | Tp_conditionend | Tp_srvqueue addr u32 addr sem_queue_operation
  | Tp_statequeue u32 u32 sem_queue_operation u32

datatype sched_tp =
    Tp_wakeup addr u32 | Tp_migrate u32 u32 | Tp_dequeuerq addr u32 u32 | Tp_hirqstart u32
  | Tp_hirqstop u32

datatype synch_tp =
    Tp_tempsynch addr sem_synch_type addr sem_synch_scope
  | Tp_semaphore_up addr addr sem_synch_scope | Tp_semaphore_down addr addr sem_synch_scope
  | Tp_wait_for_completion addr addr sem_synch_scope
  | Tp_wait_for_completion_timeout addr addr u32 sem_synch_scope
  | Tp_wait_for_completion_interruptible addr addr sem_synch_scope
  | Tp_wait_for_completion_interruptible_timeout addr addr u32 sem_synch_scope
  | Tp_wait_for_completion_killable addr addr sem_synch_scope
  | Tp_wait_for_completion_killable_timeout addr addr u32 sem_synch_scope
  | Tp_try_wait_for_completion addr addr sem_synch_scope | Tp_complete addr addr sem_synch_scope
  | Tp_complete_all addr addr sem_synch_scope

datatype old_tp =
    Tp_pktenq addr | Tp_pktdeq addr | Tp_pktstart | Tp_pktstop | Tp_enqueuerq addr u32 u32
  | Tp_list_add_tail addr | Tp_softirqraise u32 | Tp_softirqstart u32 | Tp_softirqstop u32
  | Tp_taskletstart u32 | Tp_taskletstop u32

datatype tracepoint =
    Proto proto_tp | Sched sched_tp | Synch synch_tp | Old old_tp
  | Tp_pktqueue addr u32 addr sem_queue_operation
  | Tp_pktextract sk_buff u32
  | Tp_ctxswitch u32 u32
  | Tp_debug u32

primrec probe_proto :: "sysenv \<Rightarrow> addr \<Rightarrow> proto_tp \<Rightarrow> probes \<Rightarrow> probes outcome" where
  "probe_proto env ra (Tp_srventry address) =
     probe_sepext_srventry env ra address"
| "probe_proto env ra (Tp_srvexit address) =
     probe_sepext_srvexit env ra address"
| "probe_proto env ra (Tp_peustart address) =
     probe_sepext_peustart env ra address"
| "probe_proto env ra (Tp_peustop address) =
     probe_sepext_peustop env ra address"
| "probe_proto env ra Tp_looprestart =
     probe_sepext_looprestart env ra"
| "probe_proto env ra (Tp_loopstart maxIterations perQueue from to) =
     probe_sepext_loopstart env ra maxIterations perQueue from to"
| "probe_proto env ra Tp_loopstop =
     probe_sepext_loopstop env ra"
| "probe_proto env ra (Tp_queuecondition condition from to) =
     probe_sepext_queuecondition env ra condition from to"
| "probe_proto env ra (Tp_threadcondition condition pid) =
     probe_sepext_threadcondition env ra condition pid"
| "probe_proto env ra (Tp_statecondition condition val readwrite global) =
     probe_sepext_statecondition env ra condition val readwrite global"
| "probe_proto env ra Tp_conditionend =
     probe_sepext_conditionend env ra"
| "probe_proto env ra (Tp_srvqueue address queue head operation) =
     probe_sepext_srvqueue env ra address queue head operation"
| "probe_proto env ra (Tp_statequeue queue val operation scope) =
     probe_sepext_statequeue env ra queue val operation scope"

primrec name_proto :: "proto_tp \<Rightarrow> string" where
  "name_proto (Tp_srventry _) = ''srventry''"
| "name_proto (Tp_srvexit _) = ''srvexit''"
| "name_proto (Tp_peustart _) = ''peustart''"
| "name_proto (Tp_peustop _) = ''peustop''"
| "name_proto Tp_looprestart = ''looprestart''"
| "name_proto (Tp_loopstart _ _ _ _) = ''loopstart''"
| "name_proto Tp_loopstop = ''loopstop''"
| "name_proto (Tp_queuecondition _ _ _) = ''queuecondition''"
| "name_proto (Tp_threadcondition _ _) = ''threadcondition''"
| "name_proto (Tp_statecondition _ _ _ _) = ''statecondition''"
| "name_proto Tp_conditionend = ''conditionend''"
| "name_proto (Tp_srvqueue _ _ _ _) = ''srvqueue''"
| "name_proto (Tp_statequeue _ _ _ _) = ''statequeue''"

primrec probe_sched :: "sysenv \<Rightarrow> addr \<Rightarrow> sched_tp \<Rightarrow> probes \<Rightarrow> probes outcome" where
  "probe_sched env ra (Tp_wakeup location p_pid) =
     probe_sepext_wakeup env location p_pid"
| "probe_sched env ra (Tp_migrate newCPU pid) =
     probe_sepext_migrate env newCPU pid"
| "probe_sched env ra (Tp_dequeuerq location p_pid flags) =
     probe_sepext_dequeuerq env location p_pid flags"
| "probe_sched env ra (Tp_hirqstart hirq) =
     probe_sepext_hirqstart env hirq"
| "probe_sched env ra (Tp_hirqstop hirq) =
     probe_sepext_hirqstop env hirq"

primrec name_sched :: "sched_tp \<Rightarrow> string" where
  "name_sched (Tp_wakeup _ _) = ''wakeup''"
| "name_sched (Tp_migrate _ _) = ''migrate''"
| "name_sched (Tp_dequeuerq _ _ _) = ''dequeuerq''"
| "name_sched (Tp_hirqstart _) = ''hirqstart''"
| "name_sched (Tp_hirqstop _) = ''hirqstop''"

primrec probe_synch :: "sysenv \<Rightarrow> addr \<Rightarrow> synch_tp \<Rightarrow> probes \<Rightarrow> probes outcome" where
  "probe_synch env ra (Tp_tempsynch location type variable scope) =
     probe_sepext_tempsynch env location type variable scope"
| "probe_synch env ra (Tp_semaphore_up location x scope) =
     probe_sepext_semaphore_up env location x scope"
| "probe_synch env ra (Tp_semaphore_down location x scope) =
     probe_sepext_semaphore_down env location x scope"
| "probe_synch env ra (Tp_wait_for_completion location x scope) =
     probe_sepext_wait_for_completion env location x scope"
| "probe_synch env ra (Tp_wait_for_completion_timeout location x timeout scope) =
     probe_sepext_wait_for_completion_timeout env location x timeout scope"
| "probe_synch env ra (Tp_wait_for_completion_interruptible location x scope) =
     probe_sepext_wait_for_completion_interruptible env location x scope"
| "probe_synch env ra (Tp_wait_for_completion_interruptible_timeout location x timeout scope) =
     probe_sepext_wait_for_completion_interruptible_timeout env location x timeout scope"
| "probe_synch env ra (Tp_wait_for_completion_killable location x scope) =
     probe_sepext_wait_for_completion_killable env location x scope"
| "probe_synch env ra (Tp_wait_for_completion_killable_timeout location x timeout scope) =
     probe_sepext_wait_for_completion_killable_timeout env location x timeout scope"
| "probe_synch env ra (Tp_try_wait_for_completion location x scope) =
     probe_sepext_try_wait_for_completion env location x scope"
| "probe_synch env ra (Tp_complete location x scope) =
     probe_sepext_complete env location x scope"
| "probe_synch env ra (Tp_complete_all location x scope) =
     probe_sepext_complete_all env location x scope"

primrec name_synch :: "synch_tp \<Rightarrow> string" where
  "name_synch (Tp_tempsynch _ _ _ _) = ''tempsynch''"
| "name_synch (Tp_semaphore_up _ _ _) = ''semaphore_up''"
| "name_synch (Tp_semaphore_down _ _ _) = ''semaphore_down''"
| "name_synch (Tp_wait_for_completion _ _ _) = ''wait_for_completion''"
| "name_synch (Tp_wait_for_completion_timeout _ _ _ _) = ''wait_for_completion_timeout''"
| "name_synch (Tp_wait_for_completion_interruptible _ _ _) = ''wait_for_completion_interruptible''"
| "name_synch (Tp_wait_for_completion_interruptible_timeout _ _ _ _) = ''wait_for_completion_interruptible_timeout''"
| "name_synch (Tp_wait_for_completion_killable _ _ _) = ''wait_for_completion_killable''"
| "name_synch (Tp_wait_for_completion_killable_timeout _ _ _ _) = ''wait_for_completion_killable_timeout''"
| "name_synch (Tp_try_wait_for_completion _ _ _) = ''try_wait_for_completion''"
| "name_synch (Tp_complete _ _ _) = ''complete''"
| "name_synch (Tp_complete_all _ _ _) = ''complete_all''"

primrec probe_old :: "sysenv \<Rightarrow> addr \<Rightarrow> old_tp \<Rightarrow> probes \<Rightarrow> probes outcome" where
  "probe_old env ra (Tp_pktenq address) =
     probe_sepext_pktenq env ra address"
| "probe_old env ra (Tp_pktdeq address) =
     probe_sepext_pktdeq env ra address"
| "probe_old env ra Tp_pktstart =
     probe_sepext_pktstart env ra"
| "probe_old env ra Tp_pktstop =
     probe_sepext_pktstop env ra"
| "probe_old env ra (Tp_enqueuerq location p_pid flags) =
     probe_sepext_enqueuerq env location p_pid flags"
| "probe_old env ra (Tp_list_add_tail head) =
     probe_list_add_tail env ra head"
| "probe_old env ra (Tp_softirqraise nr) =
     probe_sepext_softirqraise env ra nr"
| "probe_old env ra (Tp_softirqstart sirq) =
     probe_sepext_softirqstart env ra sirq"
| "probe_old env ra (Tp_softirqstop sirq) =
     probe_sepext_softirqstop env ra sirq"
| "probe_old env ra (Tp_taskletstart tasklet) =
     probe_sepext_taskletstart env ra tasklet"
| "probe_old env ra (Tp_taskletstop tasklet) =
     probe_sepext_taskletstop env ra tasklet"

primrec name_old :: "old_tp \<Rightarrow> string" where
  "name_old (Tp_pktenq _) = ''pktenq''"
| "name_old (Tp_pktdeq _) = ''pktdeq''"
| "name_old Tp_pktstart = ''pktstart''"
| "name_old Tp_pktstop = ''pktstop''"
| "name_old (Tp_enqueuerq _ _ _) = ''enqueuerq''"
| "name_old (Tp_list_add_tail _) = ''list_add_tail''"
| "name_old (Tp_softirqraise _) = ''softirqraise''"
| "name_old (Tp_softirqstart _) = ''softirqstart''"
| "name_old (Tp_softirqstop _) = ''softirqstop''"
| "name_old (Tp_taskletstart _) = ''taskletstart''"
| "name_old (Tp_taskletstop _) = ''taskletstop''"

primrec probe ::
  "sysenv \<Rightarrow> addr \<Rightarrow> memory \<Rightarrow> (nat \<Rightarrow> sysenv) \<Rightarrow> tracepoint \<Rightarrow> probes \<Rightarrow> probes outcome" where
  "probe env ra mem envs (Tp_pktqueue pktdata queue head op) =
     probe_sepext_pktqueue env ra mem envs pktdata queue head op"
| "probe env ra mem envs (Tp_pktextract skb global) = probe_sepext_pktextract env ra mem skb global"
| "probe env ra mem envs (Tp_ctxswitch prev nxt) = probe_sepext_ctxswitch env prev nxt"
| "probe env ra mem envs (Tp_debug data) = (\<lambda>s. Inr (probe_sepext_debug env data s))"
| "probe env ra mem envs (Proto tp) = probe_proto env ra tp"
| "probe env ra mem envs (Sched tp) = probe_sched env ra tp"
| "probe env ra mem envs (Synch tp) = probe_synch env ra tp"
| "probe env ra mem envs (Old tp) = probe_old env ra tp"

primrec tp_name :: "tracepoint \<Rightarrow> string" where
  "tp_name (Tp_pktqueue _ _ _ _) = ''pktqueue''"
| "tp_name (Tp_pktextract _ _) = ''pktextract''"
| "tp_name (Tp_ctxswitch _ _) = ''ctxswitch''"
| "tp_name (Tp_debug _) = ''debug''"
| "tp_name (Proto tp) = name_proto tp"
| "tp_name (Sched tp) = name_sched tp"
| "tp_name (Synch tp) = name_synch tp"
| "tp_name (Old tp) = name_old tp"

text \<open>A tracepoint in the kernel runs the probe only while it is registered.\<close>

definition fire :: "sysenv \<Rightarrow> addr \<Rightarrow> memory \<Rightarrow> (nat \<Rightarrow> sysenv) \<Rightarrow> tracepoint \<Rightarrow> probes \<Rightarrow> probes outcome" where
  "fire env ra mem envs tp s =
     (if tp_name tp \<in> set (registered s) then probe env ra mem envs tp s else Inr s)"

section \<open>The probes as clients of the recorder\<close>

text \<open>The state of the probes between activation and deactivation.\<close>

definition pr_inv :: "probes \<Rightarrow> bool" where
  "pr_inv s \<longleftrightarrow> tr_inv (tr s) \<and> length (pi_entries s) = MAX_EXTRACTORS
     \<and> num_pi_entries s \<le> MAX_EXTRACTORS \<and> length (pktextrprocbuffer s) = PKTEXTR_STRINGSIZE"

definition pr_view :: "probes \<Rightarrow> blog" where
  "pr_view s = tr_view (tr s)"

definition emit_probe :: "sysenv \<times> trace_args \<Rightarrow> probes \<Rightarrow> probes outcome" where
  "emit_probe c s = record_call (fst c) (snd c) s"

interpretation prober: trace_sink emit_probe call_entry pr_view pr_inv
proof unfold_locales
  fix s c
  assume s: "pr_inv s" and c: "se_type (call_entry c) < STARTIDS"
  then obtain t where "trace_entry (fst c) (snd c) (tr s) = Inr t" "tr_inv t"
      "tr_view t = blog_trace (call_entry c) (tr_view (tr s))"
    using recorder.emit_spec [of "tr s" c] by (auto simp: pr_inv_def emit_call_def)
  then show "\<exists>s'. emit_probe c s = Inr s' \<and> pr_inv s' \<and> pr_view s' = blog_trace (call_entry c) (pr_view s)"
    using s by (auto simp: emit_probe_def record_call_def pr_inv_def pr_view_def)
next
  fix s
  assume "pr_inv s"
  then show "length (bl_log (pr_view s)) \<le> bl_cap (pr_view s)"
    using recorder.view_bound [of "tr s"] by (simp add: pr_inv_def pr_view_def)
qed

text \<open>A probe that makes one call records the entry of that call.\<close>

lemma record_call_spec:
  assumes "pr_inv s" "ta_type ta < STARTIDS"
  shows "\<exists>s'. record_call env ta s = Inr s' \<and> pr_inv s'
    \<and> pr_view s' = blog_trace (new_entry env ta) (pr_view s)"
  using prober.emit_spec [of s "(env, ta)"] assms by (simp add: emit_probe_def call_entry_def)

lemma targs_type [simp]: "ta_type (targs loc ty p1 p2 d ad) = ty"
  by (simp add: targs_def)

section \<open>Which entries a packet-queue event records\<close>

text \<open>The calls of the search loop from a given value of its flag on.\<close>

fun loop_calls :: "(pktextr_info \<Rightarrow> bool) \<Rightarrow> (nat \<Rightarrow> sysenv) \<Rightarrow> (sepentry_type \<Rightarrow> pktextr_info \<Rightarrow> trace_args)
    \<Rightarrow> bool \<Rightarrow> (nat \<times> pktextr_info) list \<Rightarrow> (sysenv \<times> trace_args) list" where
  "loop_calls m envs args x [] = []"
| "loop_calls m envs args x ((i, pe) # es) =
     (if m pe then (envs i, args (if x then PKTQUEUEN else PKTQUEUE) pe) # loop_calls m envs args True es
      else loop_calls m envs args x es)"

lemma pktq_loop:
  assumes "\<forall>(i, pe)\<in>set es. match pe = Inr (m pe)"
  shows "fold_outcome (pktq_step match envs args) es (x, s) =
    bind_outcome (fold_outcome emit_probe (loop_calls m envs args x es) s)
      (\<lambda>s'. Inr (x \<or> loop_calls m envs args x es \<noteq> [], s'))"
  using assms
proof (induction es arbitrary: x s)
  case (Cons e es)
  obtain i pe where e: "e = (i, pe)" by (cases e)
  with Cons.prems have m: "match pe = Inr (m pe)" by simp
  show ?case
  proof (cases "m pe")
    case True
    then show ?thesis
      using Cons m e
      by (cases "record_call (envs i) (args (if x then PKTQUEUEN else PKTQUEUE) pe) s")
        (auto simp: pktq_step_def emit_probe_def Let_def)
  next
    case False
    then show ?thesis using Cons m e by (auto simp: pktq_step_def)
  qed
qed simp

text \<open>
  The specification of the loop: the matching extractors in their order, the first recorded as
  \<open>PKTQUEUE\<close>, every further one as \<open>PKTQUEUEN\<close>.
\<close>

definition queue_calls :: "(pktextr_info \<Rightarrow> bool) \<Rightarrow> (nat \<Rightarrow> sysenv) \<Rightarrow> (sepentry_type \<Rightarrow> pktextr_info \<Rightarrow> trace_args)
    \<Rightarrow> pktextr_info list \<Rightarrow> (sysenv \<times> trace_args) list" where
  "queue_calls m envs args pes =
     (case filter (\<lambda>(i, pe). m pe) (enumerate 0 pes) of
        [] \<Rightarrow> []
      | (i, pe) # rest \<Rightarrow> (envs i, args PKTQUEUE pe) # map (\<lambda>(i, pe). (envs i, args PKTQUEUEN pe)) rest)"

lemma loop_calls_marked:
  "loop_calls m envs args True es = map (\<lambda>(i, pe). (envs i, args PKTQUEUEN pe)) (filter (\<lambda>(i, pe). m pe) es)"
  by (induction es) auto

lemma loop_calls_eq: "loop_calls m envs args False (enumerate 0 pes) = queue_calls m envs args pes"
proof -
  have "loop_calls m envs args False es = (case filter (\<lambda>(i, pe). m pe) es of [] \<Rightarrow> []
      | (i, pe) # rest \<Rightarrow> (envs i, args PKTQUEUE pe) # map (\<lambda>(i, pe). (envs i, args PKTQUEUEN pe)) rest)" for es
    by (induction es) (auto simp: loop_calls_marked)
  then show ?thesis by (simp add: queue_calls_def)
qed

text \<open>
  The condition under which an extractor applies: the queue it names, or, for an event that names
  no queue, the queue in the table whose head the event gives.
\<close>

definition extractor_match :: "sem_queue_struct list \<Rightarrow> u32 \<Rightarrow> addr \<Rightarrow> pktextr_info \<Rightarrow> bool" where
  "extractor_match qs queue head pe \<longleftrightarrow>
     (if queue \<noteq> 0 then pi_service_id pe = queue
      else head \<noteq> 0 \<and> sq_head (qs ! unat (pi_service_id pe)) = head)"

definition pktq_args :: "addr \<Rightarrow> memory \<Rightarrow> addr \<Rightarrow> u32 \<Rightarrow> addr \<Rightarrow> sem_queue_operation
    \<Rightarrow> sepentry_type \<Rightarrow> pktextr_info \<Rightarrow> trace_args" where
  "pktq_args ra mem pktdata queue head op ty pe =
     targs ra ty (of_nat (queue_op_code op)) (ucast queue) (extract_value mem pktdata pe) head"

definition pktqueue_calls where
  "pktqueue_calls env ra mem envs pktdata queue head op s =
     (let calls = (if pktdata = 0 then []
          else queue_calls (extractor_match (sem_queues (tr s)) queue head) envs
            (pktq_args ra mem pktdata queue head op) (take (num_pi_entries s) (pi_entries s)))
      in if calls = [] then [(env, targs ra PKTQUEUE (of_nat (queue_op_code op)) (ucast queue) 0 head)]
         else calls)"

text \<open>The extractors the events can look up: those whose identifier is an index of the table.\<close>

definition extractors_ok :: "probes \<Rightarrow> bool" where
  "extractors_ok s \<longleftrightarrow> (\<forall>pe\<in>set (take (num_pi_entries s) (pi_entries s)). unat (pi_service_id pe) < MAX_QUEUES)"

lemma loop_calls_Nil: "(\<And>pe. \<not> m pe) \<Longrightarrow> loop_calls m envs args x es = []"
  by (induction es) auto

lemma emit_probe_pair [simp]: "emit_probe (env, ta) s = record_call env ta s"
  by (simp add: emit_probe_def)

lemma probe_sepext_pktqueue_calls:
  assumes "pr_inv s" "queue \<noteq> 0 \<or> extractors_ok s"
  shows "probe_sepext_pktqueue env ra mem envs pktdata queue head op s =
    fold_outcome emit_probe (pktqueue_calls env ra mem envs pktdata queue head op s) s"
proof (cases "pktdata = 0")
  case True
  then show ?thesis by (simp add: probe_sepext_pktqueue_def pktqueue_calls_def)
next
  case False
  let ?act = "enumerate 0 (take (num_pi_entries s) (pi_entries s))"
  let ?m = "extractor_match (sem_queues (tr s)) queue head"
  let ?args = "pktq_args ra mem pktdata queue head op"
  let ?cs = "queue_calls ?m envs ?args (take (num_pi_entries s) (pi_entries s))"
  let ?none = "targs ra PKTQUEUE (of_nat (queue_op_code op)) (ucast queue) 0 head"
  let ?loop = "if queue \<noteq> 0 then
       fold_outcome (pktq_step (\<lambda>pe. Inr (pi_service_id pe = queue)) envs ?args) ?act (False, s)
     else if head \<noteq> 0 then
       fold_outcome (pktq_step (\<lambda>pe. bind_outcome (nth_checked (sem_queues (tr s)) (unat (pi_service_id pe)))
           (\<lambda>q. Inr (sq_head q = head))) envs ?args) ?act (False, s)
     else Inr (False, s)"
  have len: "length (sem_queues (tr s)) = MAX_QUEUES"
    using assms(1) by (simp add: pr_inv_def tr_inv_def tr_wf_def)
  have inact: "pe \<in> set (take (num_pi_entries s) (pi_entries s))" if "(i, pe) \<in> set ?act" for i pe
    using that by (metis enumerate_eq_zip in_set_zipE)
  have loop: "?loop = bind_outcome (fold_outcome emit_probe ?cs s) (\<lambda>s'. Inr (?cs \<noteq> [], s'))"
  proof -
    consider "queue \<noteq> 0" | "queue = 0" "head \<noteq> 0" | "queue = 0" "head = 0" by blast
    then show ?thesis
    proof cases
      case 1
      then show ?thesis
        using pktq_loop [of ?act "\<lambda>pe. Inr (pi_service_id pe = queue)" ?m envs ?args False s]
        by (simp add: loop_calls_eq extractor_match_def)
    next
      case 2
      have "\<forall>(i, pe)\<in>set ?act. bind_outcome (nth_checked (sem_queues (tr s)) (unat (pi_service_id pe)))
           (\<lambda>q. Inr (sq_head q = head)) = Inr (?m pe)"
        using 2 assms(2) len inact by (fastforce simp: extractor_match_def extractors_ok_def)
      from pktq_loop [OF this, of envs ?args False s] 2 show ?thesis
        by (simp add: loop_calls_eq)
    next
      case 3
      then have "?cs = []"
        using loop_calls_Nil [of ?m envs ?args False ?act] by (simp add: loop_calls_eq extractor_match_def)
      with 3 show ?thesis by simp
    qed
  qed
  have "probe_sepext_pktqueue env ra mem envs pktdata queue head op s =
      bind_outcome ?loop (\<lambda>(x, s'). if x then Inr s' else record_call env ?none s')"
    using False unfolding probe_sepext_pktqueue_def pktq_args_def Let_def by simp
  also have "\<dots> = bind_outcome (fold_outcome emit_probe ?cs s)
      (\<lambda>s'. if ?cs \<noteq> [] then Inr s' else record_call env ?none s')"
    unfolding loop by (cases "fold_outcome emit_probe ?cs s") simp_all
  finally show ?thesis
    using False by (cases "?cs = []") (simp_all add: pktqueue_calls_def Let_def)
qed

lemma pktqueue_call_types:
  assumes "c \<in> set (pktqueue_calls env ra mem envs pktdata queue head op s)"
  shows "ta_type (snd c) < STARTIDS"
  using assms
  by (auto simp: sepentry_type_order pktqueue_calls_def queue_calls_def pktq_args_def Let_def split: if_splits list.splits)

lemma pktqueue_spec:
  assumes "pr_inv s" "queue \<noteq> 0 \<or> extractors_ok s"
  shows "\<exists>s'. probe_sepext_pktqueue env ra mem envs pktdata queue head op s = Inr s' \<and> pr_inv s'
    \<and> pr_view s' = fold blog_trace
        (map call_entry (pktqueue_calls env ra mem envs pktdata queue head op s)) (pr_view s)"
  unfolding probe_sepext_pktqueue_calls [OF assms]
  using assms(1) pktqueue_call_types [of _ env ra mem envs pktdata queue head op s]
  by (intro prober.emit_all) (auto simp: call_entry_def)

section \<open>Every probe is safe\<close>

lemmas proto_defs = probe_sepext_srventry_def probe_sepext_srvexit_def probe_sepext_peustart_def
  probe_sepext_peustop_def probe_sepext_looprestart_def probe_sepext_loopstart_def
  probe_sepext_loopstop_def probe_sepext_queuecondition_def probe_sepext_threadcondition_def
  probe_sepext_statecondition_def probe_sepext_conditionend_def probe_sepext_srvqueue_def
  probe_sepext_statequeue_def

lemmas sched_defs = probe_sepext_wakeup_def probe_sepext_migrate_def probe_sepext_dequeuerq_def
  probe_sepext_hirqstart_def probe_sepext_hirqstop_def

lemmas synch_defs = probe_sepext_tempsynch_def probe_sepext_semaphore_up_def
  probe_sepext_semaphore_down_def probe_sepext_wait_for_completion_def
  probe_sepext_wait_for_completion_timeout_def probe_sepext_wait_for_completion_interruptible_def
  probe_sepext_wait_for_completion_interruptible_timeout_def
  probe_sepext_wait_for_completion_killable_def probe_sepext_wait_for_completion_killable_timeout_def
  probe_sepext_try_wait_for_completion_def probe_sepext_complete_def probe_sepext_complete_all_def

lemmas old_defs = probe_sepext_pktenq_def probe_sepext_pktdeq_def probe_sepext_pktstart_def
  probe_sepext_pktstop_def probe_sepext_enqueuerq_def probe_list_add_tail_def
  probe_sepext_softirqraise_def probe_sepext_softirqstart_def probe_sepext_softirqstop_def
  probe_sepext_taskletstart_def probe_sepext_taskletstop_def

lemma record_call_safe:
  "pr_inv s \<Longrightarrow> ty < STARTIDS \<Longrightarrow> \<exists>s'. record_call env (targs loc ty p1 p2 d ad) s = Inr s' \<and> pr_inv s'"
  using record_call_spec [of s "targs loc ty p1 p2 d ad" env] by auto

lemma probe_proto_safe: "pr_inv s \<Longrightarrow> \<exists>s'. probe_proto env ra p s = Inr s' \<and> pr_inv s'"
  by (cases p) (simp_all add: proto_defs record_call_safe sepentry_type_order)

lemma probe_sched_safe: "pr_inv s \<Longrightarrow> \<exists>s'. probe_sched env ra q s = Inr s' \<and> pr_inv s'"
  by (cases q) (simp_all add: sched_defs record_call_safe sepentry_type_order)

lemma probe_synch_safe: "pr_inv s \<Longrightarrow> \<exists>s'. probe_synch env ra y s = Inr s' \<and> pr_inv s'"
  by (cases y) (simp_all add: synch_defs record_call_safe sepentry_type_order)

lemma probe_old_safe: "pr_inv s \<Longrightarrow> \<exists>s'. probe_old env ra z s = Inr s' \<and> pr_inv s'"
  by (cases z) (simp_all add: old_defs record_call_safe sepentry_type_order)

lemma pktextract_safe:
  "pr_inv s \<Longrightarrow> \<exists>s'. probe_sepext_pktextract env ra mem skb global s = Inr s' \<and> pr_inv s'"
  by (simp add: probe_sepext_pktextract_def Let_def record_call_safe sepentry_type_order)

lemma ctxswitch_safe:
  "pr_inv s \<Longrightarrow> \<exists>s'. probe_sepext_ctxswitch env p n s = Inr s' \<and> pr_inv s'"
  unfolding probe_sepext_ctxswitch_def Let_def
  by (rule record_call_safe) (simp_all add: pr_inv_def tr_inv_def tr_wf_def tr_bound_def sepentry_type_order)

lemma debug_safe: "pr_inv s \<Longrightarrow> pr_inv (probe_sepext_debug env d s)"
  by (simp add: probe_sepext_debug_def pr_inv_def)

lemma pktqueue_safe:
  "pr_inv s \<Longrightarrow> extractors_ok s
    \<Longrightarrow> \<exists>s'. probe_sepext_pktqueue env ra mem envs pktdata queue head op s = Inr s' \<and> pr_inv s'"
  using pktqueue_spec by blast

lemma probe_safe:
  assumes "pr_inv s" "extractors_ok s"
  shows "\<exists>s'. probe env ra mem envs tp s = Inr s' \<and> pr_inv s'"
  using assms
  by (cases tp) (simp_all add: probe_proto_safe probe_sched_safe probe_synch_safe probe_old_safe
      pktextract_safe ctxswitch_safe debug_safe pktqueue_safe)

section \<open>Configuring an extractor\<close>

lemma cstring_of_text:
  assumes "NUL \<notin> set t"
  shows "cstring_of (t @ NUL # r) = t"
  using assms by (induction t) (auto simp: cstring_of_def)

lemma dec_string_no_NUL: "NUL \<notin> set (dec_string n)"
proof
  assume "NUL \<in> set (dec_string n)"
  then obtain d where "d \<in> set (dec_digits n)" "digit_char d = NUL"
    by (auto simp: dec_string_digits)
  then show False using digit_char_class(5) [OF dec_digits_bound] by blast
qed

text \<open>The line a user writes to the proc file.\<close>

definition extractor_line :: "nat \<Rightarrow> nat \<Rightarrow> nat \<Rightarrow> string" where
  "extractor_line a b c = dec_string a @ '' '' @ dec_string b @ '' '' @ dec_string c @ ''\<newline>''"

lemma extractor_line_no_NUL: "NUL \<notin> set (extractor_line a b c)"
  by (simp add: extractor_line_def dec_string_no_NUL)

lemma sscanf_extractor_line:
  "sscanf (extractor_line a b c) ''%u %u %u'' = (3, [V32 (of_nat a), V32 (of_nat b), V32 (of_nat c)])"
  using sscanf_three_decimals [of "''\<newline>''" a b c] by (simp add: extractor_line_def)

lemma proc_buffer_text:
  assumes "length buf = PKTEXTR_STRINGSIZE" "length u < PKTEXTR_STRINGSIZE" "NUL \<notin> set u"
  shows "cstring_of (copy_from_user u 0 (buf[length u := NUL])) = u"
proof -
  have "drop (length u) (buf[length u := NUL]) = NUL # drop (Suc (length u)) buf"
    using assms(1,2) by (simp add: drop_update_swap Cons_nth_drop_Suc [symmetric])
  then show ?thesis
    using assms(3) by (simp add: copy_from_user_def Let_def cstring_of_text)
qed

text \<open>A state of the probes for the witnesses, with no extractor configured.\<close>

definition demo_probes :: probes where
  "demo_probes = \<lparr>tr = demo_tracer,
     pi_entries = replicate MAX_EXTRACTORS \<lparr>pi_service_id = 0, pi_extract_start = 0, pi_num_bytes = 0\<rparr>,
     num_pi_entries = 0, doStackTrace = 0, pktextrprocbuffer = replicate PKTEXTR_STRINGSIZE NUL,
     registered = [''wakeup''], has_pktextr = True\<rparr>"

lemma demo_probes_inv: "pr_inv demo_probes" "num_pi_entries demo_probes = 0" "extractors_ok demo_probes"
  by (simp_all add: demo_probes_def pr_inv_def demo_tracer_inv extractors_ok_def)

lemma demo_line: "length (extractor_line 2 12 4) = 7" "length (extractor_line 1000 0 4) = 9"
  by (simp_all add: extractor_line_def dec_string_digits dec_digits.simps)

text \<open>
  Configuring a packet extractor: writing three decimal numbers in one line that fits the
  buffer stores exactly these numbers, modulo \<open>2 ^ 32\<close>, in the next free slot, leaves the other
  slots alone and reports the whole line as consumed.
\<close>

theorem add_pktextr_stores:
  assumes "pr_inv s" "num_pi_entries s < MAX_EXTRACTORS"
    "length (extractor_line a b c) < PKTEXTR_STRINGSIZE"
  shows "\<exists>s'. add_pktextr (extractor_line a b c) 0 s = Inr (int (length (extractor_line a b c)), s')
    \<and> pr_inv s' \<and> num_pi_entries s' = num_pi_entries s + 1
    \<and> take (num_pi_entries s') (pi_entries s') = take (num_pi_entries s) (pi_entries s)
        @ [\<lparr>pi_service_id = of_nat a, pi_extract_start = of_nat b, pi_num_bytes = of_nat c\<rparr>]"
proof -
  let ?l = "extractor_line a b c" and ?n = "num_pi_entries s"
  let ?pe = "\<lparr>pi_service_id = of_nat a, pi_extract_start = of_nat b, pi_num_bytes = of_nat c\<rparr>"
  let ?buf = "copy_from_user ?l 0 ((pktextrprocbuffer s)[length ?l := NUL])"
  have len: "length (pktextrprocbuffer s) = PKTEXTR_STRINGSIZE" "length (pi_entries s) = MAX_EXTRACTORS"
    using assms(1) by (simp_all add: pr_inv_def)
  have bl: "cstring_of ?buf = ?l"
    using len(1) assms(3) extractor_line_no_NUL by (rule proc_buffer_text)
  let ?s' = "s\<lparr>pktextrprocbuffer := ?buf, pi_entries := (pi_entries s)[?n := ?pe], num_pi_entries := ?n + 1\<rparr>"
  have "add_pktextr ?l 0 s = Inr (int (length ?l), ?s')"
    using assms(2,3) len by (simp add: add_pktextr_def Let_def bl sscanf_extractor_line)
  moreover have "length ?buf = PKTEXTR_STRINGSIZE"
    using len(1) assms(3) by (simp add: copy_from_user_def Let_def)
  ultimately show ?thesis
    using assms(1,2) len(2) by (simp add: pr_inv_def take_Suc_conv_app_nth)
qed

theorem add_pktextr_stores_witness:
  "\<exists>s'. add_pktextr (extractor_line 2 12 4) 0 demo_probes = Inr (7, s')
    \<and> take 1 (pi_entries s') = [\<lparr>pi_service_id = 2, pi_extract_start = 12, pi_num_bytes = 4\<rparr>]"
proof -
  have "num_pi_entries demo_probes < MAX_EXTRACTORS" "length (extractor_line 2 12 4) < PKTEXTR_STRINGSIZE"
    by (simp_all add: demo_probes_inv MAX_EXTRACTORS_def PKTEXTR_STRINGSIZE_def demo_line)
  from add_pktextr_stores [OF demo_probes_inv(1) this] show ?thesis
    by (auto simp: demo_probes_inv demo_line)
qed

text \<open> The length check of \<open>add_pktextr\<close> lets a line of exactly 25 bytes through and then writes
  the terminating NUL behind the 25 bytes of the buffer.
\<close>

theorem add_pktextr_off_by_one:
  assumes "pr_inv s" "num_pi_entries s < MAX_EXTRACTORS" "length user = PKTEXTR_STRINGSIZE"
  shows "add_pktextr user ret s = Inl OutOfBounds"
  using assms by (simp add: add_pktextr_def Let_def pr_inv_def upd_checked_def)

theorem add_pktextr_off_by_one_witness:
  "add_pktextr ''4294967295 4294967295 4\<newline>\<newline>'' 0 demo_probes = Inl OutOfBounds"
  by (rule add_pktextr_off_by_one)
    (simp_all add: demo_probes_inv MAX_EXTRACTORS_def PKTEXTR_STRINGSIZE_def)





text \<open> The identifier of an extractor is never compared with the size of the queue table: once a
  line with an identifier of 100 or more is accepted, an event that names its queue by the head
  reads outside the table.
\<close>

theorem extractor_id_unchecked:
  assumes "pr_inv s" "num_pi_entries s = 0" "MAX_QUEUES \<le> unat (of_nat a :: u32)"
    "length (extractor_line a b c) < PKTEXTR_STRINGSIZE" "pktdata \<noteq> 0" "head \<noteq> 0"
  shows "bind_outcome (add_pktextr (extractor_line a b c) 0 s)
      (\<lambda>(_, s'). probe_sepext_pktqueue env ra mem envs pktdata 0 head op s') = Inl OutOfBounds"
proof -
  let ?l = "extractor_line a b c"
  let ?pe = "\<lparr>pi_service_id = of_nat a, pi_extract_start = of_nat b, pi_num_bytes = of_nat c\<rparr>"
  let ?buf = "copy_from_user ?l 0 ((pktextrprocbuffer s)[length ?l := NUL])"
  have len: "length (pktextrprocbuffer s) = PKTEXTR_STRINGSIZE" "length (pi_entries s) = MAX_EXTRACTORS"
    "length (sem_queues (tr s)) = MAX_QUEUES"
    using assms(1) by (simp_all add: pr_inv_def tr_inv_def tr_wf_def)
  have bl: "cstring_of ?buf = ?l"
    using len(1) assms(4) extractor_line_no_NUL by (rule proc_buffer_text)
  let ?s' = "s\<lparr>pktextrprocbuffer := ?buf, pi_entries := (pi_entries s)[0 := ?pe], num_pi_entries := 1\<rparr>"
  have "add_pktextr ?l 0 s = Inr (int (length ?l), ?s')"
    using assms(2,4) len by (simp add: add_pktextr_def Let_def bl sscanf_extractor_line MAX_EXTRACTORS_def)
  moreover have "take 1 ((pi_entries s)[0 := ?pe]) = [?pe]"
    using len(2) by (cases "pi_entries s") (simp_all add: MAX_EXTRACTORS_def)
  ultimately show ?thesis
    using assms(3,5,6) len(3)
    by (simp add: probe_sepext_pktqueue_def Let_def pktq_step_def nth_checked_out)
qed

theorem extractor_id_unchecked_witness:
  "bind_outcome (add_pktextr (extractor_line 1000 0 4) 0 demo_probes)
      (\<lambda>(_, s'). probe_sepext_pktqueue demo_env 0x8000 (\<lambda>_. 0) (\<lambda>_. demo_env) 0x100 0 0x200
        QUEUE_ENQUEUE s') = Inl OutOfBounds"
  by (rule extractor_id_unchecked [OF demo_probes_inv(1,2)])
    (simp_all add: MAX_QUEUES_def PKTEXTR_STRINGSIZE_def demo_line)

lemma fold_register: "distinct (reg @ xs) \<Longrightarrow> fold (register_trace (\<lambda>_. True)) xs reg = reg @ xs"
  by (induction xs arbitrary: reg) (auto simp: register_trace_def)

lemma fold_unregister: "fold unregister_trace ys reg = filter (\<lambda>x. x \<notin> set ys) reg"
  by (induction ys arbitrary: reg) (auto simp: unregister_trace_def removeAll_filter_not_eq intro: filter_cong)

lemma activated_probes_facts:
  assumes "CONFIG_TRACEPOINTS cfg"
  shows "distinct (activated_probes cfg)"
    "filter (\<lambda>x. x \<notin> set (deactivated_probes cfg)) (activated_probes cfg)
      = [''statecondition'', ''dequeuerq'', ''tempsynch'']"
  unfolding activated_probes_def deactivated_probes_def if_P [OF assms]
  by (cases "CONFIG_MIGRATION cfg"; cases "CONFIG_PKTEXTR cfg"; simp only: if_True if_False; code_simp)+

text \<open> Deactivation does not undo activation: with the tracepoints compiled in and every
  registration successful, exactly the probes of \<open>statecondition\<close>, \<open>dequeuerq\<close> and \<open>tempsynch\<close>
  are still registered after \<open>deactivate_static_probes\<close>.
\<close>

theorem deactivation_incomplete:
  assumes "registered s = []" "CONFIG_TRACEPOINTS cfg"
  shows "registered (deactivate_static_probes cfg (activate_static_probes cfg ok (\<lambda>_. True) s))
    = [''statecondition'', ''dequeuerq'', ''tempsynch'']"
  using assms
  by (simp add: activate_static_probes_def deactivate_static_probes_def fold_register fold_unregister
      activated_probes_facts)

theorem deactivation_incomplete_witness:
  "registered (deactivate_static_probes
      \<lparr>CONFIG_TRACEPOINTS = True, CONFIG_MIGRATION = True, CONFIG_PKTEXTR = False\<rparr>
      (activate_static_probes \<lparr>CONFIG_TRACEPOINTS = True, CONFIG_MIGRATION = True, CONFIG_PKTEXTR = False\<rparr>
        True (\<lambda>_. True) (demo_probes\<lparr>registered := []\<rparr>)))
    = [''statecondition'', ''dequeuerq'', ''tempsynch'']"
  by (rule deactivation_incomplete) simp_all

end
