(* ===== verification/KernelPrint.thy ===== *)
theory KernelPrint
  imports KernelText
begin

text \<open>
  The number formatter \<open>number\<close> of \<open>lib/vsprintf.c\<close>, on which every \<open>printk\<close> and \<open>sprintf\<close> of the
  tracing framework rests, and its relation to the number parser.
\<close>

section \<open>Formats\<close>

abbreviation ZEROPAD :: u8 where "ZEROPAD \<equiv> 1"
abbreviation SIGN :: u8 where "SIGN \<equiv> 2"
abbreviation PLUS :: u8 where "PLUS \<equiv> 4"
abbreviation SPACE :: u8 where "SPACE \<equiv> 8"
abbreviation LEFT :: u8 where "LEFT \<equiv> 16"
abbreviation SMALL :: u8 where "SMALL \<equiv> 32"
abbreviation SPECIAL :: u8 where "SPECIAL \<equiv> 64"

text \<open>
  The members of \<open>struct printf_spec\<close> that \<open>number\<close> reads. The 16-bit width and precision are
  integers here; the formats of the sources stay far from the ends of that range.
\<close>

record printf_spec =
  ps_flags :: u8
  ps_base :: nat
  ps_field_width :: int
  ps_precision :: int

definition flag :: "printf_spec \<Rightarrow> u8 \<Rightarrow> bool" where
  "flag spec f \<longleftrightarrow> ps_flags spec AND f \<noteq> 0"

section \<open>The formatter\<close>

text \<open>The loop for the bases 8 and 16, least significant digit first.\<close>

function radix_digits :: "nat \<Rightarrow> nat \<Rightarrow> nat list" where
  "radix_digits base num =
     num mod base # (if base < 2 \<or> num div base = 0 then [] else radix_digits base (num div base))"
  by pat_completeness auto
termination
proof (relation "measure snd")
  fix base num :: nat
  assume "\<not> (base < 2 \<or> num div base = 0)"
  then have "1 < base" "0 < num" by (auto intro: Nat.gr0I)
  then show "((base, num div base), base, num) \<in> measure snd" by simp
qed simp

declare radix_digits.simps [simp del]

definition radix_char :: "bool \<Rightarrow> nat \<Rightarrow> char" where
  "radix_char locase d = char_of (ord (''0123456789ABCDEF'' ! d) OR (if locase then 0x20 else 0))"

definition number_tmp :: "nat \<Rightarrow> bool \<Rightarrow> nat \<Rightarrow> string" where
  "number_tmp base locase num =
     (if num = 0 then ''0''
      else if base \<noteq> 10 then map (radix_char locase) (radix_digits base num)
      else put_dec num)"

text \<open>A loop \<open>while (--field_width >= 0)\<close>: what it writes, and the width it leaves.\<close>

definition pad_loop :: "char \<Rightarrow> int \<Rightarrow> string \<times> int" where
  "pad_loop c w = (replicate (nat w) c, if 0 \<le> w then - 1 else w - 1)"

definition number_sign :: "u64 \<Rightarrow> printf_spec \<Rightarrow> string" where
  "number_sign num spec =
     (if \<not> flag spec SIGN then []
      else if sint num < 0 then ''-''
      else if flag spec PLUS then ''+''
      else if flag spec SPACE then '' ''
      else [])"

definition number_magnitude :: "u64 \<Rightarrow> printf_spec \<Rightarrow> nat" where
  "number_magnitude num spec = unat (if flag spec SIGN \<and> sint num < 0 then - num else num)"

definition number_prefix :: "printf_spec \<Rightarrow> string" where
  "number_prefix spec =
     (if flag spec SPECIAL \<and> ps_base spec \<noteq> 10
      then CHR ''0'' # (if ps_base spec = 16 then [if flag spec SMALL then CHR ''x'' else CHR ''X''] else [])
      else [])"

definition number :: "u64 \<Rightarrow> printf_spec \<Rightarrow> string" where
  "number num spec =
     (let zeropad = flag spec ZEROPAD \<and> \<not> flag spec LEFT;
          sign = number_sign num spec;
          width1 = ps_field_width spec - int (length sign);
          prefix = number_prefix spec;
          width2 = width1 - int (length prefix);
          tmp = number_tmp (ps_base spec) (flag spec SMALL) (number_magnitude num spec);
          precision = max (int (length tmp)) (ps_precision spec);
          width3 = width2 - precision;
          (lead, width4) = (if \<not> zeropad \<and> \<not> flag spec LEFT then pad_loop CHR '' '' width3 else ([], width3));
          (fill, width5) = (if \<not> flag spec LEFT
                            then pad_loop (if zeropad then CHR ''0'' else CHR '' '') width4
                            else ([], width4));
          zeros = replicate (nat (precision - int (length tmp))) CHR ''0'';
          (trail, _) = pad_loop CHR '' '' width5
      in lead @ sign @ prefix @ fill @ zeros @ rev tmp @ trail)"

text \<open>The formats \<open>%u\<close>, \<open>%d\<close> and \<open>%lx\<close> without width or precision.\<close>

definition spec_u :: printf_spec where
  "spec_u = \<lparr>ps_flags = 0, ps_base = 10, ps_field_width = - 1, ps_precision = - 1\<rparr>"

definition spec_d :: printf_spec where
  "spec_d = \<lparr>ps_flags = SIGN, ps_base = 10, ps_field_width = - 1, ps_precision = - 1\<rparr>"

definition spec_x :: printf_spec where
  "spec_x = \<lparr>ps_flags = SMALL, ps_base = 16, ps_field_width = - 1, ps_precision = - 1\<rparr>"

section \<open>What it prints\<close>

lemma flag_simps [simp]:
  "\<not> flag spec_u f"
  "flag spec_d SIGN" "\<not> flag spec_d SPECIAL" "\<not> flag spec_d SMALL" "\<not> flag spec_d ZEROPAD"
  "\<not> flag spec_d LEFT" "\<not> flag spec_d PLUS" "\<not> flag spec_d SPACE"
  "flag spec_x SMALL" "\<not> flag spec_x SIGN" "\<not> flag spec_x SPECIAL" "\<not> flag spec_x ZEROPAD"
  "\<not> flag spec_x LEFT"
  by (simp_all add: flag_def spec_u_def spec_d_def spec_x_def)

lemma digit_char_0: "digit_char 0 = CHR ''0''"
  by code_simp

lemma put_dec_zero: "put_dec 0 = ''0''"
  by (simp add: put_dec_digits dec_digits_single digit_char_0)

lemma number_tmp_dec [simp]: "number_tmp 10 locase n = put_dec n"
  by (simp add: number_tmp_def put_dec_zero)

lemma put_dec_length [simp]: "length (put_dec n) = length (dec_digits n)"
  by (simp add: put_dec_digits)

lemma dec_digits_length_pos: "0 < length (dec_digits n)"
  using dec_digits_nonempty by simp

lemmas spec_fields = spec_u_def [THEN arg_cong, of ps_base] spec_u_def [THEN arg_cong, of ps_field_width]
  spec_u_def [THEN arg_cong, of ps_precision] spec_d_def [THEN arg_cong, of ps_base]
  spec_d_def [THEN arg_cong, of ps_field_width] spec_d_def [THEN arg_cong, of ps_precision]
  spec_x_def [THEN arg_cong, of ps_base] spec_x_def [THEN arg_cong, of ps_field_width]
  spec_x_def [THEN arg_cong, of ps_precision]

lemmas number_eval = number_def number_sign_def number_prefix_def number_magnitude_def Let_def pad_loop_def
  max_def

lemma number_u: "number n spec_u = dec_string (unat n)"
  using dec_digits_length_pos [of "unat n"]
  by (simp add: number_eval spec_fields dec_string_def)

lemma number_d:
  "number n spec_d = (if sint n < 0 then ''-'' @ dec_string (unat (- n)) else dec_string (unat n))"
  using dec_digits_length_pos [of "unat n"] dec_digits_length_pos [of "unat (- n)"]
  by (simp add: number_eval spec_fields dec_string_def)

lemma radix_digits_nonempty: "radix_digits b n \<noteq> []"
  by (subst radix_digits.simps) simp

lemma radix_digits_bound: "0 < b \<Longrightarrow> d \<in> set (radix_digits b n) \<Longrightarrow> d < b"
  by (induction b n rule: radix_digits.induct)
    (subst (asm) (2) radix_digits.simps, auto split: if_splits)

lemma radix_digits_value: "1 < b \<Longrightarrow> foldr (\<lambda>d v. d + b * v) (radix_digits b n) 0 = n"
proof (induction b n rule: radix_digits.induct)
  case (1 b n)
  then show ?case
    using mult_div_mod_eq [of b n] by (cases "n div b = 0") (simp_all add: radix_digits.simps [of b n])
qed

definition hex_string :: "nat \<Rightarrow> string" where
  "hex_string n = map (radix_char True) (rev (radix_digits 16 n))"

lemma radix_char_class:
  assumes "d < 16"
  shows "isxdigit (radix_char True d)" "digit_value (radix_char True d) = d"
    "TOLOWER (radix_char True d) \<noteq> 120"
proof -
  have "d \<in> {0, 1, 2, 3, 4, 5, 6, 7, 8, 9, 10, 11, 12, 13, 14, 15}" using assms by (simp, arith)
  then show "isxdigit (radix_char True d)" "digit_value (radix_char True d) = d"
    "TOLOWER (radix_char True d) \<noteq> 120"
    by (elim insertE emptyE; simp; code_simp)+
qed

lemma number_tmp_hex: "number_tmp 16 True n = map (radix_char True) (radix_digits 16 n)"
proof (cases "n = 0")
  case True
  have "radix_char True 0 = CHR ''0''" by code_simp
  with True show ?thesis by (simp add: number_tmp_def radix_digits.simps [of 16 0])
qed (simp add: number_tmp_def)

lemma number_x: "number n spec_x = hex_string (unat n)"
proof -
  have "0 < length (radix_digits 16 (unat n))" using radix_digits_nonempty by simp
  then show ?thesis
    by (simp add: number_eval spec_fields hex_string_def number_tmp_hex rev_map)
qed

lemma strtoull_loop_chars:
  assumes "\<forall>d\<in>set ds. isxdigit (f d) \<and> digit_value (f d) = d \<and> d < base" "ends_number rest"
  shows "strtoull_loop base (of_nat acc) (map f ds @ rest)
    = (of_nat (foldl (\<lambda>v d. d + base * v) acc ds), rest)"
  using assms(1)
proof (induction ds arbitrary: acc)
  case Nil
  then show ?case using assms(2) by (simp add: strtoull_loop_end)
next
  case (Cons d ds)
  then show ?case using Cons.IH [of "d + base * acc"] by (simp add: algebra_simps)
qed

lemma strtoull_loop_hex_string:
  assumes "ends_number rest"
  shows "strtoull_loop 16 0 (hex_string n @ rest) = (of_nat n, rest)"
  using strtoull_loop_chars [of "rev (radix_digits 16 n)" "radix_char True" 16 rest 0] assms
    radix_digits_bound [of 16 _ n] radix_char_class
  by (simp add: hex_string_def foldl_conv_foldr radix_digits_value)

lemma hex_string_second: "TOLOWER (hdc (tl (hex_string n))) \<noteq> ord CHR ''x''"
proof (cases "tl (hex_string n)")
  case Nil
  have "TOLOWER NUL \<noteq> ord CHR ''x''" by code_simp
  with Nil show ?thesis by (simp add: hdc_def)
next
  case (Cons c cs)
  then have "c \<in> set (hex_string n)" by (metis list.set_intros(1) list.set_sel(2) list.sel(2))
  then obtain d where "d < 16" "c = radix_char True d"
    using radix_digits_bound [of 16 _ n] by (auto simp: hex_string_def)
  moreover have "ord CHR ''x'' = 120" by code_simp
  ultimately show ?thesis using Cons radix_char_class(3) by (simp add: hdc_def)
qed

lemma simple_strtoull_hex_string: "simple_strtoull (hex_string n) 16 = (of_nat n, [])"
  using strtoull_loop_hex_string [of "[]" n] hex_string_second [of n]
  by (simp add: simple_strtoull_def)

section \<open>Properties\<close>

text \<open>
  (C21) Printing and parsing a number are inverse: every 64-bit value printed in decimal, in signed
  decimal or in hexadecimal is read back unchanged, to the end of the text.
\<close>

theorem number_roundtrip:
  "simple_strtoull (number n spec_u) 10 = (n, []) \<and> simple_strtoll (number n spec_d) 10 = (n, [])
    \<and> simple_strtoull (number n spec_x) 16 = (n, [])"
proof (intro conjI)
  show "simple_strtoull (number n spec_u) 10 = (n, [])"
    using simple_strtoull_dec_string [of "[]" "unat n"] by (simp add: number_u)
  show "simple_strtoull (number n spec_x) 16 = (n, [])"
    by (simp add: number_x simple_strtoull_hex_string)
  have "hdc (dec_string (unat n)) \<noteq> CHR ''-''"
    by (rule dec_string_Cons [of "unat n"]) (simp add: hdc_def)
  then show "simple_strtoll (number n spec_d) 10 = (n, [])"
    using simple_strtoull_dec_string [of "[]" "unat n"] simple_strtoull_dec_string [of "[]" "unat (- n)"]
    by (simp add: number_d simple_strtoll_def hdc_def)
qed

text \<open>
  (C22) The decimal printer, which divides by ten with multiplications and shifts, five digits at
  a time, produces exactly the decimal digits of its argument, least significant first.
\<close>

theorem put_dec_correct:
  "put_dec n = map digit_char (dec_digits n) \<and> foldr (\<lambda>d v. d + 10 * v) (dec_digits n) 0 = n"
  by (simp add: put_dec_digits dec_digits_value)

text \<open>
  The field width: the output has the requested width, or the length of sign, prefix and
  digits (at least as many as the precision asks for) if that is longer, for every combination of
  flags and both paddings.
\<close>

theorem number_width:
  "int (length (number num spec)) = max (ps_field_width spec)
    (int (length (number_sign num spec)) + int (length (number_prefix spec))
     + max (ps_precision spec)
         (int (length (number_tmp (ps_base spec) (flag spec SMALL) (number_magnitude num spec)))))"
  unfolding number_def Let_def pad_loop_def by (auto simp: max_def number_prefix_def)

end
