(* ===== verification/SepModule.thy ===== *)
theory SepModule
  imports SepProbes KernelPrint
begin

text \<open>
  The rest of the tracing module: dynamic probes (\<open>dynamic.c\<close>), the symbol lookup file (\<open>st.c\<close>),
  and loading and unloading (\<open>sepext.c\<close>), all in \<open>kernel/trace/sepextracttracer/\<close>.
\<close>

section \<open>Dynamic probes\<close>

definition MAX_PROBES :: nat where
  "MAX_PROBES = 100"

text \<open>
  A slot holds the address of the return probe and the address and entry of the jprobe; the two
  flags say whether the kernel has them registered.
\<close>

record kprobeEntry =
  rp_addr :: addr
  rp_on :: bool
  jp_addr :: addr
  jp_entry :: addr
  jp_on :: bool

definition kprobe_zero :: kprobeEntry where
  "kprobe_zero = \<lparr>rp_addr = 0, rp_on = False, jp_addr = 0, jp_entry = 0, jp_on = False\<rparr>"

definition PROCFS_SIZE :: nat where
  "PROCFS_SIZE = 10 * 2 + 1 + 1"

record dynprobes =
  kprobes :: "kprobeEntry list"
  lastprobe :: nat
  procfsbuffer :: string
  has_dynproc :: bool

definition entryhandler :: "sysenv \<Rightarrow> addr \<Rightarrow> addr \<Rightarrow> probes \<Rightarrow> int \<times> probes outcome" where
  "entryhandler env ret_addr kp_addr s =
     (0, record_call env (targs ret_addr SERVICEENTRY 0 0 0 kp_addr) s)"

definition returnhandler :: "sysenv \<Rightarrow> addr \<Rightarrow> addr \<Rightarrow> probes \<Rightarrow> int \<times> probes outcome" where
  "returnhandler env ret_addr kp_addr s =
     (0, record_call env (targs ret_addr SERVICEEXIT 0 0 0 kp_addr) s)"

text \<open>
  Unregistering takes the probe off; if the kernel does not know it, it clears the address instead.
\<close>

definition unregister_kretprobe :: "kprobeEntry \<Rightarrow> kprobeEntry" where
  "unregister_kretprobe k = (if rp_on k then k\<lparr>rp_on := False\<rparr> else k\<lparr>rp_addr := 0\<rparr>)"

definition unregister_jprobe :: "kprobeEntry \<Rightarrow> kprobeEntry" where
  "unregister_jprobe k = (if jp_on k then k\<lparr>jp_on := False\<rparr> else k\<lparr>jp_addr := 0\<rparr>)"

text \<open>
  What the kernel's registration functions return for an address; 0 is success, a negative number
  an error. \<open>add_probe\<close> keeps the result in an \<open>unsigned int\<close>, and compares that with 0.
\<close>

record kprobe_env =
  reg_kretprobe :: "addr \<Rightarrow> int"
  reg_jprobe :: "addr \<Rightarrow> int"

definition install_probe :: "kprobe_env \<Rightarrow> addr \<Rightarrow> addr \<Rightarrow> nat \<Rightarrow> dynprobes \<Rightarrow> (int \<times> dynprobes) outcome" where
  "install_probe ke address pktidaddress count s =
     (if lastprobe s < MAX_PROBES - 1 then
        bind_outcome (nth_checked (kprobes s) (lastprobe s)) (\<lambda>k.
          let ret = (of_int (reg_kretprobe ke address) :: u32);
              k1 = k\<lparr>rp_addr := address, rp_on := (reg_kretprobe ke address = 0)\<rparr>
          in
          if ret < 0 then
            Inr (- 1, s\<lparr>kprobes := (kprobes s)[lastprobe s := unregister_kretprobe k1]\<rparr>)
          else if pktidaddress \<noteq> 0 then
            (let ret2 = (of_int (reg_jprobe ke address) :: u32);
                 k2 = k1\<lparr>jp_entry := pktidaddress, jp_addr := address, jp_on := (reg_jprobe ke address = 0)\<rparr>
             in
             if ret2 < 0 then
               Inr (- 1, s\<lparr>kprobes := (kprobes s)[lastprobe s := unregister_jprobe k2]\<rparr>)
             else Inr (int count, s\<lparr>kprobes := (kprobes s)[lastprobe s := k2], lastprobe := lastprobe s + 1\<rparr>))
          else Inr (int count, s\<lparr>kprobes := (kprobes s)[lastprobe s := k1], lastprobe := lastprobe s + 1\<rparr>))
      else Inr (- 1, s))"

definition add_probe :: "kprobe_env \<Rightarrow> string \<Rightarrow> nat \<Rightarrow> dynprobes \<Rightarrow> (int \<times> dynprobes) outcome" where
  "add_probe ke user ret s =
     (let count = length user in
      if count > PROCFS_SIZE then Inr (- 1, s)
      else
        bind_outcome (upd_checked (procfsbuffer s) count NUL) (\<lambda>buf.
          let buf' = copy_from_user user ret buf;
              s1 = s\<lparr>procfsbuffer := buf'\<rparr>
          in
          if ret \<noteq> 0 then Inr (- 1, s1)
          else
            let vs = snd (sscanf (cstring_of buf') ''%x %x'');
                address = (case vs of V32 a # _ \<Rightarrow> a | _ \<Rightarrow> 0);
                pktidaddress = (case vs of _ # V32 p # _ \<Rightarrow> p | _ \<Rightarrow> 0)
            in if address = 0 then Inr (- 1, s1) else install_probe ke address pktidaddress count s1))"

definition read_probes :: "int \<times> bool" where
  "read_probes = (0, True)"

definition initialize_dynamic_probing :: "bool \<Rightarrow> dynprobes \<Rightarrow> dynprobes" where
  "initialize_dynamic_probing proc_ok s =
     s\<lparr>kprobes := replicate MAX_PROBES kprobe_zero, lastprobe := 0, has_dynproc := proc_ok\<rparr>"

definition remove_probe :: "kprobeEntry \<Rightarrow> kprobeEntry" where
  "remove_probe k =
     (let k1 = (if rp_addr k \<noteq> 0 then unregister_kretprobe k else k)
      in if jp_addr k1 \<noteq> 0 then unregister_jprobe k1 else k1)"

definition cleanup_probe_at :: "nat \<Rightarrow> dynprobes \<Rightarrow> dynprobes outcome" where
  "cleanup_probe_at i s =
     bind_outcome (nth_checked (kprobes s) i)
       (\<lambda>k. Inr (s\<lparr>kprobes := (kprobes s)[i := remove_probe k]\<rparr>))"

definition cleanup_dynamic_probing :: "dynprobes \<Rightarrow> dynprobes outcome" where
  "cleanup_dynamic_probing s =
     fold_outcome cleanup_probe_at [0 ..< Suc (lastprobe s)] (s\<lparr>has_dynproc := False\<rparr>)"

section \<open>Symbol lookup\<close>

datatype st_type = ADDRESS | SYMBOL | STERROR

record symtab =
  stsymbuffer :: string
  st_address :: u32
  st_kind :: st_type
  has_stproc :: bool

definition ST_STRINGSIZE :: nat where
  "ST_STRINGSIZE = 255"

text \<open>
  The last byte is looked up at \<open>count - 1\<close>, computed in 32 bits. The scanned address is only
  stored when the conversion succeeds.
\<close>

definition set_address :: "string \<Rightarrow> nat \<Rightarrow> symtab \<Rightarrow> (int \<times> symtab) outcome" where
  "set_address user ret s =
     (let count = length user in
      if count > ST_STRINGSIZE then Inr (- 1, s\<lparr>st_kind := STERROR\<rparr>)
      else
        bind_outcome (upd_checked (stsymbuffer s) count NUL) (\<lambda>b0.
          let b1 = copy_from_user user ret b0;
              s1 = s\<lparr>stsymbuffer := b1\<rparr>;
              i = unat (of_nat count - 1 :: u32)
          in
          if ret \<noteq> 0 then Inr (- 1, s1\<lparr>st_kind := STERROR\<rparr>)
          else
            bind_outcome (nth_checked b1 i) (\<lambda>c.
              let b2 = (if c = CHR ''\<newline>'' then b1[i := NUL] else b1);
                  s2 = s1\<lparr>stsymbuffer := b2\<rparr>
              in
              if b2 ! 0 = CHR ''0'' \<and> b2 ! 1 = CHR ''x'' then
                (let addr = (case snd (sscanf (cstring_of b2) ''0x%lx'') of V32 a # _ \<Rightarrow> a | _ \<Rightarrow> st_address s2);
                     s3 = s2\<lparr>st_kind := ADDRESS, st_address := addr\<rparr>
                 in if addr = 0 then Inr (- 1, s3\<lparr>st_kind := STERROR\<rparr>) else Inr (int count, s3))
              else Inr (int count, s2\<lparr>st_kind := SYMBOL\<rparr>))))"

text \<open>
  \<open>read_symbol\<close> gives the text it writes into the page, the length it returns and whether it
  signals the end of the file. The kernel's symbol table is a parameter.
\<close>

definition read_symbol ::
  "(u32 \<Rightarrow> string) \<Rightarrow> (cstr \<Rightarrow> u32) \<Rightarrow> int \<Rightarrow> int \<Rightarrow> symtab \<Rightarrow> (string \<times> int \<times> bool) \<times> symtab" where
  "read_symbol sprint_symbol kallsyms_lookup_name offset count s =
     (if offset > 0 then (([], 0, False), s)
      else
        let (out, s1) =
              (case st_kind s of
                 ADDRESS \<Rightarrow> (sprint_symbol (st_address s), s)
               | SYMBOL \<Rightarrow>
                   (let a = kallsyms_lookup_name (cstring_of (stsymbuffer s))
                    in (number (ucast a) spec_x, s\<lparr>st_address := a\<rparr>))
               | STERROR \<Rightarrow> (''0'', s));
            len = int (length out);
            eof = (len \<le> count + offset);
            len1 = len - offset;
            len2 = (if len1 > count then count else len1);
            len3 = (if len2 < 0 then 0 else len2)
        in ((out, len3, eof), s1))"

definition initialize_st :: "bool \<Rightarrow> symtab \<Rightarrow> symtab" where
  "initialize_st proc_ok s = s\<lparr>has_stproc := proc_ok\<rparr>"

definition cleanup_st :: "symtab \<Rightarrow> symtab" where
  "cleanup_st s = s\<lparr>has_stproc := False\<rparr>"

section \<open>Loading and unloading\<close>

record sepmodule =
  mod_probes :: probes
  mod_dyn :: dynprobes
  mod_st :: symtab

record module_env =
  me_init :: init_env
  me_config :: sepext_config
  me_proc :: "string \<Rightarrow> bool"
  me_register :: "string \<Rightarrow> bool"

definition sepext_init_module :: "module_env \<Rightarrow> u32 \<Rightarrow> sepmodule \<Rightarrow> int \<times> sepmodule" where
  "sepext_init_module me numentries m =
     (case initialize_tracer (me_init me) numentries (tr (mod_probes m)) of (r, t) \<Rightarrow>
        let p1 = (mod_probes m)\<lparr>tr := t\<rparr> in
        if r \<noteq> 0 then (- 10, m\<lparr>mod_probes := p1\<rparr>)
        else
          let p2 = activate_static_probes (me_config me) (me_proc me ''pktextr'') (me_register me) p1;
              d = initialize_dynamic_probing (me_proc me ''dynprobes'') (mod_dyn m);
              st = initialize_st (me_proc me ''st'') (mod_st m)
          in (0, m\<lparr>mod_probes := p2, mod_dyn := d, mod_st := st\<rparr>))"

definition cleanup_module :: "module_env \<Rightarrow> sysenv \<Rightarrow> sepmodule \<Rightarrow> sepmodule outcome" where
  "cleanup_module me env m =
     bind_outcome (cleanup_dynamic_probing (mod_dyn m)) (\<lambda>d.
       let p1 = deactivate_static_probes (me_config me) (mod_probes m) in
       bind_outcome (cleanup_tracer env (tr p1)) (\<lambda>t.
         Inr (m\<lparr>mod_dyn := d, mod_probes := p1\<lparr>tr := t\<rparr>, mod_st := cleanup_st (mod_st m)\<rparr>)))"

text \<open>The module as the kernel loads it: all globals in their initial state.\<close>

definition module_boot :: sepmodule where
  "module_boot =
     \<lparr>mod_probes = \<lparr>tr = tracer_boot,
        pi_entries = replicate MAX_EXTRACTORS \<lparr>pi_service_id = 0, pi_extract_start = 0, pi_num_bytes = 0\<rparr>,
        num_pi_entries = 0, doStackTrace = 0, pktextrprocbuffer = replicate PKTEXTR_STRINGSIZE NUL,
        registered = [], has_pktextr = False\<rparr>,
      mod_dyn = \<lparr>kprobes = replicate MAX_PROBES kprobe_zero, lastprobe = 0,
        procfsbuffer = replicate PROCFS_SIZE NUL, has_dynproc = False\<rparr>,
      mod_st = \<lparr>stsymbuffer = replicate (ST_STRINGSIZE * 2 + 1 + 1) NUL, st_address = 0,
        st_kind = ADDRESS, has_stproc = False\<rparr>\<rparr>"

section \<open>Dynamic probes stay within their table\<close>

definition kprobe_ok :: "kprobeEntry \<Rightarrow> bool" where
  "kprobe_ok k \<longleftrightarrow> (rp_on k \<longrightarrow> rp_addr k \<noteq> 0) \<and> (jp_on k \<longrightarrow> jp_addr k \<noteq> 0)"

definition dyn_inv :: "dynprobes \<Rightarrow> bool" where
  "dyn_inv s \<longleftrightarrow> length (kprobes s) = MAX_PROBES \<and> lastprobe s < MAX_PROBES
     \<and> length (procfsbuffer s) = PROCFS_SIZE
     \<and> (\<forall>i < MAX_PROBES. kprobe_ok (kprobes s ! i) \<and> (lastprobe s \<le> i \<longrightarrow> kprobes s ! i = kprobe_zero))"

lemma kprobe_zero_ok [simp]: "kprobe_ok kprobe_zero"
  by (simp add: kprobe_ok_def kprobe_zero_def)

lemma initialize_dynamic_inv:
  "length (procfsbuffer s) = PROCFS_SIZE \<Longrightarrow> dyn_inv (initialize_dynamic_probing ok s)"
  by (simp add: initialize_dynamic_probing_def dyn_inv_def MAX_PROBES_def)

lemma dyn_inv_extend:
  assumes "dyn_inv s" "lastprobe s < MAX_PROBES - 1" "kprobe_ok k"
  shows "dyn_inv (s\<lparr>kprobes := (kprobes s)[lastprobe s := k], lastprobe := Suc (lastprobe s)\<rparr>)"
  using assms by (auto simp: dyn_inv_def nth_list_update)

lemma install_probe_inv:
  assumes "dyn_inv s" "address \<noteq> 0"
  shows "\<exists>r s'. install_probe ke address pktid count s = Inr (r, s') \<and> dyn_inv s'"
proof (cases "lastprobe s < MAX_PROBES - 1")
  case True
  then have k: "lastprobe s < length (kprobes s)" "kprobes s ! lastprobe s = kprobe_zero"
    using assms(1) by (auto simp: dyn_inv_def)
  have e: "dyn_inv (s\<lparr>kprobes := (kprobes s)[lastprobe s := k], lastprobe := Suc (lastprobe s)\<rparr>)"
    if "kprobe_ok k" for k
    using dyn_inv_extend [OF assms(1) True that] .
  show ?thesis
    using True k assms(2)
    by (auto simp: install_probe_def Let_def kprobe_zero_def kprobe_ok_def intro!: e)
next
  case False
  then show ?thesis using assms(1) by (simp add: install_probe_def)
qed

lemma dyn_inv_buffer:
  "dyn_inv s \<Longrightarrow> length b = PROCFS_SIZE \<Longrightarrow> dyn_inv (s\<lparr>procfsbuffer := b\<rparr>)"
  by (simp add: dyn_inv_def)

lemma length_copy_from_user:
  "length user \<le> length buf \<Longrightarrow> length (copy_from_user user ret buf) = length buf"
  by (auto simp: copy_from_user_def Let_def min_def)

lemma add_probe_inv:
  assumes "dyn_inv s" "length user \<noteq> PROCFS_SIZE"
  shows "\<exists>r s'. add_probe ke user ret s = Inr (r, s') \<and> dyn_inv s'"
proof (cases "length user > PROCFS_SIZE")
  case True
  then show ?thesis using assms(1) by (simp add: add_probe_def)
next
  case False
  with assms have l: "length user < PROCFS_SIZE" "length (procfsbuffer s) = PROCFS_SIZE"
    by (simp_all add: dyn_inv_def)
  let ?buf = "copy_from_user user ret ((procfsbuffer s)[length user := NUL])"
  have i: "dyn_inv (s\<lparr>procfsbuffer := ?buf\<rparr>)"
    using l by (intro dyn_inv_buffer assms(1)) (simp add: length_copy_from_user)
  show ?thesis
    using l i install_probe_inv [OF i] by (auto simp: add_probe_def Let_def)
qed

text \<open>Removing the slots one after the other takes every probe off.\<close>

lemma remove_probe_off: "kprobe_ok k \<Longrightarrow> \<not> rp_on (remove_probe k) \<and> \<not> jp_on (remove_probe k)"
  by (auto simp: remove_probe_def kprobe_ok_def Let_def unregister_kretprobe_def unregister_jprobe_def)

lemma cleanup_loop:
  assumes "n \<le> length (kprobes s)"
  shows "fold_outcome cleanup_probe_at [0..<n] s =
    Inr (s\<lparr>kprobes := map remove_probe (take n (kprobes s)) @ drop n (kprobes s)\<rparr>)"
  using assms
proof (induction n)
  case (Suc n)
  let ?ks = "map remove_probe (take n (kprobes s)) @ drop n (kprobes s)"
  have "?ks ! n = kprobes s ! n" "length ?ks = length (kprobes s)"
    using Suc.prems by (simp_all add: nth_append)
  moreover have "?ks[n := remove_probe (kprobes s ! n)]
      = map remove_probe (take (Suc n) (kprobes s)) @ drop (Suc n) (kprobes s)"
    using Suc.prems by (simp add: take_Suc_conv_app_nth list_update_append Cons_nth_drop_Suc [symmetric])
  ultimately show ?case
    using Suc by (simp add: fold_outcome_append cleanup_probe_at_def del: fold_outcome.simps(2))
      (simp add: cleanup_probe_at_def)
qed simp

lemma dyn_inv_slots:
  assumes "dyn_inv s"
  shows "k \<in> set (kprobes s) \<Longrightarrow> kprobe_ok k"
    "k \<in> set (drop (Suc (lastprobe s)) (kprobes s)) \<Longrightarrow> \<not> rp_on k \<and> \<not> jp_on k"
proof -
  show "kprobe_ok k" if "k \<in> set (kprobes s)"
    using that assms by (auto simp: dyn_inv_def in_set_conv_nth)
  show "\<not> rp_on k \<and> \<not> jp_on k" if "k \<in> set (drop (Suc (lastprobe s)) (kprobes s))"
    using that assms by (auto simp: dyn_inv_def in_set_conv_nth kprobe_zero_def)
qed

lemma cleanup_dynamic_off:
  assumes "dyn_inv s"
  shows "\<exists>s'. cleanup_dynamic_probing s = Inr s' \<and> (\<forall>k\<in>set (kprobes s'). \<not> rp_on k \<and> \<not> jp_on k)"
proof -
  let ?n = "Suc (lastprobe s)"
  have n: "?n \<le> length (kprobes s)" using assms by (simp add: dyn_inv_def)
  let ?ks = "map remove_probe (take ?n (kprobes s)) @ drop ?n (kprobes s)"
  have "\<not> rp_on k \<and> \<not> jp_on k" if "k \<in> set ?ks" for k
    using that dyn_inv_slots [OF assms] remove_probe_off
    by (auto dest: in_set_takeD)
  moreover have "cleanup_dynamic_probing s = Inr (s\<lparr>has_dynproc := False, kprobes := ?ks\<rparr>)"
    using cleanup_loop [of ?n "s\<lparr>has_dynproc := False\<rparr>"] n
    by (simp add: cleanup_dynamic_probing_def del: upt_Suc)
  ultimately show ?thesis by auto
qed

text \<open>A sequence of writes to the proc file.\<close>

definition write_probe :: "kprobe_env \<Rightarrow> string \<times> nat \<Rightarrow> dynprobes \<Rightarrow> dynprobes outcome" where
  "write_probe ke w s = bind_outcome (add_probe ke (fst w) (snd w) s) (\<lambda>(r, s'). Inr s')"

lemma write_probes_inv:
  assumes "dyn_inv s" "\<forall>w\<in>set ws. length (fst w) \<noteq> PROCFS_SIZE"
  shows "\<exists>s'. fold_outcome (write_probe ke) ws s = Inr s' \<and> dyn_inv s'"
  using assms
proof (induction ws arbitrary: s)
  case (Cons w ws)
  then obtain r s1 where "add_probe ke (fst w) (snd w) s = Inr (r, s1)" "dyn_inv s1"
    using add_probe_inv [of s "fst w" ke "snd w"] by auto
  with Cons show ?case by (simp add: write_probe_def)
qed simp

section \<open>Scanning an address\<close>

lemma scan_lx:
  "scan_width (CHR ''l'' # fmt) = (- 1, CHR ''l'' # fmt)"
  "scan_qualifier ''lx'' = (Some CHR ''l'', ''x'')"
  "scan_conv CHR ''x'' = Some (16, False)"
proof -
  have "\<not> isdigit CHR ''l''" by code_simp
  then show "scan_width (CHR ''l'' # fmt) = (- 1, CHR ''l'' # fmt)"
    by (simp add: scan_width_def hdc_def)
  show "scan_qualifier ''lx'' = (Some CHR ''l'', ''x'')" by code_simp
  show "scan_conv CHR ''x'' = Some (16, False)" by code_simp
qed

lemma hex_string_Cons:
  obtains c cs where "hex_string n = c # cs" "isxdigit c" "\<not> isspace c" "c \<noteq> NUL"
proof -
  obtain d ds where d: "rev (radix_digits 16 n) = d # ds"
    using radix_digits_nonempty [of 16 n] by (cases "rev (radix_digits 16 n)") auto
  then have "d \<in> set (radix_digits 16 n)" by (metis list.set_intros(1) set_rev)
  then have "d < 16" by (rule radix_digits_bound [rotated]) simp
  then have "d \<in> {0, 1, 2, 3, 4, 5, 6, 7, 8, 9, 10, 11, 12, 13, 14, 15}" by (simp, arith)
  then have "\<not> isspace (radix_char True d)" "radix_char True d \<noteq> NUL"
    by (elim insertE emptyE; simp; code_simp)+
  with d show thesis
    using that radix_char_class(1) [OF \<open>d < 16\<close>] by (simp add: hex_string_def)
qed

lemma skip_spaces_hex: "skip_spaces (hex_string n) = hex_string n"
  by (rule hex_string_Cons [of n]) simp

lemma scan_digit_ok_hex: "scan_digit_ok 16 False (hex_string n)"
  by (rule hex_string_Cons [of n]) (simp add: scan_digit_ok_def hdc_def)

lemma scan_int_hex: "scan_int (Some CHR ''l'') False 16 (hex_string n) = (V32 (of_nat n), [])"
  by (simp add: scan_int_def scan_long_def simple_strtoul_def simple_strtoull_hex_string ucast_of_nat_64)

lemma vsscanf_loop_literal:
  assumes "c \<noteq> CHR ''%''" "\<not> isspace c"
  shows "vsscanf_loop buf num outs (c # fmt) (c # str) = vsscanf_loop buf num outs fmt str"
  using assms by (subst vsscanf_loop.simps) (simp add: hdc_def)

lemma vsscanf_loop_lx:
  "vsscanf_loop buf num outs ''%lx'' (hex_string n) = (num + 1, outs @ [V32 (of_nat n)])"
proof -
  have "hex_string n \<noteq> []" by (rule hex_string_Cons [of n]) simp
  then show ?thesis
    by (subst vsscanf_loop.simps)
      (simp add: hdc_def scan_lx skip_spaces_hex scan_digit_ok_hex scan_int_hex vsscanf_loop_Nil)
qed

lemma sscanf_hex: "sscanf (''0x'' @ hex_string n) ''0x%lx'' = (1, [V32 (of_nat n)])"
proof -
  have "\<not> isspace CHR ''0''" "\<not> isspace CHR ''x''" by code_simp+
  then show ?thesis by (simp add: sscanf_def vsscanf_loop_literal vsscanf_loop_lx)
qed

lemma hex_string_no_NUL: "NUL \<notin> set (hex_string n)" "CHR ''\<newline>'' \<notin> set (hex_string n)"
proof -
  have "c \<noteq> NUL \<and> c \<noteq> CHR ''\<newline>''" if c: "c \<in> set (hex_string n)" for c
  proof -
    obtain d where "d < 16" "c = radix_char True d"
      using c radix_digits_bound [of 16 _ n] by (auto simp: hex_string_def)
    then have "isxdigit c" using radix_char_class(1) by simp
    moreover have "\<not> isxdigit NUL" by code_simp
    ultimately show ?thesis using isxdigit_lits(2) by blast
  qed
  then show "NUL \<notin> set (hex_string n)" "CHR ''\<newline>'' \<notin> set (hex_string n)" by blast+
qed

lemma length_radix_digits: "0 < k \<Longrightarrow> n < 16 ^ k \<Longrightarrow> length (radix_digits 16 n) \<le> k"
proof (induction k arbitrary: n)
  case (Suc k)
  show ?case
  proof (cases "n div 16 = 0")
    case True
    then show ?thesis by (simp add: radix_digits.simps [of 16 n])
  next
    case False
    then have "n div 16 < 16 ^ k" "0 < k"
      using Suc.prems(2) by (simp_all add: less_mult_imp_div_less mult.commute) (cases k; auto)
    then show ?thesis using Suc.IH [of "n div 16"] False by (simp add: radix_digits.simps [of 16 n])
  qed
qed simp

lemma set_address_line:
  assumes buf: "length (stsymbuffer s) = ST_STRINGSIZE * 2 + 1 + 1" and h: "length h < ST_STRINGSIZE"
    and hd: "h ! 0 = CHR ''0''" "h ! 1 = CHR ''x''" "2 \<le> length h"
    and scan: "sscanf h ''0x%lx'' = (1, [V32 a])" "a \<noteq> 0" "NUL \<notin> set h"
  shows "\<exists>b. set_address (h @ ''\<newline>'') 0 s = Inr (int (length h + 1),
    s\<lparr>stsymbuffer := b, st_kind := ADDRESS, st_address := a\<rparr>)"
proof -
  let ?n = "length h"
  define rest where "rest = drop (?n + 1) ((stsymbuffer s)[?n + 1 := NUL])"
  have len: "length (h @ ''\<newline>'') = ?n + 1" by simp
  have c: "\<not> ST_STRINGSIZE < ?n + 1" "?n + 1 < length (stsymbuffer s)" using h buf by simp_all
  have b1: "copy_from_user (h @ ''\<newline>'') 0 ((stsymbuffer s)[?n + 1 := NUL]) = h @ CHR ''\<newline>'' # rest"
    by (simp add: copy_from_user_def Let_def rest_def)
  have i: "unat (of_nat (?n + 1) - 1 :: u32) = ?n"
    using h by (simp add: ST_STRINGSIZE_def unat_of_nat)
  have n1: "nth_checked (h @ CHR ''\<newline>'' # rest) ?n = Inr CHR ''\<newline>''" by (simp add: nth_checked_def)
  have b2: "(h @ CHR ''\<newline>'' # rest)[?n := NUL] = h @ NUL # rest" by simp
  have h2: "(h @ NUL # rest) ! 0 = CHR ''0''" "(h @ NUL # rest) ! 1 = CHR ''x''"
    using hd by (auto simp: nth_append)
  have "set_address (h @ ''\<newline>'') 0 s = Inr (int (?n + 1),
    s\<lparr>stsymbuffer := h @ NUL # rest, st_kind := ADDRESS, st_address := a\<rparr>)"
    unfolding set_address_def Let_def len b1 i upd_checked_in [OF c(2)] bind_outcome_Inr if_not_P [OF c(1)]
      n1 if_P [OF refl] b2 h2
    using scan cstring_of_text [OF scan(3), of rest] by simp
  then show ?thesis by blast
qed

section \<open>Properties\<close>


definition demo_kenv :: kprobe_env where
  "demo_kenv = \<lparr>reg_kretprobe = (\<lambda>a. if a = 0x8000 then 0 else - 22), reg_jprobe = (\<lambda>_. 0)\<rparr>"


text \<open> The result of a registration is kept in an unsigned variable, so no error is ever seen: a
  probe that the kernel refuses is counted and reported as installed.
\<close>

theorem install_probe_ignores_errors:
  assumes "dyn_inv s" "lastprobe s < MAX_PROBES - 1" "reg_kretprobe ke address \<noteq> 0"
  shows "\<exists>s'. install_probe ke address 0 count s = Inr (int count, s')
    \<and> lastprobe s' = lastprobe s + 1 \<and> \<not> rp_on (kprobes s' ! lastprobe s)"
  using assms by (auto simp: install_probe_def dyn_inv_def Let_def)

theorem install_probe_ignores_errors_witness:
  "\<exists>s'. install_probe demo_kenv 0x7000 0 5 (initialize_dynamic_probing True (mod_dyn module_boot))
      = Inr (5, s') \<and> lastprobe s' = 1"
proof -
  let ?s = "initialize_dynamic_probing True (mod_dyn module_boot)"
  have "dyn_inv ?s" by (rule initialize_dynamic_inv) (simp add: module_boot_def)
  moreover have "lastprobe ?s = 0" by (simp add: initialize_dynamic_probing_def)
  ultimately show ?thesis
    using install_probe_ignores_errors [of ?s demo_kenv "0x7000" 5]
    by (auto simp: MAX_PROBES_def demo_kenv_def)
qed

text \<open>
  The symbol file: an address written as \<open>0x\<close> and its hexadecimal digits in lower case,
  with a newline, is stored, and reading the file gives the kernel's name for it.
\<close>

theorem st_address_lookup:
  assumes "length (stsymbuffer s) = ST_STRINGSIZE * 2 + 1 + 1" "0 < n" "n < 2 ^ 32"
  shows "\<exists>s'. set_address (''0x'' @ hex_string n @ ''\<newline>'') 0 s
        = Inr (int (length (''0x'' @ hex_string n @ ''\<newline>'')), s')
    \<and> st_address s' = of_nat n
    \<and> fst (fst (read_symbol sprint_symbol lookup 0 count s')) = sprint_symbol (of_nat n)"
proof -
  let ?k = "length (hex_string n)"
  have k: "?k \<le> 8" using length_radix_digits [of 8 n] assms(3) by (simp add: hex_string_def)
  have nz: "(of_nat n :: u32) \<noteq> 0"
    using assms(2,3) by (simp add: word_of_nat_eq_0_iff dvd_imp_le not_le)
      (metis dvd_imp_le not_le numeral_pow)
  obtain b where "set_address ((''0x'' @ hex_string n) @ ''\<newline>'') 0 s = Inr (int (length (''0x'' @ hex_string n) + 1),
      s\<lparr>stsymbuffer := b, st_kind := ADDRESS, st_address := of_nat n\<rparr>)"
    using set_address_line [OF assms(1), of "''0x'' @ hex_string n" "of_nat n"] k nz sscanf_hex [of n]
      hex_string_no_NUL(1) [of n] by (auto simp: ST_STRINGSIZE_def)
  then show ?thesis by (simp add: read_symbol_def Let_def)
qed

theorem st_address_lookup_witness:
  "\<exists>s'. set_address (''0x'' @ hex_string 0xc0de @ ''\<newline>'') 0 (mod_st module_boot)
        = Inr (int (length (''0x'' @ hex_string 0xc0de @ ''\<newline>'')), s')
    \<and> st_address s' = of_nat 0xc0de
    \<and> fst (fst (read_symbol (\<lambda>a. hex_string (unat a)) (\<lambda>_. 0) 0 4096 s'))
        = hex_string (unat (of_nat 0xc0de :: u32))"
  by (rule st_address_lookup) (simp_all add: module_boot_def)

text \<open> An empty write to the symbol file makes \<open>set_address\<close> look at the byte before the buffer.
\<close>

theorem set_address_empty:
  assumes "length (stsymbuffer s) = ST_STRINGSIZE * 2 + 1 + 1"
  shows "set_address [] 0 s = Inl OutOfBounds"
  using assms by (simp add: set_address_def Let_def copy_from_user_def nth_checked_def ST_STRINGSIZE_def)

theorem set_address_empty_witness: "set_address [] 0 (mod_st module_boot) = Inl OutOfBounds"
  by (rule set_address_empty) (simp add: module_boot_def)


definition demo_menv :: module_env where
  "demo_menv = \<lparr>me_init = demo_init,
     me_config = \<lparr>CONFIG_TRACEPOINTS = True, CONFIG_MIGRATION = True, CONFIG_PKTEXTR = True\<rparr>,
     me_proc = (\<lambda>_. True), me_register = (\<lambda>_. True)\<rparr>"


text \<open> A load that fails because the netlink socket cannot be created returns an error, so that
  the kernel drops the module, but leaves the statistics and command files and the buffer behind.
\<close>

theorem init_failure_leaks:
  assumes "ie_proc_create (me_init me)" "ie_create_proc_entry (me_init me)"
    "ie_vmalloc (me_init me) (of_nat sizeof_sepentry * num) = Some buf"
    "\<not> ie_netlink_create (me_init me)"
  shows "\<exists>m. sepext_init_module me num module_boot = (- 10, m) \<and> has_statsproc (tr (mod_probes m))
    \<and> has_cmdproc (tr (mod_probes m)) \<and> has_buffer (tr (mod_probes m))"
  using assms by (simp add: sepext_init_module_def initialize_tracer_def Let_def module_boot_def)

theorem init_failure_leaks_witness:
  "\<exists>m. sepext_init_module (demo_menv\<lparr>me_init := demo_init\<lparr>ie_netlink_create := False\<rparr>\<rparr>) 1 module_boot
      = (- 10, m) \<and> has_statsproc (tr (mod_probes m)) \<and> has_cmdproc (tr (mod_probes m))
    \<and> has_buffer (tr (mod_probes m))"
  by (rule init_failure_leaks) (simp_all add: demo_init_def)

end
