(* ===== verification/Semaphore.thy ===== *)
theory Semaphore
  imports SepProbes
begin

text \<open>
  Counting semaphores, \<open>kernel/semaphore.c\<close> and \<open>include/linux/semaphore.h\<close>, with the tracepoints
  the framework added. Everything between taking and releasing the spinlock of a semaphore is one
  step. A call that sleeps is cut where \<open>__down_common\<close> gives the lock back: entering, and each
  return from \<open>schedule_timeout\<close>.
\<close>

section \<open>State\<close>

datatype task_state = TASK_UNINTERRUPTIBLE | TASK_INTERRUPTIBLE | TASK_KILLABLE

record semaphore_waiter =
  w_state :: task_state
  w_timeout :: int
  w_up :: bool

text \<open>
  Tasks are numbers; a waiter lives on the stack of its task, so a task has at most one. The list
  holds the tasks of the queued waiters. \<open>woken\<close> records the calls of \<open>wake_up_process\<close>, \<open>emitted\<close>
  the tracepoints passed.
\<close>

record semaphore =
  sem_addr :: addr
  sem_count :: u32
  wait_list :: "nat list"
  waiters :: "nat \<Rightarrow> semaphore_waiter option"
  woken :: "nat list"
  emitted :: "tracepoint list"

definition sema_init :: "addr \<Rightarrow> u32 \<Rightarrow> semaphore" where
  "sema_init a val = \<lparr>sem_addr = a, sem_count = val, wait_list = [], waiters = (\<lambda>_. None), woken = [],
     emitted = []\<rparr>"

definition EINTR :: int where "EINTR = 4"

definition ETIME :: int where "ETIME = 62"

definition MAX_SCHEDULE_TIMEOUT :: int where
  "MAX_SCHEDULE_TIMEOUT = 2 ^ 31 - 1"

text \<open>The signals of a task: whether one is pending, and whether a fatal one is.\<close>

record signals =
  sig_pending :: bool
  sig_fatal :: bool

definition signal_pending_state :: "task_state \<Rightarrow> signals \<Rightarrow> bool" where
  "signal_pending_state state sig =
     (if state = TASK_UNINTERRUPTIBLE then False
      else if \<not> sig_pending sig then False
      else state = TASK_INTERRUPTIBLE \<or> sig_fatal sig)"

section \<open>The contended case\<close>

text \<open>A call that is over has a result; one that sleeps has none yet.\<close>

type_synonym call = "int option \<times> semaphore"

definition drop_waiter :: "nat \<Rightarrow> semaphore \<Rightarrow> semaphore" where
  "drop_waiter t s = s\<lparr>wait_list := remove1 t (wait_list s), waiters := (waiters s)(t := None)\<rparr>"

text \<open>The head of the loop of \<open>__down_common\<close>, up to the release of the lock.\<close>

definition down_common_loop :: "signals \<Rightarrow> nat \<Rightarrow> semaphore_waiter \<Rightarrow> semaphore \<Rightarrow> call" where
  "down_common_loop sig t w s =
     (if signal_pending_state (w_state w) sig then (Some (- EINTR), drop_waiter t s)
      else if w_timeout w \<le> 0 then (Some (- ETIME), drop_waiter t s)
      else (None, s\<lparr>waiters := (waiters s)(t \<mapsto> w)\<rparr>))"

definition down_common :: "signals \<Rightarrow> nat \<Rightarrow> task_state \<Rightarrow> int \<Rightarrow> semaphore \<Rightarrow> call" where
  "down_common sig t state timeout s =
     (let w = \<lparr>w_state = state, w_timeout = timeout, w_up = False\<rparr>
      in down_common_loop sig t w
           (s\<lparr>wait_list := wait_list s @ [t], waiters := (waiters s)(t \<mapsto> w)\<rparr>))"

text \<open>
  The task runs again after \<open>schedule_timeout\<close>, which says how much of the timeout is left.
\<close>

definition down_common_wake :: "signals \<Rightarrow> int \<Rightarrow> nat \<Rightarrow> semaphore \<Rightarrow> call" where
  "down_common_wake sig left t s =
     (case waiters s t of
        None \<Rightarrow> (None, s)
      | Some w \<Rightarrow>
          if w_up w then (Some 0, s\<lparr>waiters := (waiters s)(t := None)\<rparr>)
          else down_common_loop sig t (w\<lparr>w_timeout := left\<rparr>) s)"

definition up_first :: "semaphore \<Rightarrow> semaphore" where
  "up_first s =
     (case wait_list s of
        [] \<Rightarrow> s
      | t # ts \<Rightarrow>
          s\<lparr>wait_list := ts,
            waiters := (waiters s)(t := map_option (\<lambda>w. w\<lparr>w_up := True\<rparr>) (waiters s t)),
            woken := woken s @ [t]\<rparr>)"

section \<open>The calls\<close>

definition trace_down :: "addr \<Rightarrow> semaphore \<Rightarrow> semaphore" where
  "trace_down ra s = s\<lparr>emitted := emitted s @ [Synch (Tp_semaphore_down ra (sem_addr s) SYNCH_GLOBAL)]\<rparr>"

definition trace_up :: "addr \<Rightarrow> semaphore \<Rightarrow> semaphore" where
  "trace_up ra s = s\<lparr>emitted := emitted s @ [Synch (Tp_semaphore_up ra (sem_addr s) SYNCH_GLOBAL)]\<rparr>"

definition down :: "addr \<Rightarrow> signals \<Rightarrow> nat \<Rightarrow> semaphore \<Rightarrow> call" where
  "down ra sig t s0 =
     (let s = trace_down ra s0 in
      if sem_count s > 0 then (Some 0, s\<lparr>sem_count := sem_count s - 1\<rparr>)
      else down_common sig t TASK_UNINTERRUPTIBLE MAX_SCHEDULE_TIMEOUT s)"

definition down_interruptible :: "addr \<Rightarrow> signals \<Rightarrow> nat \<Rightarrow> semaphore \<Rightarrow> call" where
  "down_interruptible ra sig t s0 =
     (let s = trace_down ra s0 in
      if sem_count s > 0 then (Some 0, s\<lparr>sem_count := sem_count s - 1\<rparr>)
      else down_common sig t TASK_INTERRUPTIBLE MAX_SCHEDULE_TIMEOUT s)"

definition down_killable :: "addr \<Rightarrow> signals \<Rightarrow> nat \<Rightarrow> semaphore \<Rightarrow> call" where
  "down_killable ra sig t s0 =
     (let s = trace_down ra s0 in
      if sem_count s > 0 then (Some 0, s\<lparr>sem_count := sem_count s - 1\<rparr>)
      else down_common sig t TASK_KILLABLE MAX_SCHEDULE_TIMEOUT s)"

text \<open>\<open>count\<close> is a signed variable: the difference is negative exactly when the count is 0.\<close>

definition down_trylock :: "addr \<Rightarrow> semaphore \<Rightarrow> int \<times> semaphore" where
  "down_trylock ra s0 =
     (let s = trace_down ra s0; count = sem_count s - 1 in
      (if sint count < 0 then 1 else 0, if sint count \<ge> 0 then s\<lparr>sem_count := count\<rparr> else s))"

definition down_timeout :: "addr \<Rightarrow> signals \<Rightarrow> nat \<Rightarrow> int \<Rightarrow> semaphore \<Rightarrow> call" where
  "down_timeout ra sig t jiffies s0 =
     (let s = trace_down ra s0 in
      if sem_count s > 0 then (Some 0, s\<lparr>sem_count := sem_count s - 1\<rparr>)
      else down_common sig t TASK_UNINTERRUPTIBLE jiffies s)"

definition up :: "addr \<Rightarrow> semaphore \<Rightarrow> semaphore" where
  "up ra s0 =
     (let s = trace_up ra s0 in
      if wait_list s = [] then s\<lparr>sem_count := sem_count s + 1\<rparr> else up_first s)"

section \<open>Runs\<close>

text \<open>
  A run with its holders: a task whose call returned 0 holds the semaphore until it calls \<open>up\<close>.
  Tasks that hold it or wait for it do not ask again.
\<close>

record sem_run =
  sr_sem :: semaphore
  sr_holders :: "nat list"

definition settle :: "nat \<Rightarrow> call \<Rightarrow> nat list \<Rightarrow> sem_run" where
  "settle t c hs =
     \<lparr>sr_sem = snd c, sr_holders = (if fst c = Some 0 then t # hs else hs)\<rparr>"

definition idle :: "nat \<Rightarrow> sem_run \<Rightarrow> bool" where
  "idle t r \<longleftrightarrow> t \<notin> set (sr_holders r) \<and> waiters (sr_sem r) t = None"

inductive sem_step :: "sem_run \<Rightarrow> sem_run \<Rightarrow> bool" where
  s_down: "idle t r \<Longrightarrow> sem_step r (settle t (down ra sig t (sr_sem r)) (sr_holders r))"
| s_int: "idle t r \<Longrightarrow> sem_step r (settle t (down_interruptible ra sig t (sr_sem r)) (sr_holders r))"
| s_kill: "idle t r \<Longrightarrow> sem_step r (settle t (down_killable ra sig t (sr_sem r)) (sr_holders r))"
| s_timeout: "idle t r \<Longrightarrow> sem_step r (settle t (down_timeout ra sig t j (sr_sem r)) (sr_holders r))"
| s_try: "idle t r \<Longrightarrow> down_trylock ra (sr_sem r) = (v, s') \<Longrightarrow>
    sem_step r (settle t (Some v, s') (sr_holders r))"
| s_wake: "waiters (sr_sem r) t = Some w \<Longrightarrow>
    sem_step r (settle t (down_common_wake sig left t (sr_sem r)) (sr_holders r))"
| s_up: "t \<in> set (sr_holders r) \<Longrightarrow>
    sem_step r \<lparr>sr_sem = up ra (sr_sem r), sr_holders = remove1 t (sr_holders r)\<rparr>"

section \<open>The invariant\<close>

definition granted :: "semaphore \<Rightarrow> nat set" where
  "granted s = {t. \<exists>w. waiters s t = Some w \<and> w_up w}"

text \<open>The permits that no task holds: the count, and those handed to waiters that have not run yet.\<close>

definition permits :: "semaphore \<Rightarrow> nat" where
  "permits s = unat (sem_count s) + card (granted s)"

text \<open>
  The list holds exactly the waiters without a grant, and a positive count means that nobody
  waits.
\<close>

definition sem_ok :: "semaphore \<Rightarrow> bool" where
  "sem_ok s \<longleftrightarrow> distinct (wait_list s)
     \<and> (\<forall>t. t \<in> set (wait_list s) \<longleftrightarrow> (\<exists>w. waiters s t = Some w \<and> \<not> w_up w))
     \<and> (wait_list s \<noteq> [] \<longrightarrow> sem_count s = 0) \<and> finite (granted s)"

lemma trace_fields [simp]:
  "sem_count (trace_down ra s) = sem_count s" "wait_list (trace_down ra s) = wait_list s"
  "waiters (trace_down ra s) = waiters s" "sem_count (trace_up ra s) = sem_count s"
  "wait_list (trace_up ra s) = wait_list s" "waiters (trace_up ra s) = waiters s"
  by (simp_all add: trace_down_def trace_up_def)

lemma sem_ok_cong:
  assumes "sem_count s' = sem_count s" "wait_list s' = wait_list s" "waiters s' = waiters s"
  shows "sem_ok s' = sem_ok s" "granted s' = granted s" "permits s' = permits s"
  using assms by (simp_all add: sem_ok_def granted_def permits_def)

lemma sem_ok_trace [simp]:
  "sem_ok (trace_down ra s) = sem_ok s" "sem_ok (trace_up ra s) = sem_ok s"
  "permits (trace_down ra s) = permits s" "permits (trace_up ra s) = permits s"
  by (rule sem_ok_cong; simp)+

text \<open>
  What a call does to the semaphore: it keeps the invariant, takes one permit exactly when it
  succeeds, and changes no other task's waiter; a call that is over leaves no waiter behind.
\<close>

definition call_ok :: "nat \<Rightarrow> semaphore \<Rightarrow> call \<Rightarrow> bool" where
  "call_ok t s c \<longleftrightarrow> sem_ok (snd c) \<and> permits s = permits (snd c) + (if fst c = Some 0 then 1 else 0)
     \<and> (\<forall>u. u \<noteq> t \<longrightarrow> waiters (snd c) u = waiters s u) \<and> (fst c \<noteq> None \<longrightarrow> waiters (snd c) t = None)"

lemma take_permit_ok:
  assumes "sem_ok s" "0 < sem_count s" "waiters s t = None"
  shows "call_ok t s (Some 0, s\<lparr>sem_count := sem_count s - 1\<rparr>)"
proof -
  have "wait_list s = []" using assms(1,2) by (auto simp: sem_ok_def)
  moreover have nz: "sem_count s \<noteq> 0" using assms(2) by auto
  moreover have "unat (sem_count s - 1) = unat (sem_count s) - 1" "0 < unat (sem_count s)"
    using unat_dec [OF nz] nz by (simp_all add: unat_gt_0)
  ultimately show ?thesis
    using assms(1,3) by (simp add: call_ok_def sem_ok_def permits_def granted_def)
qed

text \<open>The head of the loop, for a waiter without a grant.\<close>

lemma down_common_loop_ok:
  assumes "sem_ok s" "waiters s t = Some w0" "\<not> w_up w0" "\<not> w_up w"
  shows "call_ok t s (down_common_loop sig t w s)"
proof -
  have t: "t \<in> set (wait_list s)" using assms by (auto simp: sem_ok_def)
  have drop: "call_ok t s (Some r, drop_waiter t s)" if "r \<noteq> 0" for r
  proof -
    have "granted (drop_waiter t s) = granted s"
      using assms(2,3) by (auto simp: granted_def drop_waiter_def)
    then show ?thesis
      using assms(1) that by (auto simp: call_ok_def sem_ok_def permits_def drop_waiter_def)
  qed
  have "call_ok t s (None, s\<lparr>waiters := (waiters s)(t \<mapsto> w)\<rparr>)"
  proof -
    have "granted (s\<lparr>waiters := (waiters s)(t \<mapsto> w)\<rparr>) = granted s"
      using assms(2,3,4) by (auto simp: granted_def)
    then show ?thesis
      using assms(1,4) t by (auto simp: call_ok_def sem_ok_def permits_def)
  qed
  with drop show ?thesis
    by (simp add: down_common_loop_def EINTR_def ETIME_def)
qed

lemma down_common_ok:
  assumes "sem_ok s" "sem_count s = 0" "waiters s t = None"
  shows "call_ok t s (down_common sig t state timeout s)"
proof -
  let ?w = "\<lparr>w_state = state, w_timeout = timeout, w_up = False\<rparr>"
  let ?s = "s\<lparr>wait_list := wait_list s @ [t], waiters := (waiters s)(t \<mapsto> ?w)\<rparr>"
  have "t \<notin> set (wait_list s)" using assms by (auto simp: sem_ok_def)
  moreover have g: "granted ?s = granted s" using assms(3) by (auto simp: granted_def)
  ultimately have "sem_ok ?s" using assms(1,2) by (auto simp: sem_ok_def)
  moreover have "permits ?s = permits s" using g by (simp add: permits_def)
  ultimately show ?thesis
    using down_common_loop_ok [of ?s t ?w ?w sig] by (auto simp: down_common_def call_ok_def Let_def)
qed

lemma call_ok_trace: "call_ok t (trace_down ra s) c = call_ok t s c"
  by (simp add: call_ok_def)

lemma down_calls_ok:
  assumes "sem_ok s" "waiters s t = None"
  shows "call_ok t s (down ra sig t s)" "call_ok t s (down_interruptible ra sig t s)"
    "call_ok t s (down_killable ra sig t s)" "call_ok t s (down_timeout ra sig t j s)"
proof -
  let ?s = "trace_down ra s"
  have c: "call_ok t s (if sem_count ?s > 0 then (Some 0, ?s\<lparr>sem_count := sem_count ?s - 1\<rparr>)
      else down_common sig t st tmo ?s)" for st tmo
    using take_permit_ok [of ?s t] down_common_ok [of ?s t sig st tmo] assms
    by (cases "sem_count s = 0") (auto simp: call_ok_trace word_neq_0_conv)
  show "call_ok t s (down ra sig t s)" "call_ok t s (down_interruptible ra sig t s)"
    "call_ok t s (down_killable ra sig t s)" "call_ok t s (down_timeout ra sig t j s)"
    unfolding down_def down_interruptible_def down_killable_def down_timeout_def Let_def by (rule c)+
qed

lemma down_trylock_ok:
  assumes "sem_ok s" "waiters s t = None" "unat (sem_count s) < 2 ^ 31" "down_trylock ra s = (v, s')"
  shows "call_ok t s (Some v, s')"
proof -
  have eq: "sint (sem_count s - 1) < 0 \<longleftrightarrow> sem_count s = 0"
    using assms(3) unat_dec [of "sem_count s"] by (cases "sem_count s = 0") (simp_all add: sint_neg_32)
  show ?thesis
  proof (cases "sem_count s = 0")
    case True
    then show ?thesis
      using assms eq by (auto simp: down_trylock_def Let_def call_ok_def)
  next
    case False
    then have "0 < sem_count s" by (simp add: word_neq_0_conv)
    then show ?thesis
      using False assms eq take_permit_ok [of "trace_down ra s" t]
      by (auto simp: down_trylock_def Let_def call_ok_trace)
  qed
qed

lemma down_common_wake_ok:
  assumes "sem_ok s" "waiters s t = Some w"
  shows "call_ok t s (down_common_wake sig left t s)"
proof (cases "w_up w")
  case True
  let ?s = "s\<lparr>waiters := (waiters s)(t := None)\<rparr>"
  have "granted s = insert t (granted ?s)" "t \<notin> granted ?s" "finite (granted ?s)"
    using assms True by (auto simp: granted_def sem_ok_def intro: rev_finite_subset)
  then have "permits s = permits ?s + 1" by (simp add: permits_def)
  moreover have "sem_ok ?s"
    using assms True \<open>finite (granted ?s)\<close> by (auto simp: sem_ok_def)
  ultimately show ?thesis using assms(2) True by (simp add: down_common_wake_def call_ok_def)
next
  case False
  then show ?thesis
    using down_common_loop_ok [OF assms False, of "w\<lparr>w_timeout := left\<rparr>" sig] assms(2)
    by (simp add: down_common_wake_def)
qed

text \<open>Releasing adds a permit, to the count or to the first waiter.\<close>

lemma up_ok:
  assumes "sem_ok s" "unat (sem_count s) < 2 ^ 31"
  shows "sem_ok (up ra s)" "permits (up ra s) = permits s + 1"
    "\<And>t. (waiters (up ra s) t = None) = (waiters s t = None)"
proof -
  have inc: "unat (sem_count s + 1) = unat (sem_count s) + 1"
    using assms(2) unat_inc [of "sem_count s"] by fastforce
  have "sem_ok (up ra s) \<and> permits (up ra s) = permits s + 1
      \<and> (\<forall>t. (waiters (up ra s) t = None) = (waiters s t = None))"
  proof (cases "wait_list s")
    case Nil
    then show ?thesis
      using assms(1) inc by (simp add: up_def Let_def sem_ok_def permits_def granted_def)
  next
    case (Cons t ts)
    then obtain w where w: "waiters s t = Some w" "\<not> w_up w"
      using assms(1) by (fastforce simp: sem_ok_def)
    let ?s = "up ra s"
    have f: "sem_count ?s = sem_count s" "wait_list ?s = ts"
      "waiters ?s = (waiters s)(t \<mapsto> w\<lparr>w_up := True\<rparr>)"
      using Cons w by (simp_all add: up_def Let_def up_first_def)
    have "granted ?s = insert t (granted s)" "t \<notin> granted s" "finite (granted s)"
      using w assms(1) by (auto simp: granted_def f sem_ok_def)
    then have "permits ?s = permits s + 1" "finite (granted ?s)"
      by (simp_all add: permits_def f)
    moreover have "sem_ok ?s"
      using assms(1) Cons f w \<open>finite (granted ?s)\<close> by (auto simp: sem_ok_def)
    ultimately show ?thesis using f w by simp
  qed
  then show "sem_ok (up ra s)" "permits (up ra s) = permits s + 1"
    "\<And>t. (waiters (up ra s) t = None) = (waiters s t = None)" by auto
qed

section \<open>Properties\<close>

definition run_inv :: "nat \<Rightarrow> sem_run \<Rightarrow> bool" where
  "run_inv n r \<longleftrightarrow> sem_ok (sr_sem r) \<and> distinct (sr_holders r)
     \<and> (\<forall>t\<in>set (sr_holders r). waiters (sr_sem r) t = None)
     \<and> permits (sr_sem r) + length (sr_holders r) = n"

lemma run_inv_count: "run_inv n r \<Longrightarrow> unat (sem_count (sr_sem r)) \<le> n"
  by (auto simp: run_inv_def permits_def)

lemma settle_inv:
  assumes "run_inv n r" "t \<notin> set (sr_holders r)" "call_ok t (sr_sem r) c"
  shows "run_inv n (settle t c (sr_holders r))"
  using assms by (auto simp: run_inv_def settle_def call_ok_def)

lemma sem_step_inv:
  assumes "sem_step r r'" "run_inv n r" "n < 2 ^ 31"
  shows "run_inv n r'"
proof -
  have ok: "sem_ok (sr_sem r)" "unat (sem_count (sr_sem r)) < 2 ^ 31"
    using assms(2,3) run_inv_count [OF assms(2)] by (auto simp: run_inv_def)
  show ?thesis
    using assms(1)
  proof cases
    case (s_wake t w sig left)
    have "t \<notin> set (sr_holders r)" using s_wake(2) assms(2) by (auto simp: run_inv_def)
    then show ?thesis
      unfolding s_wake(1) using ok(1) s_wake(2) by (intro settle_inv assms(2) down_common_wake_ok)
  next
    case (s_up t ra)
    then obtain m where "length (sr_holders r) = Suc m"
      by (metis length_pos_if_in_set gr0_implies_Suc)
    then show ?thesis
      using s_up assms(2) up_ok [OF ok, of ra] by (auto simp: run_inv_def length_remove1)
  qed (auto simp: idle_def intro!: settle_inv assms(2) down_calls_ok ok intro: down_trylock_ok [OF ok(1) _ ok(2)])
qed

definition sem_start :: "addr \<Rightarrow> nat \<Rightarrow> sem_run" where
  "sem_start a n = \<lparr>sr_sem = sema_init a (of_nat n), sr_holders = []\<rparr>"

lemma sem_start_inv: "n < 2 ^ 31 \<Longrightarrow> run_inv n (sem_start a n)"
  by (simp add: run_inv_def sem_start_def sema_init_def sem_ok_def permits_def granted_def unat_of_nat)

interpretation sem_runs: invariant_run sem_step "\<lambda>r. \<exists>a. r = sem_start a n \<and> n < 2 ^ 31" "\<lambda>r. n < 2 ^ 31 \<and> run_inv n r" for n
  by unfold_locales (auto intro: sem_start_inv sem_step_inv)

lemma sem_reach_inv: "sem_step\<^sup>*\<^sup>* (sem_start a n) r \<Longrightarrow> n < 2 ^ 31 \<Longrightarrow> run_inv n r"
  using sem_runs.reach_good [of _ r n] by blast


definition no_signal :: signals where
  "no_signal = \<lparr>sig_pending = False, sig_fatal = False\<rparr>"


text \<open>
  (C28) First come, first served: while tasks wait, \<open>up\<close> grants to the one that has waited longest
  and wakes it, no later \<open>down\<close> or \<open>down_trylock\<close> overtakes them, and the task that was granted
  returns with success when it next runs, whatever signals it has and whatever is left of its time.
\<close>

theorem semaphore_fifo:
  assumes "sem_ok s" "wait_list s = t # ts" "waiters s u = None" "\<not> sig_pending sig"
  shows "wait_list (up ra s) = ts \<and> woken (up ra s) = woken s @ [t]
    \<and> fst (down_common_wake sig' left t (up ra s)) = Some 0
    \<and> fst (down ra sig u s) = None \<and> wait_list (snd (down ra sig u s)) = t # ts @ [u]
    \<and> fst (down_trylock ra s) = 1 \<and> wait_list (snd (down_trylock ra s)) = t # ts"
proof -
  obtain w where w: "waiters s t = Some w"
    using assms(1,2) by (fastforce simp: sem_ok_def)
  have z: "sem_count s = 0" using assms(1,2) by (simp add: sem_ok_def)
  show ?thesis
    using assms(2-4) w z
    by (simp add: up_def up_first_def trace_up_def trace_down_def down_common_wake_def down_def down_common_def
        down_common_loop_def signal_pending_state_def MAX_SCHEDULE_TIMEOUT_def down_trylock_def Let_def)
qed

theorem semaphore_fifo_witness:
  "fst (down_common_wake \<lparr>sig_pending = True, sig_fatal = True\<rparr> 0 7
      (up 0x8000 (snd (down 0x8000 no_signal 7 (sema_init 0x100 0))))) = Some 0"
proof -
  let ?s = "snd (down 0x8000 no_signal 7 (sema_init 0x100 0))"
  have s: "wait_list ?s = [7]" "waiters ?s 8 = None"
    by (simp_all add: down_def down_common_def down_common_loop_def sema_init_def trace_down_def Let_def
        signal_pending_state_def MAX_SCHEDULE_TIMEOUT_def)
  have "sem_ok (sema_init 0x100 0)" "waiters (sema_init 0x100 0) 7 = None"
    by (simp_all add: sema_init_def sem_ok_def granted_def)
  from down_calls_ok(1) [OF this] have "sem_ok ?s" by (simp add: call_ok_def)
  from semaphore_fifo [OF this s, of no_signal] show ?thesis by (simp add: no_signal_def)
qed

text \<open>
  Giving up: a waiting task without a grant that has run out of time, or is interrupted where
  its call allows it, returns the error of the call and leaves the others queued in their order.
\<close>

theorem semaphore_giveup:
  assumes "sem_ok s" "waiters s t = Some w" "\<not> w_up w"
  shows "down_common_wake sig left t s =
    (if signal_pending_state (w_state w) sig then (Some (- EINTR), drop_waiter t s)
     else if left \<le> 0 then (Some (- ETIME), drop_waiter t s)
     else (None, s\<lparr>waiters := (waiters s)(t \<mapsto> w\<lparr>w_timeout := left\<rparr>)\<rparr>))
    \<and> wait_list (drop_waiter t s) = filter (\<lambda>u. u \<noteq> t) (wait_list s) \<and> sem_ok (drop_waiter t s)"
proof -
  have "distinct (wait_list s)" using assms(1) by (simp add: sem_ok_def)
  moreover have "sem_ok (drop_waiter t s)"
    using down_common_loop_ok [OF assms(1-3), of "w\<lparr>w_state := TASK_INTERRUPTIBLE\<rparr>"
        "\<lparr>sig_pending = True, sig_fatal = False\<rparr>"] assms(3)
    by (simp add: down_common_loop_def signal_pending_state_def call_ok_def)
  ultimately show ?thesis
    using assms(2,3) by (simp add: down_common_wake_def down_common_loop_def drop_waiter_def distinct_remove1_removeAll
        removeAll_filter_not_eq neq_commute)
qed

theorem semaphore_giveup_witness:
  "fst (down_common_wake no_signal 0 7 (snd (down_timeout 0x8000 no_signal 7 10 (sema_init 0x100 0)))) = Some (- ETIME)"
proof -
  let ?s = "snd (down_timeout 0x8000 no_signal 7 10 (sema_init 0x100 0))"
  let ?w = "\<lparr>w_state = TASK_UNINTERRUPTIBLE, w_timeout = 10, w_up = False\<rparr>"
  have s: "waiters ?s 7 = Some ?w"
    by (simp add: down_timeout_def down_common_def down_common_loop_def sema_init_def trace_down_def Let_def
        signal_pending_state_def)
  have "sem_ok (sema_init 0x100 0)" "waiters (sema_init 0x100 0) 7 = None"
    by (simp_all add: sema_init_def sem_ok_def granted_def)
  from down_calls_ok(4) [OF this] have "sem_ok ?s" by (simp add: call_ok_def)
  from semaphore_giveup [OF this s, of no_signal 0] show ?thesis by (simp add: signal_pending_state_def)
qed

end
