(* ===== verification/WaitQueue.thy ===== *)
theory WaitQueue
  imports Semaphore
begin

text \<open>
  Wait queues: \<open>include/linux/wait.h\<close>, \<open>kernel/wait.c\<close> and the wake-up functions of
  \<open>kernel/sched.c\<close>. What is done under the lock of a queue is one step. The queue is the list of its
  entries, which are numbered; the run states of the tasks are bit masks, as in the code.
\<close>

section \<open>State\<close>

datatype wait_queue_func = default_wake | autoremove_wake

record wait_queue_entry =
  we_exclusive :: bool
  we_task :: nat
  we_func :: wait_queue_func

record waitq =
  task_list :: "nat list"
  entry :: "nat \<Rightarrow> wait_queue_entry"
  tstate :: "nat \<Rightarrow> u32"
  wq_emitted :: "tracepoint list"

primrec state_bits :: "task_state \<Rightarrow> u32" where
  "state_bits TASK_INTERRUPTIBLE = 1"
| "state_bits TASK_UNINTERRUPTIBLE = 2"
| "state_bits TASK_KILLABLE = 130"

definition TASK_RUNNING :: u32 where "TASK_RUNNING = 0"

definition TASK_NORMAL :: u32 where "TASK_NORMAL = 3"

definition set_state :: "nat \<Rightarrow> u32 \<Rightarrow> waitq \<Rightarrow> waitq" where
  "set_state t st q = q\<lparr>tstate := (tstate q)(t := st)\<rparr>"

section \<open>Entries\<close>

definition init_waitqueue_head :: "waitq \<Rightarrow> waitq" where
  "init_waitqueue_head q = q\<lparr>task_list := []\<rparr>"

definition init_waitqueue_entry :: "nat \<Rightarrow> nat \<Rightarrow> waitq \<Rightarrow> waitq" where
  "init_waitqueue_entry e p q =
     q\<lparr>entry := (entry q)(e := \<lparr>we_exclusive = False, we_task = p, we_func = default_wake\<rparr>)\<rparr>"

text \<open>\<open>DEFINE_WAIT\<close>.\<close>

definition define_wait :: "nat \<Rightarrow> nat \<Rightarrow> waitq \<Rightarrow> waitq" where
  "define_wait e p q =
     q\<lparr>entry := (entry q)(e := \<lparr>we_exclusive = False, we_task = p, we_func = autoremove_wake\<rparr>)\<rparr>"

definition waitqueue_active :: "waitq \<Rightarrow> bool" where
  "waitqueue_active q = (task_list q \<noteq> [])"

definition set_exclusive :: "bool \<Rightarrow> nat \<Rightarrow> waitq \<Rightarrow> waitq" where
  "set_exclusive b e q = q\<lparr>entry := (entry q)(e := (entry q e)\<lparr>we_exclusive := b\<rparr>)\<rparr>"

definition add_wait_queue_head :: "nat \<Rightarrow> waitq \<Rightarrow> waitq" where
  "add_wait_queue_head e q = q\<lparr>task_list := e # task_list q\<rparr>"

definition add_wait_queue_tail :: "nat \<Rightarrow> waitq \<Rightarrow> waitq" where
  "add_wait_queue_tail e q = q\<lparr>task_list := task_list q @ [e]\<rparr>"

definition add_wait_queue_head_exclusive :: "nat \<Rightarrow> waitq \<Rightarrow> waitq" where
  "add_wait_queue_head_exclusive e q = add_wait_queue_head e (set_exclusive True e q)"

definition add_wait_queue_tail_exclusive :: "nat \<Rightarrow> waitq \<Rightarrow> waitq" where
  "add_wait_queue_tail_exclusive e q = add_wait_queue_tail e (set_exclusive True e q)"

definition list_del_entry :: "nat \<Rightarrow> waitq \<Rightarrow> waitq" where
  "list_del_entry e q = q\<lparr>task_list := remove1 e (task_list q)\<rparr>"

definition add_wait_queue :: "nat \<Rightarrow> waitq \<Rightarrow> waitq" where
  "add_wait_queue e q = add_wait_queue_head e (set_exclusive False e q)"

definition add_wait_queue_exclusive :: "nat \<Rightarrow> waitq \<Rightarrow> waitq" where
  "add_wait_queue_exclusive e q = add_wait_queue_tail e (set_exclusive True e q)"

definition remove_wait_queue :: "nat \<Rightarrow> waitq \<Rightarrow> waitq" where
  "remove_wait_queue e q = list_del_entry e q"

section \<open>Waking up\<close>

definition try_to_wake_up :: "addr \<Rightarrow> nat \<Rightarrow> u32 \<Rightarrow> waitq \<Rightarrow> bool \<times> waitq" where
  "try_to_wake_up ra p state q0 =
     (let q = q0\<lparr>wq_emitted := wq_emitted q0 @ [Sched (Tp_wakeup ra (of_nat p))]\<rparr> in
      if tstate q p AND state = 0 then (False, q) else (True, set_state p TASK_RUNNING q))"

definition default_wake_function :: "addr \<Rightarrow> nat \<Rightarrow> u32 \<Rightarrow> waitq \<Rightarrow> bool \<times> waitq" where
  "default_wake_function ra e mode q = try_to_wake_up ra (we_task (entry q e)) mode q"

definition autoremove_wake_function :: "addr \<Rightarrow> nat \<Rightarrow> u32 \<Rightarrow> waitq \<Rightarrow> bool \<times> waitq" where
  "autoremove_wake_function ra e mode q =
     (case default_wake_function ra e mode q of
        (ret, q') \<Rightarrow> (ret, if ret then list_del_entry e q' else q'))"

definition call_wake_func :: "addr \<Rightarrow> nat \<Rightarrow> u32 \<Rightarrow> waitq \<Rightarrow> bool \<times> waitq" where
  "call_wake_func ra e mode q =
     (case we_func (entry q e) of
        default_wake \<Rightarrow> default_wake_function ra e mode q
      | autoremove_wake \<Rightarrow> autoremove_wake_function ra e mode q)"

text \<open>
  \<open>__wake_up_common\<close>: the argument list is the queue as it was; a wake function takes at most its
  own entry off it.
\<close>

primrec wake_up_entries :: "addr \<Rightarrow> u32 \<Rightarrow> int \<Rightarrow> nat list \<Rightarrow> waitq \<Rightarrow> waitq" where
  "wake_up_entries ra mode nr [] q = q"
| "wake_up_entries ra mode nr (e # rest) q =
     (case call_wake_func ra e mode q of
        (ret, q') \<Rightarrow>
          if ret \<and> we_exclusive (entry q e)
          then if nr - 1 = 0 then q' else wake_up_entries ra mode (nr - 1) rest q'
          else wake_up_entries ra mode nr rest q')"

definition wake_up_common :: "addr \<Rightarrow> u32 \<Rightarrow> int \<Rightarrow> waitq \<Rightarrow> waitq" where
  "wake_up_common ra mode nr q = wake_up_entries ra mode nr (task_list q) q"

definition wake_up :: "addr \<Rightarrow> u32 \<Rightarrow> int \<Rightarrow> waitq \<Rightarrow> waitq" where
  "wake_up ra mode nr q = wake_up_common ra mode nr q"

definition wake_up_locked :: "addr \<Rightarrow> u32 \<Rightarrow> waitq \<Rightarrow> waitq" where
  "wake_up_locked ra mode q = wake_up_common ra mode 1 q"

text \<open>The queue of \<open>__wake_up_sync_key\<close> may be a null pointer.\<close>

definition wake_up_sync_key :: "addr \<Rightarrow> u32 \<Rightarrow> int \<Rightarrow> waitq option \<Rightarrow> waitq option" where
  "wake_up_sync_key ra mode nr q = map_option (wake_up_common ra mode nr) q"

section \<open>Waiting\<close>

definition prepare_to_wait :: "nat \<Rightarrow> u32 \<Rightarrow> waitq \<Rightarrow> waitq" where
  "prepare_to_wait e state q0 =
     (let q = set_exclusive False e q0;
          q' = (if e \<in> set (task_list q) then q else add_wait_queue_head e q)
      in set_state (we_task (entry q' e)) state q')"

definition prepare_to_wait_exclusive :: "nat \<Rightarrow> u32 \<Rightarrow> waitq \<Rightarrow> waitq" where
  "prepare_to_wait_exclusive e state q0 =
     (let q = set_exclusive True e q0;
          q' = (if e \<in> set (task_list q) then q else add_wait_queue_tail e q)
      in set_state (we_task (entry q' e)) state q')"

definition finish_wait :: "nat \<Rightarrow> waitq \<Rightarrow> waitq" where
  "finish_wait e q0 =
     (let q = set_state (we_task (entry q0 e)) TASK_RUNNING q0 in
      if e \<in> set (task_list q) then list_del_entry e q else q)"

definition abort_exclusive_wait :: "addr \<Rightarrow> nat \<Rightarrow> u32 \<Rightarrow> waitq \<Rightarrow> waitq" where
  "abort_exclusive_wait ra e mode q0 =
     (let q = set_state (we_task (entry q0 e)) TASK_RUNNING q0 in
      if e \<in> set (task_list q) then list_del_entry e q
      else if waitqueue_active q then wake_up_locked ra mode q else q)"

text \<open>\<open>sleep_on_common\<close> up to \<open>schedule_timeout\<close>, and after it.\<close>

definition sleep_on_enter :: "nat \<Rightarrow> nat \<Rightarrow> task_state \<Rightarrow> waitq \<Rightarrow> waitq" where
  "sleep_on_enter e p state q =
     add_wait_queue_head e (set_state p (state_bits state) (init_waitqueue_entry e p q))"

definition sleep_on_leave :: "nat \<Rightarrow> waitq \<Rightarrow> waitq" where
  "sleep_on_leave e q = list_del_entry e q"

section \<open>What a wake-up does\<close>

definition asleep :: "u32 \<Rightarrow> waitq \<Rightarrow> nat \<Rightarrow> bool" where
  "asleep mode q e \<longleftrightarrow> tstate q (we_task (entry q e)) AND mode \<noteq> 0"

abbreviation exclusive :: "waitq \<Rightarrow> nat \<Rightarrow> bool" where
  "exclusive q e \<equiv> we_exclusive (entry q e)"

abbreviation owner :: "waitq \<Rightarrow> nat \<Rightarrow> nat" where
  "owner q e \<equiv> we_task (entry q e)"

lemma call_wake_func_effect:
  "fst (call_wake_func ra e mode q) = asleep mode q e"
  "entry (snd (call_wake_func ra e mode q)) = entry q"
  "tstate (snd (call_wake_func ra e mode q)) = (if asleep mode q e then (tstate q)(owner q e := 0) else tstate q)"
  "task_list (snd (call_wake_func ra e mode q)) =
     (if asleep mode q e \<and> we_func (entry q e) = autoremove_wake then remove1 e (task_list q) else task_list q)"
  by (auto simp: call_wake_func_def default_wake_function_def autoremove_wake_function_def try_to_wake_up_def
      asleep_def set_state_def list_del_entry_def TASK_RUNNING_def Let_def split: wait_queue_func.splits)

text \<open>The entries a scan wakes, from who sleeps and who is exclusive.\<close>

primrec woken_by :: "(nat \<Rightarrow> bool) \<Rightarrow> (nat \<Rightarrow> bool) \<Rightarrow> int \<Rightarrow> nat list \<Rightarrow> nat list" where
  "woken_by sl ex nr [] = []"
| "woken_by sl ex nr (e # es) =
     (if sl e then e # (if ex e then if nr - 1 = 0 then [] else woken_by sl ex (nr - 1) es
                        else woken_by sl ex nr es)
      else woken_by sl ex nr es)"

lemma woken_by_cong:
  "(\<And>e. e \<in> set es \<Longrightarrow> sl e = sl' e) \<Longrightarrow> woken_by sl ex nr es = woken_by sl' ex nr es"
  by (induction es arbitrary: nr) auto

lemma woken_by_in: "d \<in> set (woken_by sl ex nr es) \<Longrightarrow> d \<in> set es \<and> sl d"
  by (induction es arbitrary: nr) (auto split: if_splits)

lemma wake_up_entries_effect:
  assumes "distinct es" "inj_on (owner q) (set es)"
  shows "entry (wake_up_entries ra mode nr es q) = entry q"
    "tstate (wake_up_entries ra mode nr es q) =
       (\<lambda>t. if t \<in> owner q ` set (woken_by (asleep mode q) (exclusive q) nr es) then 0 else tstate q t)"
    "task_list (wake_up_entries ra mode nr es q) =
       fold remove1 (filter (\<lambda>e. we_func (entry q e) = autoremove_wake)
         (woken_by (asleep mode q) (exclusive q) nr es)) (task_list q)"
proof -
  let ?P = "\<lambda>nr es q. entry (wake_up_entries ra mode nr es q) = entry q
    \<and> tstate (wake_up_entries ra mode nr es q) =
       (\<lambda>t. if t \<in> owner q ` set (woken_by (asleep mode q) (exclusive q) nr es) then 0 else tstate q t)
    \<and> task_list (wake_up_entries ra mode nr es q) =
       fold remove1 (filter (\<lambda>e. we_func (entry q e) = autoremove_wake)
         (woken_by (asleep mode q) (exclusive q) nr es)) (task_list q)"
  have "?P nr es q" using assms
  proof (induction es arbitrary: nr q)
    case Nil
    then show ?case by simp
  next
    case (Cons e es)
    obtain ret q' where c: "call_wake_func ra e mode q = (ret, q')" by fastforce
    note eff = call_wake_func_effect [of ra e mode q, unfolded c, simplified]
    have "asleep mode q' d = asleep mode q d" if "d \<in> set es" for d
      using that Cons.prems eff by (auto simp: asleep_def inj_on_def)
    then have w: "woken_by (asleep mode q') (exclusive q) n es = woken_by (asleep mode q) (exclusive q) n es" for n
      by (rule woken_by_cong)
    have "inj_on (owner q') (set es)" "distinct es" using Cons.prems eff(2) by simp_all
    then have IH: "?P n es q'" for n using Cons.IH by blast
    show ?case
      using IH eff w c by (auto simp: fun_eq_iff)
  qed
  then show "entry (wake_up_entries ra mode nr es q) = entry q"
    "tstate (wake_up_entries ra mode nr es q) =
       (\<lambda>t. if t \<in> owner q ` set (woken_by (asleep mode q) (exclusive q) nr es) then 0 else tstate q t)"
    "task_list (wake_up_entries ra mode nr es q) =
       fold remove1 (filter (\<lambda>e. we_func (entry q e) = autoremove_wake)
         (woken_by (asleep mode q) (exclusive q) nr es)) (task_list q)"
    by blast+
qed

text \<open>The exclusive entries are behind the others; then the scan reaches all of those.\<close>

definition upto_nr :: "int \<Rightarrow> 'a list \<Rightarrow> 'a list" where
  "upto_nr nr xs = (if 0 < nr then take (nat nr) xs else xs)"

lemma upto_nr_Cons:
  "upto_nr nr (x # xs) = x # (if nr - 1 = 0 then [] else upto_nr (nr - 1) xs)"
proof (cases "0 < nr")
  case True
  then have "nat nr = Suc (nat (nr - 1))" by simp
  then show ?thesis using True by (auto simp: upto_nr_def)
qed (auto simp: upto_nr_def)

lemma woken_by_sorted:
  assumes "sorted (map ex es)"
  shows "woken_by sl ex nr es =
    filter (\<lambda>e. sl e \<and> \<not> ex e) es @ upto_nr nr (filter (\<lambda>e. sl e \<and> ex e) es)"
  using assms
proof (induction es arbitrary: nr)
  case Nil
  then show ?case by (simp add: upto_nr_def)
next
  case (Cons e es)
  show ?case
  proof (cases "ex e")
    case True
    then have "filter (\<lambda>e. sl e \<and> \<not> ex e) es = []" using Cons.prems by (auto simp: filter_empty_conv)
    then show ?thesis using Cons True by (auto simp: upto_nr_Cons)
  qed (use Cons in auto)
qed

section \<open>The layout of a queue\<close>

definition wq_ok :: "waitq \<Rightarrow> bool" where
  "wq_ok q \<longleftrightarrow> distinct (task_list q) \<and> inj_on (owner q) (set (task_list q))
     \<and> sorted (map (exclusive q) (task_list q))"

text \<open>
  The use of a queue: an entry is set up before it is queued, by a task that has no other entry
  there, and changes its kind only while it is not queued. Any task may go to sleep or wake up for
  other reasons at any time.
\<close>

definition may_queue :: "nat \<Rightarrow> waitq \<Rightarrow> bool" where
  "may_queue e q \<longleftrightarrow> e \<notin> set (task_list q) \<and> owner q e \<notin> owner q ` set (task_list q)"

inductive wq_step :: "waitq \<Rightarrow> waitq \<Rightarrow> bool" where
  wq_init: "e \<notin> set (task_list q) \<Longrightarrow> wq_step q (init_waitqueue_entry e p q)"
| wq_define: "e \<notin> set (task_list q) \<Longrightarrow> wq_step q (define_wait e p q)"
| wq_add: "may_queue e q \<Longrightarrow> wq_step q (add_wait_queue e q)"
| wq_add_ex: "may_queue e q \<Longrightarrow> wq_step q (add_wait_queue_exclusive e q)"
| wq_tail_ex: "may_queue e q \<Longrightarrow> wq_step q (add_wait_queue_tail_exclusive e q)"
| wq_remove: "wq_step q (remove_wait_queue e q)"
| wq_prepare: "may_queue e q \<or> e \<in> set (task_list q) \<and> \<not> exclusive q e \<Longrightarrow> wq_step q (prepare_to_wait e st q)"
| wq_prepare_ex: "may_queue e q \<or> e \<in> set (task_list q) \<and> exclusive q e \<Longrightarrow>
    wq_step q (prepare_to_wait_exclusive e st q)"
| wq_finish: "wq_step q (finish_wait e q)"
| wq_abort: "wq_step q (abort_exclusive_wait ra e mode q)"
| wq_sleep: "e \<notin> set (task_list q) \<Longrightarrow> p \<notin> owner q ` set (task_list q) \<Longrightarrow> wq_step q (sleep_on_enter e p st q)"
| wq_leave: "wq_step q (sleep_on_leave e q)"
| wq_wake: "wq_step q (wake_up ra mode nr q)"
| wq_state: "wq_step q (set_state p s q)"

lemma set_state_fields [simp]: "entry (set_state p s q) = entry q" "task_list (set_state p s q) = task_list q"
  by (simp_all add: set_state_def)

lemma wq_ok_set_state [simp]: "wq_ok (set_state p s q) = wq_ok q"
  by (simp add: wq_ok_def set_state_def)

lemma sorted_map_remove1_id: "sorted (map f xs) \<Longrightarrow> sorted (map f (remove1 x xs))"
  by (induction xs) (auto dest: notin_set_remove1)

lemma fold_remove1_ok:
  assumes "distinct xs" "sorted (map f xs)"
  shows "distinct (fold remove1 es xs) \<and> sorted (map f (fold remove1 es xs)) \<and> set (fold remove1 es xs) \<subseteq> set xs"
  using assms
proof (induction es arbitrary: xs)
  case (Cons e es)
  from Cons.IH [OF distinct_remove1 [OF Cons.prems(1)] sorted_map_remove1_id [OF Cons.prems(2)], of e]
  show ?case using set_remove1_subset [of e xs] by (simp, blast)
qed simp

lemma wq_ok_remove1s:
  assumes "wq_ok q" "entry q' = entry q" "task_list q' = fold remove1 es (task_list q)"
  shows "wq_ok q'"
  using assms fold_remove1_ok [of "task_list q" "exclusive q" es]
  by (auto simp: wq_ok_def intro: inj_on_subset)

lemma wq_ok_list_del: "wq_ok q \<Longrightarrow> wq_ok (list_del_entry e q)"
  by (rule wq_ok_remove1s [where q = q and es = "[e]"]) (auto simp: list_del_entry_def)

lemma wq_ok_wake:
  assumes "wq_ok q"
  shows "wq_ok (wake_up_common ra mode nr q)"
proof -
  have d: "distinct (task_list q)" "inj_on (owner q) (set (task_list q))"
    using assms by (simp_all add: wq_ok_def)
  note eff = wake_up_entries_effect [of "task_list q" q ra mode nr, OF d]
  show ?thesis
    unfolding wake_up_common_def using wq_ok_remove1s [of q "wake_up_entries ra mode nr (task_list q) q"] assms eff(1,3)
    by blast
qed

text \<open>The invariant looks at the owners and kinds of the queued entries only.\<close>

lemma wq_ok_cong:
  assumes "task_list q' = task_list q" "\<And>d. d \<in> set (task_list q) \<Longrightarrow> owner q' d = owner q d \<and> exclusive q' d = exclusive q d"
  shows "wq_ok q' = wq_ok q"
proof -
  have "inj_on (owner q') (set (task_list q)) = inj_on (owner q) (set (task_list q))"
    by (rule inj_on_cong) (simp add: assms(2))
  moreover have "map (exclusive q') (task_list q) = map (exclusive q) (task_list q)"
    by (rule map_cong) (simp_all add: assms(2))
  ultimately show ?thesis by (simp add: wq_ok_def assms(1) del: map_eq_conv)
qed

lemma wq_ok_entry: "e \<notin> set (task_list q) \<Longrightarrow> wq_ok (q\<lparr>entry := (entry q)(e := x)\<rparr>) = wq_ok q"
  by (rule wq_ok_cong) auto

lemma wq_ok_add_head:
  assumes "wq_ok q" "may_queue e q" "\<not> exclusive q e"
  shows "wq_ok (add_wait_queue_head e q)"
  using assms by (auto simp: wq_ok_def may_queue_def add_wait_queue_head_def)

lemma wq_ok_add_tail:
  assumes "wq_ok q" "may_queue e q" "exclusive q e"
  shows "wq_ok (add_wait_queue_tail e q)"
  using assms by (auto simp: wq_ok_def may_queue_def add_wait_queue_tail_def sorted_append)

lemma may_queue_set_exclusive [simp]: "may_queue e (set_exclusive b e q) = may_queue e q"
  by (auto simp: may_queue_def set_exclusive_def image_def)

lemma set_exclusive_self [simp]:
  "exclusive (set_exclusive b e q) e = b" "task_list (set_exclusive b e q) = task_list q"
  "owner (set_exclusive b e q) d = owner q d"
  by (simp_all add: set_exclusive_def)

lemma wq_ok_set_exclusive:
  assumes "wq_ok q" "e \<notin> set (task_list q) \<or> exclusive q e = b"
  shows "wq_ok (set_exclusive b e q)"
proof -
  have "wq_ok (set_exclusive b e q) = wq_ok q"
    using assms(2) by (intro wq_ok_cong) (auto simp: set_exclusive_def)
  then show ?thesis using assms(1) by simp
qed

lemmas wq_op_defs = init_waitqueue_entry_def define_wait_def add_wait_queue_def add_wait_queue_exclusive_def
  add_wait_queue_tail_exclusive_def remove_wait_queue_def prepare_to_wait_def prepare_to_wait_exclusive_def
  finish_wait_def abort_exclusive_wait_def sleep_on_leave_def wake_up_def wake_up_locked_def

lemmas wq_ok_intros = wq_ok_list_del wq_ok_wake wq_ok_add_head wq_ok_add_tail wq_ok_set_exclusive

lemma wq_step_ok: "wq_step q q' \<Longrightarrow> wq_ok q \<Longrightarrow> wq_ok q'"
proof (induction rule: wq_step.induct)
  case (wq_sleep e q p st)
  then have "may_queue e (set_state p (state_bits st) (init_waitqueue_entry e p q))"
    by (auto simp: may_queue_def set_state_def init_waitqueue_entry_def split: if_splits)
  then show ?case
    using wq_sleep unfolding sleep_on_enter_def
    by (intro wq_ok_add_head) (simp_all add: init_waitqueue_entry_def wq_ok_entry)
qed (auto simp: wq_op_defs wq_ok_entry Let_def intro!: wq_ok_intros simp: may_queue_def)

section \<open>Properties\<close>

definition blank_wq :: waitq where
  "blank_wq = \<lparr>task_list = [], entry = (\<lambda>_. \<lparr>we_exclusive = False, we_task = 0, we_func = default_wake\<rparr>),
     tstate = (\<lambda>_. TASK_RUNNING), wq_emitted = []\<rparr>"

lemma init_waitqueue_ok: "wq_ok (init_waitqueue_head q)"
  by (simp add: init_waitqueue_head_def wq_ok_def)

interpretation wq_runs: invariant_run wq_step "\<lambda>q. \<exists>q0. q = init_waitqueue_head q0" wq_ok
  by unfold_locales (auto intro: init_waitqueue_ok wq_step_ok)

lemmas wq_reach_ok = wq_runs.reach_good [OF _ exI, OF _ refl]

lemma fold_remove1_filter: "distinct xs \<Longrightarrow> fold remove1 es xs = filter (\<lambda>x. x \<notin> set es) xs"
  by (induction es arbitrary: xs) (auto simp: distinct_remove1_removeAll removeAll_filter_not_eq intro: filter_cong)

definition lucky :: "u32 \<Rightarrow> int \<Rightarrow> waitq \<Rightarrow> nat list" where
  "lucky mode nr q = filter (\<lambda>e. asleep mode q e \<and> \<not> exclusive q e) (task_list q)
     @ upto_nr nr (filter (\<lambda>e. asleep mode q e \<and> exclusive q e) (task_list q))"

lemma wake_up_common_effect:
  assumes "wq_ok q"
  shows "tstate (wake_up_common ra mode nr q) =
      (\<lambda>t. if t \<in> owner q ` set (lucky mode nr q) then TASK_RUNNING else tstate q t)"
    "task_list (wake_up_common ra mode nr q) =
      filter (\<lambda>e. \<not> (e \<in> set (lucky mode nr q) \<and> we_func (entry q e) = autoremove_wake)) (task_list q)"
    "entry (wake_up_common ra mode nr q) = entry q"
proof -
  have ok: "distinct (task_list q)" "inj_on (owner q) (set (task_list q))" "sorted (map (exclusive q) (task_list q))"
    using assms by (simp_all add: wq_ok_def)
  note eff = wake_up_entries_effect [of "task_list q" q ra mode nr, OF ok(1,2),
      unfolded woken_by_sorted [OF ok(3)], folded lucky_def]
  show "tstate (wake_up_common ra mode nr q) =
      (\<lambda>t. if t \<in> owner q ` set (lucky mode nr q) then TASK_RUNNING else tstate q t)"
    "entry (wake_up_common ra mode nr q) = entry q"
    unfolding wake_up_common_def eff TASK_RUNNING_def by (rule refl)+
  show "task_list (wake_up_common ra mode nr q) =
      filter (\<lambda>e. \<not> (e \<in> set (lucky mode nr q) \<and> we_func (entry q e) = autoremove_wake)) (task_list q)"
    unfolding wake_up_common_def eff fold_remove1_filter [OF ok(1)] by (rule filter_cong) auto
qed

text \<open>
  What the code that owns a wait queue relies on, whichever of the wake-up functions it calls: the
  sleepers that the mode and the number select run, every other task keeps its state, and only
  entries that remove themselves leave the queue.
\<close>

locale waker =
  fixes wake :: "u32 \<Rightarrow> int \<Rightarrow> waitq \<Rightarrow> waitq"
  assumes wake_tstate: "wq_ok q \<Longrightarrow> tstate (wake mode nr q) =
      (\<lambda>t. if t \<in> owner q ` set (lucky mode nr q) then TASK_RUNNING else tstate q t)"
    and wake_task_list: "wq_ok q \<Longrightarrow> task_list (wake mode nr q) =
      filter (\<lambda>e. \<not> (e \<in> set (lucky mode nr q) \<and> we_func (entry q e) = autoremove_wake)) (task_list q)"
    and wake_entry: "wq_ok q \<Longrightarrow> entry (wake mode nr q) = entry q"

interpretation common_waker: waker "wake_up_common ra" for ra
  by unfold_locales (rule wake_up_common_effect; assumption)+


definition demo_wq :: waitq where
  "demo_wq = prepare_to_wait_exclusive 2 1 (define_wait 2 20
     (prepare_to_wait_exclusive 1 1 (define_wait 1 10 (init_waitqueue_head blank_wq))))"

lemmas demo_wq_simps = demo_wq_def init_waitqueue_head_def define_wait_def prepare_to_wait_exclusive_def
  set_exclusive_def add_wait_queue_tail_def set_state_def blank_wq_def TASK_RUNNING_def

lemma demo_wq_reach: "wq_step\<^sup>*\<^sup>* (init_waitqueue_head blank_wq) demo_wq"
proof -
  let ?q0 = "init_waitqueue_head blank_wq"
  let ?q1 = "define_wait 1 10 ?q0"
  let ?q2 = "prepare_to_wait_exclusive 1 1 ?q1"
  let ?q3 = "define_wait 2 20 ?q2"
  have "wq_step ?q0 ?q1" by (rule wq_define) (simp add: demo_wq_simps)
  moreover have "wq_step ?q1 ?q2" by (rule wq_prepare_ex) (simp add: demo_wq_simps may_queue_def)
  moreover have "wq_step ?q2 ?q3" by (rule wq_define) (simp add: demo_wq_simps Let_def)
  moreover have "wq_step ?q3 demo_wq"
    unfolding demo_wq_def by (rule wq_prepare_ex) (simp add: demo_wq_simps may_queue_def Let_def)
  ultimately show ?thesis by (meson converse_rtranclp_into_rtranclp rtranclp.rtrancl_refl)
qed


text \<open>
  (C30) An exclusive waiter that gives up does not swallow a wake-up: if it was woken already (its
  entry is off the queue), the next exclusive sleeper is woken in its place, and no other
  exclusive one.
\<close>

theorem abort_passes_wakeup:
  assumes "wq_step\<^sup>*\<^sup>* (init_waitqueue_head q0) q" "e \<notin> set (task_list q)"
    "owner q e \<notin> owner q ` set (task_list q)"
    "filter (\<lambda>d. asleep mode q d \<and> exclusive q d) (task_list q) = d # ds"
  shows "tstate (abort_exclusive_wait ra e mode q) (owner q d) = TASK_RUNNING
    \<and> (\<forall>c\<in>set ds. tstate (abort_exclusive_wait ra e mode q) (owner q c) = tstate q (owner q c))"
proof -
  let ?q = "set_state (owner q e) TASK_RUNNING q"
  have ok: "wq_ok q" by (rule wq_reach_ok [OF assms(1)])
  have in_l: "set (d # ds) \<subseteq> set (task_list q)" "distinct (d # ds)" "\<forall>c\<in>set (d # ds). exclusive q c"
    using assms(4) ok by (force simp: wq_ok_def dest: arg_cong [where f = set] arg_cong [where f = distinct])+
  have same: "asleep mode ?q c = asleep mode q c" if "c \<in> set (task_list q)" for c
  proof -
    have "owner q c \<noteq> owner q e" using that assms(3) by (metis imageI)
    then show ?thesis by (simp add: asleep_def set_state_def)
  qed
  have lucky: "lucky mode 1 ?q = filter (\<lambda>e. asleep mode q e \<and> \<not> exclusive q e) (task_list q) @ [d]"
    using assms(4) same by (simp add: lucky_def upto_nr_def set_state_def cong: filter_cong)
  have "task_list q \<noteq> []" using in_l by auto
  then have "tstate (abort_exclusive_wait ra e mode q) = tstate (wake_up_common ra mode 1 ?q)"
    using assms(2) by (simp add: abort_exclusive_wait_def wake_up_locked_def waitqueue_active_def set_state_def)
  also have "\<dots> = (\<lambda>t. if t \<in> owner q ` set (lucky mode 1 ?q) then TASK_RUNNING else tstate ?q t)"
    using wake_up_common_effect(1) [of ?q ra mode 1] ok by simp
  finally have t: "tstate (abort_exclusive_wait ra e mode q) =
    (\<lambda>t. if t \<in> owner q ` set (lucky mode 1 ?q) then TASK_RUNNING else tstate ?q t)" .
  have "owner q c \<notin> owner q ` set (lucky mode 1 ?q) \<and> owner q c \<noteq> owner q e" if "c \<in> set ds" for c
  proof -
    have c: "c \<in> set (task_list q)" "exclusive q c" "c \<noteq> d" using that in_l by auto
    have "x = c" if "x \<in> set (task_list q)" "owner q c = owner q x" for x
      using that c(1) ok unfolding wq_ok_def inj_on_def by metis
    moreover have "owner q c \<noteq> owner q e" using c(1) assms(3) by (metis imageI)
    ultimately show ?thesis using c in_l(1) unfolding lucky by auto
  qed
  moreover have "owner q d \<in> owner q ` set (lucky mode 1 ?q)" by (simp add: lucky)
  moreover have "tstate ?q u = tstate q u" if "u \<noteq> owner q e" for u
    using that by (simp add: set_state_def)
  ultimately show ?thesis by (simp add: t)
qed

theorem abort_passes_wakeup_witness:
  "tstate (abort_exclusive_wait 0x8000 3 TASK_NORMAL demo_wq) 10 = TASK_RUNNING
    \<and> tstate (abort_exclusive_wait 0x8000 3 TASK_NORMAL demo_wq) 20 = 1"
proof -
  have "3 \<notin> set (task_list demo_wq)" "owner demo_wq 3 \<notin> owner demo_wq ` set (task_list demo_wq)"
    "filter (\<lambda>d. asleep TASK_NORMAL demo_wq d \<and> exclusive demo_wq d) (task_list demo_wq) = [1, 2]"
    "owner demo_wq 1 = 10" "owner demo_wq 2 = 20" "tstate demo_wq 20 = 1"
    by (simp_all add: asleep_def TASK_NORMAL_def) (simp_all add: demo_wq_simps Let_def)
  with abort_passes_wakeup [OF demo_wq_reach this(1-3), of "0x8000"] show ?thesis by simp
qed

end
