(* ===== verification/Completion.thy ===== *)
theory Completion
  imports WaitQueue
begin

text \<open>
  Completions: \<open>include/linux/completion.h\<close> and their functions in \<open>kernel/sched.c\<close>, with the
  tracepoints the framework added. A completion has a counter and a wait queue; a task waits with
  an entry on its stack, which has the number of the task. A waiting call is cut at
  \<open>schedule_timeout\<close>, where it gives the lock back.
\<close>

section \<open>State\<close>

record completion_waiter =
  cw_state :: task_state
  cw_timeout :: int

record completion =
  c_addr :: addr
  done_count :: u32
  c_wait :: waitq
  c_waiters :: "nat \<Rightarrow> completion_waiter option"

definition ERESTARTSYS :: int where "ERESTARTSYS = 512"

definition init_completion :: "completion \<Rightarrow> completion" where
  "init_completion x = x\<lparr>done_count := 0, c_wait := init_waitqueue_head (c_wait x)\<rparr>"

text \<open>
  The calls pass \<open>STATE_GLOBAL\<close> as the scope; the parameter has another enumeration type, in which
  the same number is \<open>SYNCH_GLOBAL\<close>.
\<close>

definition trace_completion :: "synch_tp \<Rightarrow> completion \<Rightarrow> completion" where
  "trace_completion tp x = x\<lparr>c_wait := (c_wait x)\<lparr>wq_emitted := wq_emitted (c_wait x) @ [Synch tp]\<rparr>\<rparr>"

section \<open>Completing\<close>

definition UINT_MAX :: u32 where "UINT_MAX = 4294967295"

definition complete :: "addr \<Rightarrow> addr \<Rightarrow> completion \<Rightarrow> completion" where
  "complete ra ra' x0 =
     (let x = trace_completion (Tp_complete ra (c_addr x0) SYNCH_GLOBAL) x0
      in x\<lparr>done_count := done_count x + 1, c_wait := wake_up_common ra' TASK_NORMAL 1 (c_wait x)\<rparr>)"

definition complete_all :: "addr \<Rightarrow> addr \<Rightarrow> completion \<Rightarrow> completion" where
  "complete_all ra ra' x0 =
     (let x = trace_completion (Tp_complete_all ra (c_addr x0) SYNCH_GLOBAL) x0
      in x\<lparr>done_count := done_count x + UINT_MAX div 2, c_wait := wake_up_common ra' TASK_NORMAL 0 (c_wait x)\<rparr>)"

section \<open>Waiting\<close>

type_synonym wait_result = "int option \<times> completion"

text \<open>\<open>schedule_timeout\<close> runs on at once if the timeout is negative.\<close>

definition schedule_enter :: "nat \<Rightarrow> int \<Rightarrow> waitq \<Rightarrow> waitq" where
  "schedule_enter t timeout q = (if timeout < 0 then set_state t TASK_RUNNING q else q)"

text \<open>The end of \<open>do_wait_for_common\<close>, behind the loop and without it.\<close>

definition wait_take :: "int \<Rightarrow> completion \<Rightarrow> wait_result" where
  "wait_take timeout x =
     (Some (if timeout = 0 then 1 else timeout), x\<lparr>done_count := done_count x - 1\<rparr>)"

definition wait_leave :: "nat \<Rightarrow> int \<Rightarrow> completion \<Rightarrow> wait_result" where
  "wait_leave t timeout x0 =
     (let x = x0\<lparr>c_wait := list_del_entry t (c_wait x0), c_waiters := (c_waiters x0)(t := None)\<rparr> in
      if done_count x = 0 then (Some timeout, x) else wait_take timeout x)"

text \<open>The body of the loop up to the release of the lock.\<close>

definition wait_loop :: "signals \<Rightarrow> nat \<Rightarrow> completion_waiter \<Rightarrow> completion \<Rightarrow> wait_result" where
  "wait_loop sig t w x =
     (if signal_pending_state (cw_state w) sig then wait_leave t (- ERESTARTSYS) x
      else (None, x\<lparr>c_wait := schedule_enter t (cw_timeout w) (set_state t (state_bits (cw_state w)) (c_wait x)),
                    c_waiters := (c_waiters x)(t \<mapsto> w)\<rparr>))"

definition wait_for_common :: "signals \<Rightarrow> nat \<Rightarrow> int \<Rightarrow> task_state \<Rightarrow> completion \<Rightarrow> wait_result" where
  "wait_for_common sig t timeout state x =
     (if done_count x = 0
      then let w = \<lparr>cw_state = state, cw_timeout = timeout\<rparr>
           in wait_loop sig t w
                (x\<lparr>c_wait := add_wait_queue_tail_exclusive t (init_waitqueue_entry t t (c_wait x)),
                   c_waiters := (c_waiters x)(t \<mapsto> w)\<rparr>)
      else wait_take timeout x)"

text \<open>A task that waits runs again; \<open>left\<close> is the result of \<open>schedule_timeout\<close>.\<close>

definition wait_wake :: "signals \<Rightarrow> int \<Rightarrow> nat \<Rightarrow> completion \<Rightarrow> wait_result" where
  "wait_wake sig left t x =
     (case c_waiters x t of
        None \<Rightarrow> (None, x)
      | Some w \<Rightarrow>
          if done_count x = 0 \<and> left \<noteq> 0 then wait_loop sig t (w\<lparr>cw_timeout := left\<rparr>) x
          else wait_leave t left x)"

text \<open>
  The calls. Those without a timeout turn the result of \<open>wait_for_common\<close> into 0 or an error when it
  is there.
\<close>

definition intr_result :: "int \<Rightarrow> int" where
  "intr_result v = (if v = - ERESTARTSYS then v else 0)"

definition wait_for_completion :: "addr \<Rightarrow> signals \<Rightarrow> nat \<Rightarrow> completion \<Rightarrow> wait_result" where
  "wait_for_completion ra sig t x =
     wait_for_common sig t MAX_SCHEDULE_TIMEOUT TASK_UNINTERRUPTIBLE
       (trace_completion (Tp_wait_for_completion ra (c_addr x) SYNCH_GLOBAL) x)"

definition wait_for_completion_timeout :: "addr \<Rightarrow> signals \<Rightarrow> nat \<Rightarrow> u32 \<Rightarrow> completion \<Rightarrow> wait_result" where
  "wait_for_completion_timeout ra sig t timeout x =
     wait_for_common sig t (sint timeout) TASK_UNINTERRUPTIBLE
       (trace_completion (Tp_wait_for_completion_timeout ra (c_addr x) timeout SYNCH_GLOBAL) x)"

definition wait_for_completion_interruptible :: "addr \<Rightarrow> signals \<Rightarrow> nat \<Rightarrow> completion \<Rightarrow> wait_result" where
  "wait_for_completion_interruptible ra sig t x =
     apfst (map_option intr_result) (wait_for_common sig t MAX_SCHEDULE_TIMEOUT TASK_INTERRUPTIBLE
       (trace_completion (Tp_wait_for_completion_interruptible ra (c_addr x) SYNCH_GLOBAL) x))"

definition wait_for_completion_interruptible_timeout ::
    "addr \<Rightarrow> signals \<Rightarrow> nat \<Rightarrow> u32 \<Rightarrow> completion \<Rightarrow> wait_result" where
  "wait_for_completion_interruptible_timeout ra sig t timeout x =
     wait_for_common sig t (sint timeout) TASK_INTERRUPTIBLE
       (trace_completion (Tp_wait_for_completion_interruptible_timeout ra (c_addr x) timeout SYNCH_GLOBAL) x)"

definition wait_for_completion_killable :: "addr \<Rightarrow> signals \<Rightarrow> nat \<Rightarrow> completion \<Rightarrow> wait_result" where
  "wait_for_completion_killable ra sig t x =
     apfst (map_option intr_result) (wait_for_common sig t MAX_SCHEDULE_TIMEOUT TASK_KILLABLE
       (trace_completion (Tp_wait_for_completion_killable ra (c_addr x) SYNCH_GLOBAL) x))"

definition wait_for_completion_killable_timeout ::
    "addr \<Rightarrow> signals \<Rightarrow> nat \<Rightarrow> u32 \<Rightarrow> completion \<Rightarrow> wait_result" where
  "wait_for_completion_killable_timeout ra sig t timeout x =
     wait_for_common sig t (sint timeout) TASK_KILLABLE
       (trace_completion (Tp_wait_for_completion_killable_timeout ra (c_addr x) timeout SYNCH_GLOBAL) x)"

definition try_wait_for_completion :: "addr \<Rightarrow> completion \<Rightarrow> bool \<times> completion" where
  "try_wait_for_completion ra x0 =
     (let x = trace_completion (Tp_try_wait_for_completion ra (c_addr x0) SYNCH_GLOBAL) x0 in
      if done_count x = 0 then (False, x) else (True, x\<lparr>done_count := done_count x - 1\<rparr>))"

definition completion_done :: "completion \<Rightarrow> bool" where
  "completion_done x = (done_count x \<noteq> 0)"

section \<open>Runs\<close>

text \<open>
  A run counts the calls of \<open>complete\<close> and the waits that took a completion. A task that waits does
  not call again before it has its result. Timers and signals may make a waiting task run at any
  time, \<open>schedule_timeout\<close> returns what is left of the time, and without a timeout the special
  value it was given.
\<close>

record comp_run =
  cr_comp :: completion
  cr_completed :: nat
  cr_served :: nat

definition positive :: "int option \<Rightarrow> bool" where
  "positive v = (case v of None \<Rightarrow> False | Some n \<Rightarrow> 0 < n)"

definition note_result :: "bool \<Rightarrow> completion \<Rightarrow> comp_run \<Rightarrow> comp_run" where
  "note_result ok x' r = r\<lparr>cr_comp := x', cr_served := cr_served r + (if ok then 1 else 0)\<rparr>"

text \<open>
  What the caller takes for success: any return of the plain call, 0 from the interruptible ones, a
  positive rest of the time from those with a timeout. Timeouts are below $2^{31}$ jiffies.
\<close>

inductive comp_step :: "comp_run \<Rightarrow> comp_run \<Rightarrow> bool" where
  cs_wait: "c_waiters (cr_comp r) t = None \<Longrightarrow> wait_for_completion ra sig t (cr_comp r) = (v, x') \<Longrightarrow>
    comp_step r (note_result (v \<noteq> None) x' r)"
| cs_timeout: "c_waiters (cr_comp r) t = None \<Longrightarrow> 0 \<le> sint j \<Longrightarrow>
    wait_for_completion_timeout ra sig t j (cr_comp r) = (v, x') \<Longrightarrow> comp_step r (note_result (positive v) x' r)"
| cs_int: "c_waiters (cr_comp r) t = None \<Longrightarrow> wait_for_completion_interruptible ra sig t (cr_comp r) = (v, x') \<Longrightarrow>
    comp_step r (note_result (v = Some 0) x' r)"
| cs_int_timeout: "c_waiters (cr_comp r) t = None \<Longrightarrow> 0 \<le> sint j \<Longrightarrow>
    wait_for_completion_interruptible_timeout ra sig t j (cr_comp r) = (v, x') \<Longrightarrow>
    comp_step r (note_result (positive v) x' r)"
| cs_kill: "c_waiters (cr_comp r) t = None \<Longrightarrow> wait_for_completion_killable ra sig t (cr_comp r) = (v, x') \<Longrightarrow>
    comp_step r (note_result (v = Some 0) x' r)"
| cs_kill_timeout: "c_waiters (cr_comp r) t = None \<Longrightarrow> 0 \<le> sint j \<Longrightarrow>
    wait_for_completion_killable_timeout ra sig t j (cr_comp r) = (v, x') \<Longrightarrow>
    comp_step r (note_result (positive v) x' r)"
| cs_try: "try_wait_for_completion ra (cr_comp r) = (ok, x') \<Longrightarrow> comp_step r (note_result ok x' r)"
| cs_wake: "c_waiters (cr_comp r) t = Some w \<Longrightarrow> tstate (c_wait (cr_comp r)) t = TASK_RUNNING \<Longrightarrow>
    0 \<le> left \<Longrightarrow> cw_timeout w = MAX_SCHEDULE_TIMEOUT \<longrightarrow> left = MAX_SCHEDULE_TIMEOUT \<Longrightarrow>
    wait_wake sig left t (cr_comp r) = (v, x') \<Longrightarrow>
    comp_step r (note_result (if cw_timeout w = MAX_SCHEDULE_TIMEOUT \<and> cw_state w = TASK_UNINTERRUPTIBLE
      then v \<noteq> None else positive v) x' r)"
| cs_event: "c_waiters (cr_comp r) t = Some w \<Longrightarrow>
    comp_step r (r\<lparr>cr_comp := (cr_comp r)\<lparr>c_wait := set_state t TASK_RUNNING (c_wait (cr_comp r))\<rparr>\<rparr>)"
| cs_complete: "comp_step r (r\<lparr>cr_comp := complete ra ra' (cr_comp r), cr_completed := cr_completed r + 1\<rparr>)"
| cs_complete_all: "comp_step r (r\<lparr>cr_comp := complete_all ra ra' (cr_comp r),
    cr_completed := cr_completed r + unat (UINT_MAX div 2)\<rparr>)"

section \<open>No completion is lost\<close>

definition sleepers :: "completion \<Rightarrow> nat list" where
  "sleepers x = filter (\<lambda>t. tstate (c_wait x) t \<noteq> TASK_RUNNING) (task_list (c_wait x))"

definition runners :: "completion \<Rightarrow> nat list" where
  "runners x = filter (\<lambda>t. tstate (c_wait x) t = TASK_RUNNING) (task_list (c_wait x))"

definition comp_ok :: "completion \<Rightarrow> bool" where
  "comp_ok x \<longleftrightarrow> distinct (task_list (c_wait x))
     \<and> (\<forall>t. t \<in> set (task_list (c_wait x)) \<longleftrightarrow> c_waiters x t \<noteq> None)
     \<and> (\<forall>t w. c_waiters x t = Some w \<longrightarrow>
          entry (c_wait x) t = \<lparr>we_exclusive = True, we_task = t, we_func = default_wake\<rparr>
          \<and> tstate (c_wait x) t \<in> {TASK_RUNNING, state_bits (cw_state w)})
     \<and> (\<forall>t. c_waiters x t = None \<longrightarrow> tstate (c_wait x) t = TASK_RUNNING)"

definition none_lost :: "completion \<Rightarrow> bool" where
  "none_lost x \<longleftrightarrow> (sleepers x \<noteq> [] \<longrightarrow> unat (done_count x) \<le> length (runners x))"

lemma sleepers_runners: "length (sleepers x) + length (runners x) = length (task_list (c_wait x))"
  using sum_length_filter_compl [of "\<lambda>t. tstate (c_wait x) t = TASK_RUNNING" "task_list (c_wait x)"]
  by (simp add: sleepers_def runners_def)

lemma trace_completion_fields [simp]:
  "done_count (trace_completion tp x) = done_count x" "c_waiters (trace_completion tp x) = c_waiters x"
  "task_list (c_wait (trace_completion tp x)) = task_list (c_wait x)"
  "entry (c_wait (trace_completion tp x)) = entry (c_wait x)"
  "tstate (c_wait (trace_completion tp x)) = tstate (c_wait x)"
  by (simp_all add: trace_completion_def)

lemma trace_completion_ok [simp]:
  "comp_ok (trace_completion tp x) = comp_ok x" "none_lost (trace_completion tp x) = none_lost x"
  "sleepers (trace_completion tp x) = sleepers x"
  by (simp_all add: comp_ok_def none_lost_def sleepers_def runners_def)

subsection \<open>Waking\<close>

lemma state_bits_normal: "state_bits s AND TASK_NORMAL \<noteq> 0"
  by (cases s) (simp_all add: TASK_NORMAL_def)

context waker
begin

lemma comp_wake:
  assumes "comp_ok x"
  shows "tstate (wake TASK_NORMAL nr (c_wait x)) =
      (\<lambda>t. if t \<in> set (upto_nr nr (sleepers x)) then TASK_RUNNING else tstate (c_wait x) t)"
    "task_list (wake TASK_NORMAL nr (c_wait x)) = task_list (c_wait x)"
    "entry (wake TASK_NORMAL nr (c_wait x)) = entry (c_wait x)"
proof -
  let ?q = "c_wait x"
  have e: "entry ?q t = \<lparr>we_exclusive = True, we_task = t, we_func = default_wake\<rparr>
      \<and> asleep TASK_NORMAL ?q t = (tstate ?q t \<noteq> TASK_RUNNING)" if t: "t \<in> set (task_list ?q)" for t
  proof -
    obtain w where "c_waiters x t = Some w" using assms t by (auto simp: comp_ok_def)
    then have "entry ?q t = \<lparr>we_exclusive = True, we_task = t, we_func = default_wake\<rparr>"
      "tstate ?q t = 0 \<or> tstate ?q t = state_bits (cw_state w)"
      using assms by (auto simp: comp_ok_def TASK_RUNNING_def)
    then show ?thesis
      using state_bits_normal [of "cw_state w"] by (elim disjE) (auto simp: asleep_def TASK_RUNNING_def)
  qed
  have "inj_on (owner ?q) (set (task_list ?q))" by (rule inj_onI) (simp add: e)
  moreover have "map (exclusive ?q) (task_list ?q) = map (\<lambda>_. True) (task_list ?q)" by (simp add: e)
  then have "sorted (map (exclusive ?q) (task_list ?q))" by (simp only: sorted_map) (simp add: sorted_wrt_iff_nth_less)
  ultimately have ok: "wq_ok ?q" using assms by (simp add: wq_ok_def comp_ok_def)
  have nil: "filter (\<lambda>e. asleep TASK_NORMAL ?q e \<and> \<not> exclusive ?q e) (task_list ?q) = []"
    by (simp add: filter_empty_conv e)
  have "filter (\<lambda>e. asleep TASK_NORMAL ?q e \<and> exclusive ?q e) (task_list ?q) = sleepers x"
    unfolding sleepers_def by (rule filter_cong) (simp_all add: e)
  then have l: "lucky TASK_NORMAL nr ?q = upto_nr nr (sleepers x)" using nil by (simp add: lucky_def)
  have sub: "set (upto_nr nr (sleepers x)) \<subseteq> set (task_list ?q)"
    by (auto simp: upto_nr_def sleepers_def dest: in_set_takeD)
  then have "owner ?q ` set (upto_nr nr (sleepers x)) = id ` set (upto_nr nr (sleepers x))"
    using e by (intro image_cong) auto
  then show "tstate (wake TASK_NORMAL nr ?q) =
      (\<lambda>t. if t \<in> set (upto_nr nr (sleepers x)) then TASK_RUNNING else tstate ?q t)"
    using wake_tstate [OF ok, of TASK_NORMAL nr] by (simp add: l)
  show "task_list (wake TASK_NORMAL nr ?q) = task_list ?q"
    unfolding wake_task_list [OF ok] by (rule filter_True) (auto simp: e)
  show "entry (wake TASK_NORMAL nr ?q) = entry ?q" by (rule wake_entry [OF ok])
qed

text \<open>A wake-up takes its tasks out of the sleepers and keeps the rest of the invariant.\<close>

lemma comp_wake_ok:
  assumes "comp_ok x" "x' = x\<lparr>done_count := d, c_wait := wake TASK_NORMAL nr (c_wait x)\<rparr>"
  shows "comp_ok x'" "sleepers x' = filter (\<lambda>t. t \<notin> set (upto_nr nr (sleepers x))) (sleepers x)"
  using assms comp_wake [OF assms(1), of nr]
  by (auto simp: comp_ok_def sleepers_def TASK_RUNNING_def intro: filter_cong)

end

lemma unat_plus_le: "unat (a + b) \<le> unat a + unat b" for a b :: u32
  by (simp add: unat_word_ariths)

lemma complete_ok:
  assumes "comp_ok x" "none_lost x"
  shows "comp_ok (complete ra ra' x) \<and> none_lost (complete ra ra' x)"
proof -
  let ?y = "trace_completion (Tp_complete ra (c_addr x) SYNCH_GLOBAL) x"
  have y: "comp_ok ?y" "sleepers ?y = sleepers x" using assms(1) by simp_all
  have c: "complete ra ra' x = ?y\<lparr>done_count := done_count x + 1, c_wait := wake_up_common ra' TASK_NORMAL 1 (c_wait ?y)\<rparr>"
    by (simp add: complete_def Let_def)
  note w = common_waker.comp_wake_ok [OF y(1) c]
  show ?thesis
  proof (cases "sleepers x")
    case Nil
    then show ?thesis using w by (simp add: none_lost_def y(2))
  next
    case (Cons t ts)
    have d: "distinct (sleepers x)" using assms(1) by (simp add: sleepers_def comp_ok_def)
    then have s: "sleepers (complete ra ra' x) = ts"
      using Cons w(2) by (auto simp: y(2) upto_nr_def filter_id_conv)
    have "length (task_list (c_wait (complete ra ra' x))) = length (task_list (c_wait x))"
      using common_waker.comp_wake(2) [OF y(1), of ra' 1] by (simp add: c)
    then have "length (runners (complete ra ra' x)) = length (runners x) + 1"
      using sleepers_runners [of x] sleepers_runners [of "complete ra ra' x"] s Cons by simp
    moreover have "unat (done_count (complete ra ra' x)) \<le> unat (done_count x) + 1"
      using unat_plus_le [of "done_count x" 1] by (simp add: c)
    ultimately show ?thesis using w(1) assms(2) Cons by (simp add: none_lost_def)
  qed
qed

lemma complete_all_ok:
  assumes "comp_ok x"
  shows "comp_ok (complete_all ra ra' x) \<and> sleepers (complete_all ra ra' x) = []"
proof -
  let ?y = "trace_completion (Tp_complete_all ra (c_addr x) SYNCH_GLOBAL) x"
  have y: "comp_ok ?y" using assms(1) by simp
  have c: "complete_all ra ra' x = ?y\<lparr>done_count := done_count x + UINT_MAX div 2,
      c_wait := wake_up_common ra' TASK_NORMAL 0 (c_wait ?y)\<rparr>"
    by (simp add: complete_all_def Let_def)
  from common_waker.comp_wake_ok [OF y c] show ?thesis by (simp add: upto_nr_def)
qed

subsection \<open>Waiting\<close>

lemma comp_ok_take: "comp_ok (x\<lparr>done_count := d\<rparr>) = comp_ok x"
  by (simp add: comp_ok_def)

lemma none_lost_take:
  assumes "none_lost x" "done_count x \<noteq> 0"
  shows "none_lost (x\<lparr>done_count := done_count x - 1\<rparr>)"
  using assms unat_dec [OF assms(2)] by (auto simp: none_lost_def sleepers_def runners_def)

lemma none_lost_0: "done_count x = 0 \<Longrightarrow> none_lost x"
  by (simp add: none_lost_def)

lemma wait_leave_ok:
  assumes "comp_ok x" "none_lost x" "c_waiters x t = Some w"
    "tstate (c_wait x) t = TASK_RUNNING"
  shows "comp_ok (snd (wait_leave t v x)) \<and> none_lost (snd (wait_leave t v x))"
proof -
  let ?x = "x\<lparr>c_wait := list_del_entry t (c_wait x), c_waiters := (c_waiters x)(t := None)\<rparr>"
  have t: "t \<in> set (task_list (c_wait x))" "distinct (task_list (c_wait x))"
    using assms(1,3) by (auto simp: comp_ok_def)
  have ok: "comp_ok ?x"
    using assms(1,4) t by (auto simp: comp_ok_def list_del_entry_def split: if_splits)
  show ?thesis
  proof (cases "done_count x = 0")
    case True
    then show ?thesis using ok by (simp add: wait_leave_def Let_def none_lost_0)
  next
    case False
    have r: "t \<in> set (runners x)" using assms(4) t by (simp add: runners_def)
    have "runners ?x = remove1 t (runners x)" "sleepers ?x = remove1 t (sleepers x)"
      by (simp_all add: runners_def sleepers_def list_del_entry_def filter_remove1)
    moreover have "unat (done_count x - 1) = unat (done_count x) - 1" using unat_dec [OF False] by simp
    ultimately have "none_lost (?x\<lparr>done_count := done_count x - 1\<rparr>)"
      using assms(2) r by (auto simp: none_lost_def length_remove1 runners_def sleepers_def)
    moreover have "wait_leave t v x = wait_take v ?x" using False by (simp add: wait_leave_def Let_def)
    ultimately show ?thesis using ok by (simp add: wait_take_def comp_ok_take)
  qed
qed

lemma wait_loop_ok:
  assumes "comp_ok x" "c_waiters x t = Some w0" "done_count x = 0" "cw_state w = cw_state w0"
    "tstate (c_wait x) t = TASK_RUNNING"
  shows "comp_ok (snd (wait_loop sig t w x)) \<and> none_lost (snd (wait_loop sig t w x))"
proof (cases "signal_pending_state (cw_state w) sig")
  case True
  then show ?thesis
    using wait_leave_ok [of x t w0 "- ERESTARTSYS"] assms by (simp add: wait_loop_def none_lost_0)
next
  case False
  let ?x = "snd (wait_loop sig t w x)"
  have x: "?x = x\<lparr>c_wait := schedule_enter t (cw_timeout w) (set_state t (state_bits (cw_state w)) (c_wait x)),
      c_waiters := (c_waiters x)(t \<mapsto> w)\<rparr>"
    using False by (simp add: wait_loop_def)
  have "comp_ok ?x"
    unfolding x using assms by (auto simp: comp_ok_def schedule_enter_def set_state_def)
  moreover have "done_count ?x = 0" by (simp add: x assms(3))
  ultimately show ?thesis by (simp add: none_lost_0)
qed

lemma wait_for_common_ok:
  assumes "comp_ok x" "none_lost x" "c_waiters x t = None"
  shows "comp_ok (snd (wait_for_common sig t timeout state x))
    \<and> none_lost (snd (wait_for_common sig t timeout state x))"
proof (cases "done_count x = 0")
  case False
  then show ?thesis
    using assms by (simp add: wait_for_common_def wait_take_def comp_ok_take none_lost_take)
next
  case True
  let ?w = "\<lparr>cw_state = state, cw_timeout = timeout\<rparr>"
  let ?x = "x\<lparr>c_wait := add_wait_queue_tail_exclusive t (init_waitqueue_entry t t (c_wait x)),
      c_waiters := (c_waiters x)(t \<mapsto> ?w)\<rparr>"
  have t: "t \<notin> set (task_list (c_wait x))" "tstate (c_wait x) t = TASK_RUNNING"
    using assms(1,3) by (auto simp: comp_ok_def)
  have "comp_ok ?x"
    using assms(1) t by (auto simp: comp_ok_def add_wait_queue_tail_exclusive_def add_wait_queue_tail_def
        set_exclusive_def init_waitqueue_entry_def)
  then show ?thesis
    using wait_loop_ok [of ?x t ?w ?w sig] True t(2)
    by (simp add: wait_for_common_def Let_def add_wait_queue_tail_exclusive_def add_wait_queue_tail_def
        set_exclusive_def init_waitqueue_entry_def)
qed

lemma wait_wake_ok:
  assumes "comp_ok x" "none_lost x" "c_waiters x t = Some w" "tstate (c_wait x) t = TASK_RUNNING"
  shows "comp_ok (snd (wait_wake sig left t x)) \<and> none_lost (snd (wait_wake sig left t x))"
  using wait_leave_ok [OF assms] wait_loop_ok [OF assms(1,3), of "w\<lparr>cw_timeout := left\<rparr>"] assms(3,4)
  by (simp add: wait_wake_def)

lemma try_wait_ok:
  assumes "comp_ok x" "none_lost x"
  shows "comp_ok (snd (try_wait_for_completion ra x)) \<and> none_lost (snd (try_wait_for_completion ra x))"
  using assms none_lost_take [of "trace_completion (Tp_try_wait_for_completion ra (c_addr x) SYNCH_GLOBAL) x"]
  by (simp add: try_wait_for_completion_def Let_def comp_ok_take)

lemma length_filter_mono: "(\<And>x. P x \<Longrightarrow> Q x) \<Longrightarrow> length (filter P xs) \<le> length (filter Q xs)"
  by (induction xs) auto

lemma event_ok:
  assumes "comp_ok x" "none_lost x"
  shows "comp_ok (x\<lparr>c_wait := set_state t TASK_RUNNING (c_wait x)\<rparr>)
    \<and> none_lost (x\<lparr>c_wait := set_state t TASK_RUNNING (c_wait x)\<rparr>)"
proof -
  let ?x = "x\<lparr>c_wait := set_state t TASK_RUNNING (c_wait x)\<rparr>"
  have "set (sleepers ?x) \<subseteq> set (sleepers x)" by (auto simp: sleepers_def set_state_def)
  moreover have "length (runners x) \<le> length (runners ?x)"
    unfolding runners_def by (simp add: set_state_def) (rule length_filter_mono, simp)
  ultimately show ?thesis
    using assms by (auto simp: none_lost_def) (auto simp: comp_ok_def set_state_def)
qed
subsection \<open>What the results say\<close>

definition result_ok :: "bool \<Rightarrow> completion \<Rightarrow> completion \<Rightarrow> bool" where
  "result_ok ok x x' \<longleftrightarrow>
     (if ok then done_count x \<noteq> 0 \<and> done_count x' = done_count x - 1 else done_count x' = done_count x)"

lemma wait_loop_count:
  assumes "done_count x = 0"
  shows "result_ok (positive (fst (wait_loop sig t w x))) x (snd (wait_loop sig t w x))"
    "cw_state w = TASK_UNINTERRUPTIBLE \<Longrightarrow> fst (wait_loop sig t w x) = None"
    "fst (wait_loop sig t w x) \<in> {None, Some (- ERESTARTSYS)}"
  using assms by (auto simp: wait_loop_def wait_leave_def Let_def result_ok_def positive_def ERESTARTSYS_def
      signal_pending_state_def)

lemma wait_for_common_count:
  assumes "0 \<le> timeout"
  shows "result_ok (positive (fst (wait_for_common sig t timeout st x))) x (snd (wait_for_common sig t timeout st x))"
    "st = TASK_UNINTERRUPTIBLE \<Longrightarrow>
      (fst (wait_for_common sig t timeout st x) \<noteq> None) = positive (fst (wait_for_common sig t timeout st x))"
    "(map_option intr_result (fst (wait_for_common sig t timeout st x)) = Some 0) =
      positive (fst (wait_for_common sig t timeout st x))"
proof -
  let ?w = "\<lparr>cw_state = st, cw_timeout = timeout\<rparr>"
  let ?x = "x\<lparr>c_wait := add_wait_queue_tail_exclusive t (init_waitqueue_entry t t (c_wait x)),
      c_waiters := (c_waiters x)(t \<mapsto> ?w)\<rparr>"
  obtain v y where l: "wait_loop sig t ?w ?x = (v, y)" by fastforce
  have d: "done_count ?x = done_count x" by simp
  note loop = wait_loop_count [where x = ?x and sig = sig and t = t and w = ?w, unfolded l d fst_conv snd_conv]
  have c: "wait_for_common sig t timeout st x =
      (if done_count x = 0 then (v, y)
       else (Some (if timeout = 0 then 1 else timeout), x\<lparr>done_count := done_count x - 1\<rparr>))"
    using l by (simp add: wait_for_common_def wait_take_def Let_def)
  show "result_ok (positive (fst (wait_for_common sig t timeout st x))) x (snd (wait_for_common sig t timeout st x))"
    using assms loop(1) unfolding c by (auto simp: result_ok_def positive_def)
  show "(fst (wait_for_common sig t timeout st x) \<noteq> None) = positive (fst (wait_for_common sig t timeout st x))"
    if "st = TASK_UNINTERRUPTIBLE"
    using assms loop(2) that unfolding c by (auto simp: positive_def)
  show "(map_option intr_result (fst (wait_for_common sig t timeout st x)) = Some 0) =
      positive (fst (wait_for_common sig t timeout st x))"
    using assms loop(3) unfolding c by (auto simp: positive_def intr_result_def ERESTARTSYS_def)
qed

lemma wait_wake_count:
  assumes "0 \<le> left" "c_waiters x t = Some w"
  shows "result_ok (positive (fst (wait_wake sig left t x))) x (snd (wait_wake sig left t x))"
    "cw_state w = TASK_UNINTERRUPTIBLE \<Longrightarrow> left \<noteq> 0 \<Longrightarrow>
      (fst (wait_wake sig left t x) \<noteq> None) = positive (fst (wait_wake sig left t x))"
  using assms wait_loop_count [where x = x and sig = sig and t = t and w = "w\<lparr>cw_timeout := left\<rparr>"]
  by (auto simp: wait_wake_def wait_leave_def wait_take_def result_ok_def positive_def Let_def)

definition run_ok :: "comp_run \<Rightarrow> bool" where
  "run_ok r \<longleftrightarrow> comp_ok (cr_comp r) \<and> none_lost (cr_comp r)
     \<and> (cr_completed r < 2 ^ 32 \<longrightarrow> unat (done_count (cr_comp r)) + cr_served r = cr_completed r)"

lemma note_result_ok:
  assumes "run_ok r" "comp_ok x'" "none_lost x'" "result_ok ok (cr_comp r) x'"
  shows "run_ok (note_result ok x' r)"
proof -
  have "unat (done_count (cr_comp r) - 1) = unat (done_count (cr_comp r)) - 1 \<and> 0 < unat (done_count (cr_comp r))"
    if "done_count (cr_comp r) \<noteq> 0"
    using that unat_dec [OF that] by (simp add: unat_gt_0)
  then show ?thesis
    using assms by (auto simp: run_ok_def note_result_def result_ok_def)
qed

lemma unat_plus_exact: "unat a + unat b < 2 ^ 32 \<Longrightarrow> unat (a + b) = unat a + unat b" for a b :: u32
  by (simp add: unat_word_ariths)

lemma complete_run_ok:
  assumes "run_ok r"
  shows "run_ok (r\<lparr>cr_comp := complete ra ra' (cr_comp r), cr_completed := cr_completed r + 1\<rparr>)"
    "run_ok (r\<lparr>cr_comp := complete_all ra ra' (cr_comp r), cr_completed := cr_completed r + unat (UINT_MAX div 2)\<rparr>)"
proof -
  let ?x = "cr_comp r"
  have ok: "comp_ok ?x" "none_lost ?x" using assms by (simp_all add: run_ok_def)
  have d: "done_count (complete ra ra' ?x) = done_count ?x + 1"
    "done_count (complete_all ra ra' ?x) = done_count ?x + UINT_MAX div 2"
    by (simp_all add: complete_def complete_all_def Let_def)
  have c: "unat (done_count ?x + k) + cr_served r = cr_completed r + unat k" if "cr_completed r + unat k < 2 ^ 32" for k
  proof -
    have s: "unat (done_count ?x) + cr_served r = cr_completed r" using assms that by (simp add: run_ok_def)
    then have "unat (done_count ?x) + unat k < 2 ^ 32" using that by linarith
    then show ?thesis using s unat_plus_exact by simp
  qed
  show "run_ok (r\<lparr>cr_comp := complete ra ra' ?x, cr_completed := cr_completed r + 1\<rparr>)"
    using complete_ok [OF ok, of ra ra'] c [of 1] by (simp add: run_ok_def d)
  show "run_ok (r\<lparr>cr_comp := complete_all ra ra' ?x, cr_completed := cr_completed r + unat (UINT_MAX div 2)\<rparr>)"
    using complete_all_ok [OF ok(1), of ra ra'] c [of "UINT_MAX div 2"]
    unfolding run_ok_def none_lost_def by (simp add: d)
qed

lemmas wait_call_defs = wait_for_completion_def wait_for_completion_timeout_def wait_for_completion_interruptible_def
  wait_for_completion_interruptible_timeout_def wait_for_completion_killable_def wait_for_completion_killable_timeout_def

lemma max_timeout_nonneg: "0 \<le> MAX_SCHEDULE_TIMEOUT" "MAX_SCHEDULE_TIMEOUT \<noteq> 0"
  by (simp_all add: MAX_SCHEDULE_TIMEOUT_def)

lemma wait_call_ok:
  assumes "run_ok r" "c_waiters (cr_comp r) t = None" "0 \<le> timeout"
    "wait_for_common sig t timeout st (trace_completion tp (cr_comp r)) = (v, x')"
  shows "run_ok (note_result (positive v) x' r)"
    "run_ok (note_result (map_option intr_result v = Some 0) x' r)"
    "st = TASK_UNINTERRUPTIBLE \<Longrightarrow> run_ok (note_result (v \<noteq> None) x' r)"
proof -
  let ?x = "trace_completion tp (cr_comp r)"
  have ok: "comp_ok ?x" "none_lost ?x" "c_waiters ?x t = None" using assms(1,2) by (simp_all add: run_ok_def)
  note k = wait_for_common_ok [OF ok, of sig timeout st, unfolded assms(4) snd_conv]
  note n = wait_for_common_count [OF assms(3), where sig = sig and t = t and st = st and x = ?x, unfolded assms(4) fst_conv snd_conv]
  have "result_ok (positive v) (cr_comp r) x'" using n(1) by (auto simp: result_ok_def split: if_splits)
  then show p: "run_ok (note_result (positive v) x' r)" using k assms(1) by (intro note_result_ok) auto
  show "run_ok (note_result (map_option intr_result v = Some 0) x' r)" using p n(3) by simp
  show "st = TASK_UNINTERRUPTIBLE \<Longrightarrow> run_ok (note_result (v \<noteq> None) x' r)" using p n(2) by simp
qed

lemma comp_step_ok: "comp_step r r' \<Longrightarrow> run_ok r \<Longrightarrow> run_ok r'"
proof (induction rule: comp_step.induct)
  case (cs_wait r t ra sig v x')
  then show ?case
    using wait_call_ok(3) [OF cs_wait.prems cs_wait.hyps(1) max_timeout_nonneg(1)] by (simp add: wait_call_defs)
next
  case (cs_timeout r t j ra sig v x')
  then show ?case by (auto simp: wait_call_defs intro: wait_call_ok(1))
next
  case (cs_int r t ra sig v x')
  then obtain v' where "wait_for_common sig t MAX_SCHEDULE_TIMEOUT TASK_INTERRUPTIBLE
      (trace_completion (Tp_wait_for_completion_interruptible ra (c_addr (cr_comp r)) SYNCH_GLOBAL) (cr_comp r)) = (v', x')"
    "v = map_option intr_result v'" by (auto simp: wait_call_defs apfst_def map_prod_def split: prod.splits)
  then show ?case using wait_call_ok(2) [OF cs_int.prems cs_int.hyps(1) max_timeout_nonneg(1)] by simp
next
  case (cs_int_timeout r t j ra sig v x')
  then show ?case by (auto simp: wait_call_defs intro: wait_call_ok(1))
next
  case (cs_kill r t ra sig v x')
  then obtain v' where "wait_for_common sig t MAX_SCHEDULE_TIMEOUT TASK_KILLABLE
      (trace_completion (Tp_wait_for_completion_killable ra (c_addr (cr_comp r)) SYNCH_GLOBAL) (cr_comp r)) = (v', x')"
    "v = map_option intr_result v'" by (auto simp: wait_call_defs apfst_def map_prod_def split: prod.splits)
  then show ?case using wait_call_ok(2) [OF cs_kill.prems cs_kill.hyps(1) max_timeout_nonneg(1)] by simp
next
  case (cs_kill_timeout r t j ra sig v x')
  then show ?case by (auto simp: wait_call_defs intro: wait_call_ok(1))
next
  case (cs_try ra r ok x')
  then show ?case
    using try_wait_ok [of "cr_comp r" ra]
    by (intro note_result_ok) (auto simp: run_ok_def result_ok_def try_wait_for_completion_def Let_def split: if_splits)
next
  case (cs_wake r t w left sig v x')
  note k = wait_wake_ok [of "cr_comp r" t w sig left, unfolded cs_wake.hyps(5) snd_conv]
  note n = wait_wake_count [OF cs_wake.hyps(3,1), where sig = sig, unfolded cs_wake.hyps(5) fst_conv snd_conv]
  have "run_ok (note_result (positive v) x' r)"
    using cs_wake k n(1) by (intro note_result_ok) (auto simp: run_ok_def)
  then show ?case using n(2) cs_wake.hyps(4) max_timeout_nonneg(2) by auto
next
  case (cs_event r t w)
  then show ?case using event_ok [of "cr_comp r" t] by (simp add: run_ok_def)
qed (rule complete_run_ok, assumption)+

section \<open>Properties\<close>

definition comp_start :: "addr \<Rightarrow> comp_run" where
  "comp_start a = \<lparr>cr_comp = init_completion \<lparr>c_addr = a, done_count = 0, c_wait = blank_wq, c_waiters = (\<lambda>_. None)\<rparr>,
     cr_completed = 0, cr_served = 0\<rparr>"

lemma comp_start_ok: "run_ok (comp_start a)"
  by (simp add: run_ok_def comp_start_def init_completion_def init_waitqueue_head_def blank_wq_def comp_ok_def
      none_lost_def)

interpretation comp_runs: invariant_run comp_step "\<lambda>r. \<exists>a. r = comp_start a" run_ok
  by unfold_locales (auto intro: comp_start_ok comp_step_ok)

lemmas comp_reach_ok = comp_runs.reach_good [OF _ exI, OF _ refl]

text \<open>
  (C31) No wake-up is lost: in every run with all the calls, timeouts and signals in any order, while
  a task sleeps on the completion there are at least as many woken waiters under way as there are
  completions left. So when no waiter is under way, a task sleeps only if nothing is left for it.
\<close>

theorem no_lost_completion:
  assumes "comp_step\<^sup>*\<^sup>* (comp_start a) r" "sleepers (cr_comp r) \<noteq> []"
  shows "unat (done_count (cr_comp r)) \<le> length (runners (cr_comp r))
    \<and> (runners (cr_comp r) = [] \<longrightarrow> done_count (cr_comp r) = 0)"
  using comp_reach_ok [OF assms(1)] assms(2) by (auto simp: run_ok_def none_lost_def unat_eq_0)

text \<open>
  (C32) Every completion is taken once: as long as the counter cannot have wrapped around, the
  completions signalled are those left in the counter plus the waits that reported success, by the
  rule of each call. In particular the uninterruptible call returns only with a completion.
\<close>

theorem completion_accounting:
  assumes "comp_step\<^sup>*\<^sup>* (comp_start a) r" "cr_completed r < 2 ^ 32"
  shows "unat (done_count (cr_comp r)) + cr_served r = cr_completed r \<and> cr_served r \<le> cr_completed r"
  using comp_reach_ok [OF assms(1)] assms(2) by (auto simp: run_ok_def)

text \<open>A run: two tasks wait, and one completion is signalled.\<close>

definition demo_wait :: "nat \<Rightarrow> comp_run \<Rightarrow> comp_run" where
  "demo_wait t r = note_result (fst (wait_for_completion 0x8000 no_signal t (cr_comp r)) \<noteq> None)
     (snd (wait_for_completion 0x8000 no_signal t (cr_comp r))) r"

definition demo_comp :: comp_run where
  "demo_comp = (let r = demo_wait 8 (demo_wait 7 (comp_start 0x100))
     in r\<lparr>cr_comp := complete 0x8000 0x8100 (cr_comp r), cr_completed := cr_completed r + 1\<rparr>)"

lemma demo_wait_step: "c_waiters (cr_comp r) t = None \<Longrightarrow> comp_step r (demo_wait t r)"
  unfolding demo_wait_def by (rule cs_wait) simp_all

lemmas demo_comp_simps = demo_wait_def comp_start_def init_completion_def init_waitqueue_head_def blank_wq_def
  wait_for_completion_def wait_for_common_def wait_loop_def signal_pending_state_def trace_completion_def
  add_wait_queue_tail_exclusive_def add_wait_queue_tail_def init_waitqueue_entry_def set_exclusive_def set_state_def
  schedule_enter_def MAX_SCHEDULE_TIMEOUT_def note_result_def no_signal_def

lemma demo_comp_reach: "comp_step\<^sup>*\<^sup>* (comp_start 0x100) demo_comp"
proof -
  let ?r1 = "demo_wait 7 (comp_start 0x100)"
  let ?r2 = "demo_wait 8 ?r1"
  have "comp_step (comp_start 0x100) ?r1" by (rule demo_wait_step) (simp add: comp_start_def init_completion_def)
  moreover have "comp_step ?r1 ?r2" by (rule demo_wait_step) (simp add: demo_comp_simps)
  moreover have "comp_step ?r2 demo_comp" unfolding demo_comp_def Let_def by (rule cs_complete)
  ultimately show ?thesis by (meson converse_rtranclp_into_rtranclp rtranclp.rtrancl_refl)
qed

lemma demo_comp_state:
  "sleepers (cr_comp demo_comp) = [8]" "cr_completed demo_comp = 1" "cr_served demo_comp = 0"
  by (simp_all add: demo_comp_def complete_def wake_up_common_def sleepers_def demo_comp_simps Let_def
      call_wake_func_def default_wake_function_def try_to_wake_up_def TASK_NORMAL_def TASK_RUNNING_def)

theorem no_lost_completion_witness:
  "sleepers (cr_comp demo_comp) = [8] \<and> unat (done_count (cr_comp demo_comp)) \<le> length (runners (cr_comp demo_comp))"
  using no_lost_completion [OF demo_comp_reach] by (simp add: demo_comp_state)

theorem completion_accounting_witness: "unat (done_count (cr_comp demo_comp)) = 1"
  using completion_accounting [OF demo_comp_reach] by (simp add: demo_comp_state)

end
