(* ===== verification/Tasklet.thy ===== *)
theory Tasklet
  imports SepProbes
begin

text \<open>
  Tasklets and the raising of softirqs on one processor: \<open>kernel/softirq.c\<close> and the inline
  functions of \<open>include/linux/interrupt.h\<close>, with the tracepoints the framework added. The lists of
  scheduled tasklets are the linked lists of the code, with the address of their last pointer.
\<close>

section \<open>State\<close>

text \<open>\<open>tk_sched\<close> and \<open>tk_run\<close> are the two bits of \<open>state\<close>.\<close>

record tasklet =
  tk_next :: addr
  tk_sched :: bool
  tk_run :: bool
  tk_count :: u32
  tk_func :: addr
  tk_data :: u32

text \<open>A pointer to a pointer: to the head of its list, or to the \<open>next\<close> of a tasklet.\<close>

datatype tail_ptr = HeadSlot | NextSlot addr

record tasklet_head =
  th_head :: addr
  th_tail :: tail_ptr

datatype vec_id = Vec | HiVec

record ksoftirqd =
  kd_pid :: u32
  kd_state :: u32

record softcpu =
  preempt_count :: u32
  softirq_pending :: u32
  softirq_vec :: "addr list"
  ksoftirqd :: "ksoftirqd option"
  tasklets :: "addr \<Rightarrow> tasklet"
  tvec :: "vec_id \<Rightarrow> tasklet_head"
  soft_emitted :: "tracepoint list"

definition HI_SOFTIRQ :: nat where "HI_SOFTIRQ = 0"

definition TASKLET_SOFTIRQ :: nat where "TASKLET_SOFTIRQ = 6"

definition NR_SOFTIRQS :: nat where "NR_SOFTIRQS = 10"

primrec vec_softirq :: "vec_id \<Rightarrow> nat" where
  "vec_softirq Vec = TASKLET_SOFTIRQ"
| "vec_softirq HiVec = HI_SOFTIRQ"

primrec vec_queue :: "vec_id \<Rightarrow> sem_queue_id" where
  "vec_queue Vec = SRVQ_TASKLET"
| "vec_queue HiVec = SRVQ_TASKLET_HI"

text \<open>
  What the processor runs but \<open>softirq.c\<close> does not define: a tasklet function or a softirq handler is
  the sequence of the calls it makes of this interface. The addresses of the two handlers for
  tasklets, of \<open>irq_enter\<close> and of the call in \<open>wake_up_process\<close> are given by the linker. \<open>tick_body\<close> is
  what \<open>tick_check_idle\<close> does, \<open>force_irqthreads\<close> is a boot parameter.
\<close>

datatype softop = Op_schedule addr | Op_hi_schedule addr | Op_raise nat

record softenv =
  tasklet_body :: "addr \<Rightarrow> u32 \<Rightarrow> softop list"
  action_body :: "addr \<Rightarrow> softop list"
  tasklet_action_addr :: addr
  tasklet_hi_action_addr :: addr
  wake_ra :: addr
  irq_enter_addr :: addr
  tick_body :: "softop list"
  force_irqthreads :: bool

definition emit :: "tracepoint \<Rightarrow> softcpu \<Rightarrow> softcpu" where
  "emit tp c = c\<lparr>soft_emitted := soft_emitted c @ [tp]\<rparr>"

section \<open>Raising\<close>

text \<open>The bits for hardware interrupts, softirqs and non-maskable interrupts.\<close>

definition IRQ_COUNT_MASK :: u32 where "IRQ_COUNT_MASK = 0x07FFFF00"

definition in_interrupt :: "softcpu \<Rightarrow> bool" where
  "in_interrupt c \<longleftrightarrow> preempt_count c AND IRQ_COUNT_MASK \<noteq> 0"

definition TASK_ALL :: u32 where "TASK_ALL = 15"

text \<open>\<open>wake_up_process\<close> is \<open>try_to_wake_up\<close> for all states.\<close>

definition wakeup_softirqd :: "softenv \<Rightarrow> softcpu \<Rightarrow> softcpu" where
  "wakeup_softirqd env c =
     (case ksoftirqd c of
        None \<Rightarrow> c
      | Some tsk \<Rightarrow>
          if kd_state tsk \<noteq> 0
          then let c' = emit (Sched (Tp_wakeup (wake_ra env) (kd_pid tsk))) c
               in if kd_state tsk AND TASK_ALL = 0 then c' else c'\<lparr>ksoftirqd := Some (tsk\<lparr>kd_state := 0\<rparr>)\<rparr>
          else c)"

definition raise_softirq_bit :: "nat \<Rightarrow> softcpu \<Rightarrow> softcpu" where
  "raise_softirq_bit nr c = c\<lparr>softirq_pending := softirq_pending c OR push_bit nr 1\<rparr>"

definition trace_enqueue :: "nat \<Rightarrow> softcpu \<Rightarrow> softcpu" where
  "trace_enqueue nr = emit (Proto (Tp_srvqueue (of_nat nr) (of_nat (queue_code SRVQ_HI_SOFTIRQ + nr)) 0 QUEUE_ENQUEUE))"

definition raise_softirq_irqoff :: "softenv \<Rightarrow> nat \<Rightarrow> softcpu \<Rightarrow> softcpu" where
  "raise_softirq_irqoff env nr c =
     (let c' = raise_softirq_bit nr (trace_enqueue nr c)
      in if in_interrupt c' then c' else wakeup_softirqd env c')"

definition raise_softirq :: "softenv \<Rightarrow> nat \<Rightarrow> softcpu \<Rightarrow> softcpu" where
  "raise_softirq env nr c = raise_softirq_irqoff env nr c"

definition open_softirq :: "nat \<Rightarrow> addr \<Rightarrow> softcpu \<Rightarrow> softcpu outcome" where
  "open_softirq nr action c =
     bind_outcome (upd_checked (softirq_vec c) nr action) (\<lambda>v. Inr (c\<lparr>softirq_vec := v\<rparr>))"

section \<open>Scheduling tasklets\<close>

definition upd_tasklet :: "addr \<Rightarrow> (tasklet \<Rightarrow> tasklet) \<Rightarrow> softcpu \<Rightarrow> softcpu" where
  "upd_tasklet t f c = c\<lparr>tasklets := (tasklets c)(t := f (tasklets c t))\<rparr>"

definition tasklet_init :: "addr \<Rightarrow> addr \<Rightarrow> u32 \<Rightarrow> softcpu \<Rightarrow> softcpu" where
  "tasklet_init t func data =
     upd_tasklet t (\<lambda>_. \<lparr>tk_next = 0, tk_sched = False, tk_run = False, tk_count = 0, tk_func = func, tk_data = data\<rparr>)"

definition store_tail :: "vec_id \<Rightarrow> addr \<Rightarrow> softcpu \<Rightarrow> softcpu" where
  "store_tail v t c =
     (case th_tail (tvec c v) of
        HeadSlot \<Rightarrow> c\<lparr>tvec := (tvec c)(v := (tvec c v)\<lparr>th_head := t\<rparr>)\<rparr>
      | NextSlot a \<Rightarrow> upd_tasklet a (\<lambda>k. k\<lparr>tk_next := t\<rparr>) c)"

definition append_tasklet :: "vec_id \<Rightarrow> addr \<Rightarrow> softcpu \<Rightarrow> softcpu" where
  "append_tasklet v t c =
     (let c' = store_tail v t (upd_tasklet t (\<lambda>k. k\<lparr>tk_next := 0\<rparr>) c)
      in c'\<lparr>tvec := (tvec c')(v := (tvec c' v)\<lparr>th_tail := NextSlot t\<rparr>)\<rparr>)"

definition queue_tasklet :: "softenv \<Rightarrow> vec_id \<Rightarrow> addr \<Rightarrow> softcpu \<Rightarrow> softcpu" where
  "queue_tasklet env v t c = raise_softirq_irqoff env (vec_softirq v) (append_tasklet v t c)"

definition tasklet_schedule_on :: "softenv \<Rightarrow> vec_id \<Rightarrow> addr \<Rightarrow> softcpu \<Rightarrow> softcpu" where
  "tasklet_schedule_on env v t c =
     (if tk_sched (tasklets c t) then c
      else queue_tasklet env v t (upd_tasklet t (\<lambda>k. k\<lparr>tk_sched := True\<rparr>) c))"

definition tasklet_schedule :: "softenv \<Rightarrow> addr \<Rightarrow> softcpu \<Rightarrow> softcpu" where
  "tasklet_schedule env = tasklet_schedule_on env Vec"

definition tasklet_hi_schedule :: "softenv \<Rightarrow> addr \<Rightarrow> softcpu \<Rightarrow> softcpu" where
  "tasklet_hi_schedule env = tasklet_schedule_on env HiVec"

text \<open>\<open>__tasklet_hi_schedule_first\<close>, for callers that have interrupts disabled.\<close>

definition tasklet_hi_schedule_first :: "addr \<Rightarrow> softcpu \<Rightarrow> softcpu" where
  "tasklet_hi_schedule_first t c0 =
     (if tk_sched (tasklets c0 t) then c0
      else let c1 = upd_tasklet t (\<lambda>k. k\<lparr>tk_sched := True\<rparr>) c0;
               c2 = upd_tasklet t (\<lambda>k. k\<lparr>tk_next := th_head (tvec c1 HiVec)\<rparr>) c1;
               c3 = c2\<lparr>tvec := (tvec c2)(HiVec := (tvec c2 HiVec)\<lparr>th_head := t\<rparr>)\<rparr>
           in raise_softirq_bit HI_SOFTIRQ (trace_enqueue HI_SOFTIRQ c3))"

definition tasklet_disable_nosync :: "addr \<Rightarrow> softcpu \<Rightarrow> softcpu" where
  "tasklet_disable_nosync t = upd_tasklet t (\<lambda>k. k\<lparr>tk_count := tk_count k + 1\<rparr>)"

definition tasklet_enable :: "addr \<Rightarrow> softcpu \<Rightarrow> softcpu" where
  "tasklet_enable t = upd_tasklet t (\<lambda>k. k\<lparr>tk_count := tk_count k - 1\<rparr>)"

primrec exec_op :: "softenv \<Rightarrow> softop \<Rightarrow> softcpu \<Rightarrow> softcpu" where
  "exec_op env (Op_schedule t) = tasklet_schedule env t"
| "exec_op env (Op_hi_schedule t) = tasklet_hi_schedule env t"
| "exec_op env (Op_raise nr) = raise_softirq env nr"

definition exec_ops :: "softenv \<Rightarrow> softop list \<Rightarrow> softcpu \<Rightarrow> softcpu" where
  "exec_ops env = fold (exec_op env)"

section \<open>Running tasklets\<close>

definition requeue_tasklet :: "vec_id \<Rightarrow> addr \<Rightarrow> softcpu \<Rightarrow> softcpu" where
  "requeue_tasklet v t c =
     raise_softirq_bit (vec_softirq v) (trace_enqueue (vec_softirq v) (append_tasklet v t c))"

definition trace_dequeue :: "addr \<Rightarrow> softcpu \<Rightarrow> softcpu" where
  "trace_dequeue a = emit (Proto (Tp_srvqueue a 0 0 QUEUE_DEQUEUE))"

definition run_tasklet :: "softenv \<Rightarrow> addr \<Rightarrow> softcpu \<Rightarrow> softcpu" where
  "run_tasklet env t c0 =
     (let c1 = trace_dequeue (tk_func (tasklets c0 t)) c0;
          c2 = exec_ops env (tasklet_body env (tk_func (tasklets c1 t)) (tk_data (tasklets c1 t))) c1
      in emit (Proto (Tp_srvexit (tk_func (tasklets c2 t)))) c2)"

text \<open>One round of the loop, for the tasklet at its head.\<close>

definition tasklet_round :: "softenv \<Rightarrow> vec_id \<Rightarrow> addr \<Rightarrow> softcpu \<Rightarrow> softcpu outcome" where
  "tasklet_round env v t c0 =
     (let c = emit (Proto Tp_looprestart) c0 in
      if tk_run (tasklets c t) then Inr (requeue_tasklet v t c)
      else if tk_count (tasklets c t) = 0
      then if \<not> tk_sched (tasklets c t) then Inl BugOn
           else let c1 = upd_tasklet t (\<lambda>k. k\<lparr>tk_run := True, tk_sched := False\<rparr>) c;
                    c2 = run_tasklet env t c1
                in Inr (upd_tasklet t (\<lambda>k. k\<lparr>tk_run := False\<rparr>) c2)
      else Inr (requeue_tasklet v t c))"

partial_function (option) tasklet_loop :: "softenv \<Rightarrow> vec_id \<Rightarrow> addr \<Rightarrow> softcpu \<Rightarrow> softcpu outcome option" where
  "tasklet_loop env v list c =
     (if list = 0 then Some (Inr c)
      else case tasklet_round env v list c of
             Inl f \<Rightarrow> Some (Inl f)
           | Inr c' \<Rightarrow> tasklet_loop env v (tk_next (tasklets c list)) c')"

definition tasklet_action_on :: "softenv \<Rightarrow> vec_id \<Rightarrow> softcpu \<Rightarrow> softcpu outcome option" where
  "tasklet_action_on env v c0 =
     (let list = th_head (tvec c0 v);
          c1 = c0\<lparr>tvec := (tvec c0)(v := \<lparr>th_head = 0, th_tail = HeadSlot\<rparr>)\<rparr>;
          q = of_nat (queue_code (vec_queue v));
          c2 = emit (Proto (Tp_loopstart (- 1) 0 q q)) c1
      in map_option (map_sum id (emit (Proto Tp_loopstop))) (tasklet_loop env v list c2))"

definition tasklet_action :: "softenv \<Rightarrow> softcpu \<Rightarrow> softcpu outcome option" where
  "tasklet_action env = tasklet_action_on env Vec"

definition tasklet_hi_action :: "softenv \<Rightarrow> softcpu \<Rightarrow> softcpu outcome option" where
  "tasklet_hi_action env = tasklet_action_on env HiVec"

section \<open>The linked lists as queues\<close>

primrec chain :: "(addr \<Rightarrow> addr) \<Rightarrow> addr \<Rightarrow> addr list \<Rightarrow> bool" where
  "chain nx a [] \<longleftrightarrow> a = 0"
| "chain nx a (t # ts) \<longleftrightarrow> a = t \<and> t \<noteq> 0 \<and> chain nx (nx t) ts"

abbreviation next_of :: "softcpu \<Rightarrow> addr \<Rightarrow> addr" where
  "next_of c t \<equiv> tk_next (tasklets c t)"

lemma chain_cong: "chain nx a ts \<Longrightarrow> (\<And>t. t \<in> set ts \<Longrightarrow> nx' t = nx t) \<Longrightarrow> chain nx' a ts"
  by (induction ts arbitrary: a) auto

lemma chain_append:
  assumes "chain nx a ts" "ts \<noteq> []" "distinct (ts @ [t])" "t \<noteq> 0" "nx t = 0"
  shows "chain (nx(last ts := t)) a (ts @ [t])"
  using assms
proof (induction ts arbitrary: a)
  case (Cons s ts)
  show ?case
  proof (cases "ts = []")
    case False
    have "chain (nx(last ts := t)) (nx s) (ts @ [t])"
      by (rule Cons.IH) (use Cons.prems False in simp_all)
    moreover have "last ts \<in> set ts" "s \<notin> set ts" using False Cons.prems(3) by simp_all
    then have "last ts \<noteq> s" by metis
    ultimately show ?thesis using Cons.prems False by (simp add: fun_upd_def)
  qed (use Cons.prems in auto)
qed simp

text \<open>The abstract state: two queues, and which tasklets are scheduled.\<close>

record task_queues =
  aq :: "vec_id \<Rightarrow> addr list"
  aq_sched :: "addr \<Rightarrow> bool"

definition queued :: "task_queues \<Rightarrow> addr set" where
  "queued a = set (aq a Vec) \<union> set (aq a HiVec)"

definition vec_rep :: "softcpu \<Rightarrow> vec_id \<Rightarrow> addr list \<Rightarrow> bool" where
  "vec_rep c v ts \<longleftrightarrow> chain (next_of c) (th_head (tvec c v)) ts
     \<and> th_tail (tvec c v) = (if ts = [] then HeadSlot else NextSlot (last ts))"

definition rep :: "softcpu \<Rightarrow> task_queues \<Rightarrow> bool" where
  "rep c a \<longleftrightarrow> (\<forall>v. vec_rep c v (aq a v)) \<and> distinct (aq a Vec @ aq a HiVec)
     \<and> (\<forall>t. aq_sched a t = tk_sched (tasklets c t)) \<and> (\<forall>t\<in>queued a. aq_sched a t)"

lemma queued_in: "t \<in> set (aq a v) \<Longrightarrow> t \<in> queued a"
  by (cases v) (auto simp: queued_def)

lemma rep_disjoint: "rep c a \<Longrightarrow> v \<noteq> w \<Longrightarrow> t \<in> set (aq a v) \<Longrightarrow> t \<notin> set (aq a w)"
  by (cases v; cases w) (auto simp: rep_def)

lemma rep_distinct: "rep c a \<Longrightarrow> distinct (aq a v)"
  by (cases v) (auto simp: rep_def)

text \<open>What the operations on tasklets never change.\<close>

definition same_static :: "softcpu \<Rightarrow> softcpu \<Rightarrow> bool" where
  "same_static c c' \<longleftrightarrow> (\<forall>t. tk_func (tasklets c' t) = tk_func (tasklets c t) \<and> tk_data (tasklets c' t) = tk_data (tasklets c t)
     \<and> tk_count (tasklets c' t) = tk_count (tasklets c t) \<and> tk_run (tasklets c' t) = tk_run (tasklets c t))"

text \<open>The functions dequeued for execution, as the trace shows them.\<close>

definition is_dequeue :: "tracepoint \<Rightarrow> bool" where
  "is_dequeue tp = (case tp of Proto (Tp_srvqueue a q h op) \<Rightarrow> op = QUEUE_DEQUEUE | _ \<Rightarrow> False)"

definition dequeues :: "softcpu \<Rightarrow> tracepoint list" where
  "dequeues c = filter is_dequeue (soft_emitted c)"

subsection \<open>Steps that do not touch the lists\<close>

definition same_lists :: "softcpu \<Rightarrow> softcpu \<Rightarrow> bool" where
  "same_lists c c' \<longleftrightarrow> tasklets c' = tasklets c \<and> tvec c' = tvec c \<and> dequeues c' = dequeues c
     \<and> softirq_vec c' = softirq_vec c \<and> preempt_count c' = preempt_count c"

lemma same_lists_emit: "\<not> is_dequeue tp \<Longrightarrow> same_lists c (emit tp c)"
  by (simp add: same_lists_def emit_def dequeues_def)

lemma same_lists_refl [simp]: "same_lists c c"
  by (simp add: same_lists_def)

lemma same_lists_trans: "same_lists a b \<Longrightarrow> same_lists b c \<Longrightarrow> same_lists a c"
  by (simp add: same_lists_def)

lemma same_lists_raise: "same_lists c (raise_softirq_bit nr c)"
  by (simp add: same_lists_def raise_softirq_bit_def dequeues_def)

lemma same_lists_enqueue: "same_lists c (trace_enqueue nr c)"
  unfolding trace_enqueue_def by (rule same_lists_emit) (simp add: is_dequeue_def)

lemma same_lists_wakeup: "same_lists c (wakeup_softirqd env c)"
  by (simp add: wakeup_softirqd_def same_lists_def emit_def dequeues_def is_dequeue_def Let_def split: option.split)

lemma same_lists_raise_irqoff: "same_lists c (raise_softirq_irqoff env nr c)"
  using same_lists_trans [OF same_lists_enqueue [of c nr] same_lists_raise [of "trace_enqueue nr c" nr]]
    same_lists_wakeup [of "raise_softirq_bit nr (trace_enqueue nr c)" env]
  by (auto simp: raise_softirq_irqoff_def Let_def intro: same_lists_trans)

lemma rep_same_lists: "same_lists c c' \<Longrightarrow> rep c' a = rep c a"
  by (simp add: same_lists_def rep_def vec_rep_def)

lemma rep_cong:
  assumes "rep c a" "next_of c' = next_of c" "tvec c' = tvec c" "aq a' = aq a"
    "\<And>t. aq_sched a' t = tk_sched (tasklets c' t)" "\<And>t. t \<in> queued a \<Longrightarrow> aq_sched a' t"
  shows "rep c' a'"
proof -
  have "queued a' = queued a" by (simp add: queued_def assms(4))
  moreover have "vec_rep c' v ts = vec_rep c v ts" for v ts by (simp only: vec_rep_def assms(2,3))
  ultimately show ?thesis using assms(1,5,6) by (simp add: rep_def assms(4))
qed

lemma same_static_lists: "same_lists c c' \<Longrightarrow> same_static c c'"
  by (simp add: same_lists_def same_static_def)

lemma same_static_refl [simp]: "same_static c c"
  by (simp add: same_static_def)

lemma same_static_trans: "same_static a b \<Longrightarrow> same_static b c \<Longrightarrow> same_static a c"
  by (simp add: same_static_def)

subsection \<open>Appending\<close>

definition enq :: "vec_id \<Rightarrow> addr \<Rightarrow> task_queues \<Rightarrow> task_queues" where
  "enq v t a = a\<lparr>aq := (aq a)(v := aq a v @ [t])\<rparr>"

lemma append_tasklet_fields:
  "tk_sched (tasklets (append_tasklet v t c) s) = tk_sched (tasklets c s)"
  "same_static c (append_tasklet v t c)" "dequeues (append_tasklet v t c) = dequeues c"
  "softirq_vec (append_tasklet v t c) = softirq_vec c" "preempt_count (append_tasklet v t c) = preempt_count c"
  "softirq_pending (append_tasklet v t c) = softirq_pending c" "ksoftirqd (append_tasklet v t c) = ksoftirqd c"
  by (auto simp: append_tasklet_def store_tail_def upd_tasklet_def same_static_def dequeues_def Let_def
      split: tail_ptr.split)

text \<open>Only the end of the queue and the tasklet itself get a new successor.\<close>

lemma append_tasklet_next:
  assumes "vec_rep c v ts" "s \<noteq> t" "s \<notin> set ts"
  shows "next_of (append_tasklet v t c) s = next_of c s"
  using assms by (auto simp: append_tasklet_def store_tail_def upd_tasklet_def vec_rep_def Let_def
      split: tail_ptr.split if_splits)

lemma append_tasklet_rep:
  assumes "rep c a" "t \<notin> queued a" "t \<noteq> 0" "aq_sched a t"
  shows "rep (append_tasklet v t c) (enq v t a)"
proof -
  let ?c = "append_tasklet v t c"
  have vr: "vec_rep c w (aq a w)" for w using assms(1) by (simp add: rep_def)
  have tq: "t \<notin> set (aq a w)" for w using assms(2) queued_in by blast
  have other: "vec_rep ?c w (aq a w)" if "w \<noteq> v" for w
  proof -
    have "next_of ?c s = next_of c s" if "s \<in> set (aq a w)" for s
      using append_tasklet_next [OF vr [of v], of s t] that tq [of w] rep_disjoint [OF assms(1) \<open>w \<noteq> v\<close>] by metis
    moreover have "tvec ?c w = tvec c w"
      using that by (simp add: append_tasklet_def store_tail_def upd_tasklet_def Let_def split: tail_ptr.split)
    ultimately show ?thesis using vr [of w] chain_cong by (auto simp: vec_rep_def)
  qed
  have "vec_rep ?c v (aq a v @ [t])"
  proof (cases "aq a v = []")
    case True
    then show ?thesis
      using vr [of v] assms(3)
      by (simp add: vec_rep_def append_tasklet_def store_tail_def upd_tasklet_def Let_def)
  next
    case False
    let ?nx = "(next_of c)(t := 0)"
    have "chain ?nx (th_head (tvec c v)) (aq a v)"
      by (rule chain_cong [of "next_of c"]) (use vr [of v] tq [of v] in \<open>auto simp: vec_rep_def\<close>)
    then have "chain (?nx(last (aq a v) := t)) (th_head (tvec c v)) (aq a v @ [t])"
      by (rule chain_append) (use False tq [of v] assms(3) rep_distinct [OF assms(1)] in auto)
    moreover have "next_of ?c = ?nx(last (aq a v) := t)" "tvec ?c v = (tvec c v)\<lparr>th_tail := NextSlot t\<rparr>"
      using vr [of v] False
      by (auto simp: vec_rep_def append_tasklet_def store_tail_def upd_tasklet_def Let_def fun_eq_iff)
    ultimately show ?thesis by (simp add: vec_rep_def)
  qed
  with other have "vec_rep ?c w (aq (enq v t a) w)" for w by (cases "w = v") (simp_all add: enq_def)
  moreover have "distinct (aq (enq v t a) Vec @ aq (enq v t a) HiVec)"
    using assms(1) tq by (cases v) (auto simp: rep_def enq_def)
  moreover have "queued (enq v t a) = insert t (queued a)" by (cases v) (auto simp: queued_def enq_def)
  ultimately show ?thesis
    using assms(1,4) by (auto simp: rep_def append_tasklet_fields enq_def)
qed

subsection \<open>Scheduling\<close>

definition abs_schedule :: "vec_id \<Rightarrow> addr \<Rightarrow> task_queues \<Rightarrow> task_queues" where
  "abs_schedule v t a = (if aq_sched a t then a else enq v t (a\<lparr>aq_sched := (aq_sched a)(t := True)\<rparr>))"

primrec abs_op :: "softop \<Rightarrow> task_queues \<Rightarrow> task_queues" where
  "abs_op (Op_schedule t) = abs_schedule Vec t"
| "abs_op (Op_hi_schedule t) = abs_schedule HiVec t"
| "abs_op (Op_raise nr) = id"

primrec op_target :: "softop \<Rightarrow> bool" where
  "op_target (Op_schedule t) \<longleftrightarrow> t \<noteq> 0"
| "op_target (Op_hi_schedule t) \<longleftrightarrow> t \<noteq> 0"
| "op_target (Op_raise nr) \<longleftrightarrow> nr < NR_SOFTIRQS"

text \<open>
  A concrete step implements an abstract one, and leaves the tasklets alone that are scheduled but
  in neither queue: those that a handler has taken off and has still to look at.
\<close>

definition implements :: "softcpu \<Rightarrow> task_queues \<Rightarrow> softcpu \<Rightarrow> task_queues \<Rightarrow> bool" where
  "implements c a c' a' \<longleftrightarrow> rep c' a' \<and> same_static c c' \<and> dequeues c' = dequeues c
     \<and> (\<forall>s. aq_sched a s \<and> s \<notin> queued a \<longrightarrow> next_of c' s = next_of c s \<and> aq_sched a' s \<and> s \<notin> queued a')"

lemma implements_trans:
  "implements c a c' a' \<Longrightarrow> implements c' a' c'' a'' \<Longrightarrow> implements c a c'' a''"
  unfolding implements_def by (metis same_static_trans)

lemma implements_same_lists: "rep c a \<Longrightarrow> same_lists c c' \<Longrightarrow> implements c a c' a"
  unfolding implements_def
  by (simp add: rep_same_lists same_static_lists) (simp add: same_lists_def)

lemma enq_simps [simp]:
  "aq_sched (enq v t a) = aq_sched a" "queued (enq v t a) = insert t (queued a)"
  by (cases v; auto simp: enq_def queued_def)+

lemma implements_append:
  assumes "rep c a" "t \<notin> queued a" "t \<noteq> 0" "aq_sched a t"
  shows "rep (append_tasklet v t c) (enq v t a) \<and> same_static c (append_tasklet v t c)
    \<and> dequeues (append_tasklet v t c) = dequeues c
    \<and> (\<forall>s. s \<noteq> t \<and> s \<notin> queued a \<longrightarrow> next_of (append_tasklet v t c) s = next_of c s)"
proof -
  have "vec_rep c v (aq a v)" using assms(1) by (simp add: rep_def)
  then have "next_of (append_tasklet v t c) s = next_of c s" if "s \<noteq> t" "s \<notin> queued a" for s
    using append_tasklet_next that queued_in by metis
  then show ?thesis using append_tasklet_rep [OF assms] append_tasklet_fields by simp
qed

lemma schedule_implements:
  assumes "rep c a" "t \<noteq> 0"
  shows "implements c a (tasklet_schedule_on env v t c) (abs_schedule v t a)"
proof (cases "aq_sched a t")
  case True
  then have "tk_sched (tasklets c t)" using assms(1) by (simp add: rep_def)
  then show ?thesis
    using True assms(1) by (simp add: tasklet_schedule_on_def abs_schedule_def implements_same_lists)
next
  case False
  let ?c = "upd_tasklet t (\<lambda>k. k\<lparr>tk_sched := True\<rparr>) c" and ?a = "a\<lparr>aq_sched := (aq_sched a)(t := True)\<rparr>"
  have nq: "t \<notin> queued a" using False assms(1) by (auto simp: rep_def)
  have n: "next_of ?c = next_of c" by (auto simp: upd_tasklet_def)
  have r: "rep ?c ?a"
    by (rule rep_cong [OF assms(1) n]) (use assms(1) in \<open>auto simp: rep_def upd_tasklet_def\<close>)
  have q: "queued ?a = queued a" by (simp add: queued_def)
  let ?c2 = "append_tasklet v t ?c"
  have ap: "rep ?c2 (enq v t ?a)" "same_static ?c ?c2" "dequeues ?c2 = dequeues ?c"
    "\<And>s. s \<noteq> t \<Longrightarrow> s \<notin> queued a \<Longrightarrow> next_of ?c2 s = next_of ?c s"
    using implements_append [OF r, of t v] assms(2) nq q by simp_all
  have "same_static c ?c" "dequeues ?c = dequeues c"
    by (auto simp: same_static_def upd_tasklet_def dequeues_def)
  then have st: "same_static c ?c2" "dequeues ?c2 = dequeues c" using ap(2,3) same_static_trans by simp_all
  have "next_of ?c2 s = next_of c s \<and> aq_sched (enq v t ?a) s \<and> s \<notin> queued (enq v t ?a)"
    if "aq_sched a s" "s \<notin> queued a" for s
  proof -
    have "s \<noteq> t" using that(1) False by metis
    then show ?thesis using ap(4) [OF _ that(2)] fun_cong [OF n, of s] that q by simp
  qed
  then have "implements c a ?c2 (enq v t ?a)" using ap(1) st by (simp only: implements_def) simp
  moreover note ap(1)
  then have "implements ?c2 (enq v t ?a) (raise_softirq_irqoff env (vec_softirq v) ?c2) (enq v t ?a)"
    by (rule implements_same_lists) (rule same_lists_raise_irqoff)
  moreover have "\<not> tk_sched (tasklets c t)" using False assms(1) by (simp add: rep_def)
  ultimately show ?thesis
    using False implements_trans by (simp add: tasklet_schedule_on_def abs_schedule_def queue_tasklet_def)
qed

lemma exec_op_implements:
  assumes "rep c a" "op_target x"
  shows "implements c a (exec_op env x c) (abs_op x a)"
  using assms by (cases x) (simp_all add: tasklet_schedule_def tasklet_hi_schedule_def schedule_implements
      raise_softirq_def implements_same_lists same_lists_raise_irqoff)

lemma exec_ops_implements:
  assumes "rep c a" "\<forall>x\<in>set xs. op_target x"
  shows "implements c a (exec_ops env xs c) (fold abs_op xs a)"
  using assms
proof (induction xs arbitrary: c a)
  case Nil
  then show ?case by (simp add: exec_ops_def implements_same_lists)
next
  case (Cons x xs)
  have i: "implements c a (exec_op env x c) (abs_op x a)" using Cons.prems by (simp add: exec_op_implements)
  then have "implements (exec_op env x c) (abs_op x a) (exec_ops env xs (exec_op env x c)) (fold abs_op xs (abs_op x a))"
    using Cons.prems by (intro Cons.IH) (simp_all add: implements_def)
  with i show ?case using implements_trans by (simp add: exec_ops_def)
qed

subsection \<open>One round\<close>

definition runnable :: "softcpu \<Rightarrow> addr \<Rightarrow> bool" where
  "runnable c t \<longleftrightarrow> \<not> tk_run (tasklets c t) \<and> tk_count (tasklets c t) = 0"

abbreviation body_of :: "softenv \<Rightarrow> softcpu \<Rightarrow> addr \<Rightarrow> softop list" where
  "body_of env c t \<equiv> tasklet_body env (tk_func (tasklets c t)) (tk_data (tasklets c t))"

definition abs_round :: "softenv \<Rightarrow> vec_id \<Rightarrow> softcpu \<Rightarrow> addr \<Rightarrow> task_queues \<Rightarrow> task_queues" where
  "abs_round env v c t a =
     (if runnable c t then fold abs_op (body_of env c t) (a\<lparr>aq_sched := (aq_sched a)(t := False)\<rparr>)
      else enq v t a)"

definition env_ok :: "softenv \<Rightarrow> bool" where
  "env_ok env \<longleftrightarrow> (\<forall>f d. \<forall>x\<in>set (tasklet_body env f d). op_target x) \<and> (\<forall>f. \<forall>x\<in>set (action_body env f). op_target x)
     \<and> (\<forall>x\<in>set (tick_body env). op_target x)"

lemma abs_round_static: "same_static c c' \<Longrightarrow> abs_round env v c' = abs_round env v c"
  by (simp add: abs_round_def runnable_def same_static_def fun_eq_iff)

text \<open>The same for a round, whose tasklet is off the queues already.\<close>

definition round_ok :: "softcpu \<Rightarrow> task_queues \<Rightarrow> addr \<Rightarrow> softcpu \<Rightarrow> task_queues \<Rightarrow> bool" where
  "round_ok c a t c' a' \<longleftrightarrow> rep c' a' \<and> same_static c c'
     \<and> dequeues c' = dequeues c @ (if runnable c t then [Proto (Tp_srvqueue (tk_func (tasklets c t)) 0 0 QUEUE_DEQUEUE)] else [])
     \<and> (\<forall>s. s \<noteq> t \<and> aq_sched a s \<and> s \<notin> queued a \<longrightarrow> next_of c' s = next_of c s \<and> aq_sched a' s \<and> s \<notin> queued a')"

lemma requeue_round_ok:
  assumes "rep c a" "t \<noteq> 0" "aq_sched a t" "t \<notin> queued a" "\<not> runnable c t"
  shows "round_ok c a t (requeue_tasklet v t (emit (Proto Tp_looprestart) c)) (enq v t a)"
proof -
  let ?c = "emit (Proto Tp_looprestart) c"
  have e: "same_lists c ?c" by (rule same_lists_emit) (simp add: is_dequeue_def)
  have r: "rep ?c a" using assms(1) rep_same_lists [OF e] by simp
  note ap = implements_append [OF r assms(4,2,3), of v]
  have f: "same_lists (append_tasklet v t ?c) (requeue_tasklet v t ?c)"
    unfolding requeue_tasklet_def by (rule same_lists_trans [OF same_lists_enqueue same_lists_raise])
  let ?c2 = "requeue_tasklet v t ?c"
  have "same_static c ?c2" using ap same_static_lists [OF e] same_static_lists [OF f] same_static_trans by blast
  moreover have "dequeues ?c2 = dequeues c" "rep ?c2 (enq v t a)"
    using ap e f rep_same_lists [OF f] by (simp_all add: same_lists_def)
  moreover have "next_of ?c2 s = next_of c s" if "s \<noteq> t" "s \<notin> queued a" for s
    using ap e f that by (simp add: same_lists_def)
  ultimately show ?thesis using assms(5) by (simp add: round_ok_def)
qed

lemma run_round_ok:
  assumes "rep c a" "t \<noteq> 0" "aq_sched a t" "t \<notin> queued a" "runnable c t" "env_ok env"
  shows "\<exists>c'. tasklet_round env v t c = Inr c' \<and> round_ok c a t c' (abs_round env v c t a)"
proof -
  let ?f = "tk_func (tasklets c t)" and ?d = "tk_data (tasklets c t)"
  let ?a = "a\<lparr>aq_sched := (aq_sched a)(t := False)\<rparr>"
  let ?c1 = "upd_tasklet t (\<lambda>k. k\<lparr>tk_run := True, tk_sched := False\<rparr>) (emit (Proto Tp_looprestart) c)"
  let ?c2 = "trace_dequeue ?f ?c1"
  let ?c3 = "exec_ops env (tasklet_body env ?f ?d) ?c2"
  let ?c4 = "emit (Proto (Tp_srvexit (tk_func (tasklets ?c3 t)))) ?c3"
  let ?c5 = "upd_tasklet t (\<lambda>k. k\<lparr>tk_run := False\<rparr>) ?c4"
  have n: "next_of ?c2 = next_of c" by (auto simp: upd_tasklet_def emit_def trace_dequeue_def)
  have r: "rep ?c2 ?a"
    by (rule rep_cong [OF assms(1) n])
      (use assms(1,4) in \<open>auto simp: rep_def upd_tasklet_def emit_def trace_dequeue_def\<close>)
  have ops: "\<forall>x\<in>set (tasklet_body env ?f ?d). op_target x" using assms(6) by (simp add: env_ok_def)
  let ?a' = "fold abs_op (tasklet_body env ?f ?d) ?a"
  have i: "implements ?c2 ?a ?c3 ?a'" by (rule exec_ops_implements [OF r ops])
  have st2: "tk_func (tasklets ?c2 s) = tk_func (tasklets c s) \<and> tk_data (tasklets ?c2 s) = tk_data (tasklets c s)
      \<and> tk_count (tasklets ?c2 s) = tk_count (tasklets c s) \<and> (s \<noteq> t \<longrightarrow> tk_run (tasklets ?c2 s) = tk_run (tasklets c s))" for s
    by (simp add: upd_tasklet_def emit_def trace_dequeue_def)
  have st: "same_static c ?c5"
    using i st2 assms(5) by (simp add: implements_def same_static_def runnable_def upd_tasklet_def emit_def)
  have n5: "next_of ?c5 = next_of ?c3" by (auto simp: upd_tasklet_def emit_def)
  have r5: "rep ?c5 ?a'"
    by (rule rep_cong [of ?c3 ?a', OF _ n5]) (use i in \<open>auto simp: implements_def rep_def upd_tasklet_def emit_def\<close>)
  have "dequeues ?c5 = dequeues ?c2" using i by (simp add: implements_def dequeues_def upd_tasklet_def emit_def is_dequeue_def)
  then have d: "dequeues ?c5 = dequeues c @ [Proto (Tp_srvqueue ?f 0 0 QUEUE_DEQUEUE)]"
    by (simp add: dequeues_def upd_tasklet_def emit_def trace_dequeue_def is_dequeue_def)
  have fr: "next_of ?c5 s = next_of c s \<and> aq_sched ?a' s \<and> s \<notin> queued ?a'"
    if "s \<noteq> t" "aq_sched a s" "s \<notin> queued a" for s
  proof -
    have "aq_sched ?a s" "s \<notin> queued ?a" using that by (simp_all add: queued_def)
    then show ?thesis using i fun_cong [OF n5, of s] fun_cong [OF n, of s] unfolding implements_def by metis
  qed
  have "tk_sched (tasklets c t)" "\<not> tk_run (tasklets c t)" "tk_count (tasklets c t) = 0"
    using assms(1,3,5) by (simp_all add: rep_def runnable_def)
  then have "tasklet_round env v t c = Inr ?c5"
    by (simp add: tasklet_round_def run_tasklet_def Let_def emit_def upd_tasklet_def trace_dequeue_def)
  moreover have "round_ok c a t ?c5 (abs_round env v c t a)"
    using r5 st d fr assms(5) by (simp add: round_ok_def abs_round_def)
  ultimately show ?thesis by blast
qed

lemma tasklet_round_ok:
  assumes "rep c a" "t \<noteq> 0" "aq_sched a t" "t \<notin> queued a" "env_ok env"
  shows "\<exists>c'. tasklet_round env v t c = Inr c' \<and> round_ok c a t c' (abs_round env v c t a)"
proof (cases "runnable c t")
  case True
  then show ?thesis using run_round_ok assms by blast
next
  case False
  then have "tasklet_round env v t c = Inr (requeue_tasklet v t (emit (Proto Tp_looprestart) c))"
    by (auto simp: tasklet_round_def runnable_def Let_def emit_def)
  then show ?thesis using False requeue_round_ok [OF assms(1-4) False] by (simp add: abs_round_def)
qed

subsection \<open>The handler\<close>

definition dequeue_events :: "softcpu \<Rightarrow> addr list \<Rightarrow> tracepoint list" where
  "dequeue_events c ts = map (\<lambda>t. Proto (Tp_srvqueue (tk_func (tasklets c t)) 0 0 QUEUE_DEQUEUE)) (filter (runnable c) ts)"

lemma dequeue_events_static: "same_static c c' \<Longrightarrow> dequeue_events c' = dequeue_events c"
  by (simp add: dequeue_events_def same_static_def runnable_def [abs_def] fun_eq_iff)

lemma tasklet_loop_ok:
  assumes "chain (next_of c) list ts" "rep c a" "distinct ts" "\<forall>t\<in>set ts. aq_sched a t \<and> t \<notin> queued a" "env_ok env"
  shows "\<exists>c'. tasklet_loop env v list c = Some (Inr c') \<and> rep c' (fold (abs_round env v c) ts a)
    \<and> same_static c c' \<and> dequeues c' = dequeues c @ dequeue_events c ts"
  using assms
proof (induction ts arbitrary: list c a)
  case Nil
  then show ?case by (simp add: tasklet_loop.simps dequeue_events_def)
next
  case (Cons t ts)
  have l: "list = t" "t \<noteq> 0" "chain (next_of c) (next_of c t) ts" using Cons.prems(1) by simp_all
  let ?a = "abs_round env v c t a"
  obtain c1 where c1: "tasklet_round env v t c = Inr c1" "round_ok c a t c1 ?a"
    using tasklet_round_ok [OF Cons.prems(2) l(2) _ _ Cons.prems(5)] Cons.prems(4) by (metis list.set_intros(1))
  have fr: "next_of c1 s = next_of c s \<and> aq_sched ?a s \<and> s \<notin> queued ?a" if "s \<in> set ts" for s
  proof -
    have "s \<noteq> t" "aq_sched a s" "s \<notin> queued a" using that Cons.prems(3,4) by auto
    then show ?thesis using c1(2) by (simp add: round_ok_def)
  qed
  have st: "same_static c c1" and r1: "rep c1 ?a" using c1(2) by (simp_all add: round_ok_def)
  have "chain (next_of c1) (next_of c t) ts" by (rule chain_cong [OF l(3)]) (simp add: fr)
  from Cons.IH [OF this r1 _ _ Cons.prems(5)]
  obtain c' where c': "tasklet_loop env v (next_of c t) c1 = Some (Inr c')"
    "rep c' (fold (abs_round env v c1) ts ?a)" "same_static c1 c'" "dequeues c' = dequeues c1 @ dequeue_events c1 ts"
    using Cons.prems(3) fr by auto
  have "tasklet_loop env v list c = Some (Inr c')"
    using c'(1) c1(1) l(1,2) by (simp add: tasklet_loop.simps [of env v t c])
  moreover have "dequeues c' = dequeues c @ dequeue_events c (t # ts)"
    using c'(4) c1(2) dequeue_events_static [OF st] by (simp add: round_ok_def dequeue_events_def)
  ultimately show ?case
    using c'(2,3) same_static_trans [OF st] abs_round_static [OF st] by simp
qed

definition abs_action :: "softenv \<Rightarrow> vec_id \<Rightarrow> softcpu \<Rightarrow> task_queues \<Rightarrow> task_queues" where
  "abs_action env v c a = fold (abs_round env v c) (aq a v) (a\<lparr>aq := (aq a)(v := [])\<rparr>)"

lemma tasklet_action_ok:
  assumes "rep c a" "env_ok env"
  shows "\<exists>c'. tasklet_action_on env v c = Some (Inr c') \<and> rep c' (abs_action env v c a)
    \<and> same_static c c' \<and> dequeues c' = dequeues c @ dequeue_events c (aq a v)"
proof -
  let ?q = "of_nat (queue_code (vec_queue v))" and ?a = "a\<lparr>aq := (aq a)(v := [])\<rparr>"
  let ?c = "emit (Proto (Tp_loopstart (- 1) 0 ?q ?q)) (c\<lparr>tvec := (tvec c)(v := \<lparr>th_head = 0, th_tail = HeadSlot\<rparr>)\<rparr>)"
  have t: "tasklets ?c = tasklets c" by (simp add: emit_def)
  have vr: "vec_rep c w (aq a w)" for w using assms(1) by (simp add: rep_def)
  have "vec_rep ?c w (aq ?a w)" for w
    using vr [of w] by (cases "w = v") (simp_all add: vec_rep_def emit_def)
  moreover have "distinct (aq ?a Vec @ aq ?a HiVec)" "queued ?a \<subseteq> queued a"
    using assms(1) by (cases v; auto simp: rep_def queued_def)+
  ultimately have r: "rep ?c ?a" using assms(1) t by (auto simp: rep_def)
  have "set (aq a v) \<inter> queued ?a = {}"
    using rep_disjoint [OF assms(1)] by (cases v) (auto simp: queued_def)
  then have q: "\<forall>t\<in>set (aq a v). aq_sched ?a t \<and> t \<notin> queued ?a"
    using assms(1) queued_in by (fastforce simp: rep_def)
  have ch: "chain (next_of ?c) (th_head (tvec c v)) (aq a v)" using vr [of v] t by (simp add: vec_rep_def)
  obtain c' where c': "tasklet_loop env v (th_head (tvec c v)) ?c = Some (Inr c')"
    "rep c' (fold (abs_round env v ?c) (aq a v) ?a)" "same_static ?c c'" "dequeues c' = dequeues ?c @ dequeue_events ?c (aq a v)"
    using tasklet_loop_ok [OF ch r rep_distinct [OF assms(1)] q assms(2), of v] by blast
  let ?e = "emit (Proto Tp_loopstop) c'"
  have e: "same_lists c' ?e" by (rule same_lists_emit) (simp add: is_dequeue_def)
  have st: "same_static c ?c" by (simp add: same_static_def emit_def)
  have "tasklet_action_on env v c = Some (Inr ?e)" using c'(1) by (simp add: tasklet_action_on_def Let_def)
  moreover have "rep ?e (abs_action env v c a)"
    using c'(2) rep_same_lists [OF e] abs_round_static [OF st] by (simp add: abs_action_def)
  moreover have "same_static c ?e" using st c'(3) same_static_lists [OF e] same_static_trans by blast
  moreover have "dequeues ?e = dequeues c @ dequeue_events c (aq a v)"
    using c'(4) e dequeue_events_static [OF st] by (simp add: same_lists_def dequeues_def emit_def is_dequeue_def)
  ultimately show ?thesis by blast
qed

section \<open>Properties\<close>

text \<open>
  (C33) \<open>tasklet_action\<close> and \<open>tasklet_hi_action\<close> implement their queue specification on the linked
  lists: the handler ends without a fault, runs exactly the enabled tasklets of the queue, once and
  in their order, puts the disabled and the locked ones back, and what the tasklets schedule while
  they run is queued behind. The trace shows the executed functions in that order.
\<close>

theorem tasklet_action_refines:
  assumes "rep c a" "env_ok env"
  shows "(\<exists>c'. tasklet_action env c = Some (Inr c') \<and> rep c' (abs_action env Vec c a)
      \<and> dequeues c' = dequeues c @ dequeue_events c (aq a Vec))
    \<and> (\<exists>c'. tasklet_hi_action env c = Some (Inr c') \<and> rep c' (abs_action env HiVec c a)
      \<and> dequeues c' = dequeues c @ dequeue_events c (aq a HiVec))"
  using tasklet_action_ok [OF assms] unfolding tasklet_action_def tasklet_hi_action_def by blast

text \<open>
  The promise of \<open>interrupt.h\<close>: a tasklet that is scheduled once or many times before it runs
  is executed exactly once, behind those that were scheduled before.
\<close>

theorem tasklet_runs_once:
  assumes "rep c a" "env_ok env" "\<not> tk_sched (tasklets c t)" "runnable c t" "t \<noteq> 0"
  shows "\<exists>c'. tasklet_action env ((tasklet_schedule env t ^^ Suc n) c) = Some (Inr c')
    \<and> dequeues c' = dequeues c @ dequeue_events c (aq a Vec)
        @ [Proto (Tp_srvqueue (tk_func (tasklets c t)) 0 0 QUEUE_DEQUEUE)]"
proof -
  let ?c = "tasklet_schedule env t c" and ?a = "abs_schedule Vec t a"
  have i: "implements c a ?c ?a" unfolding tasklet_schedule_def by (rule schedule_implements [OF assms(1,5)])
  have "\<not> aq_sched a t" using assms(1,3) by (simp add: rep_def)
  then have a: "aq ?a Vec = aq a Vec @ [t]" "aq_sched ?a t" by (simp_all add: abs_schedule_def enq_def)
  have r: "rep ?c ?a" and st: "same_static c ?c" and d: "dequeues ?c = dequeues c"
    using i by (simp_all add: implements_def)
  have "tk_sched (tasklets ?c t)" using r a(2) by (simp add: rep_def)
  then have "tasklet_schedule env t ?c = ?c" by (simp add: tasklet_schedule_def tasklet_schedule_on_def)
  then have "(tasklet_schedule env t ^^ Suc n) c = ?c" by (induction n) simp_all
  moreover obtain c' where "tasklet_action env ?c = Some (Inr c')"
    "dequeues c' = dequeues ?c @ dequeue_events ?c (aq a Vec @ [t])"
    using tasklet_action_ok [OF r assms(2), of Vec] a(1) by (auto simp: tasklet_action_def)
  moreover have "dequeue_events ?c (aq a Vec @ [t]) = dequeue_events c (aq a Vec)
      @ [Proto (Tp_srvqueue (tk_func (tasklets c t)) 0 0 QUEUE_DEQUEUE)]"
    unfolding dequeue_events_static [OF st] using assms(4) by (simp add: dequeue_events_def)
  ultimately show ?thesis using d by simp
qed

text \<open>A processor with one tasklet, whose function raises the network softirq.\<close>

definition demo_softenv :: softenv where
  "demo_softenv = \<lparr>tasklet_body = (\<lambda>f d. [Op_raise 3]), action_body = (\<lambda>f. []), tasklet_action_addr = 0xC0010000,
     tasklet_hi_action_addr = 0xC0011000, wake_ra = 0xC0012000, irq_enter_addr = 0xC0013000, tick_body = [],
     force_irqthreads = False\<rparr>"

definition demo_cpu :: softcpu where
  "demo_cpu = \<lparr>preempt_count = 0, softirq_pending = 0, softirq_vec = replicate 10 0xC0010000,
     ksoftirqd = Some \<lparr>kd_pid = 3, kd_state = 1\<rparr>,
     tasklets = (\<lambda>_. \<lparr>tk_next = 0, tk_sched = False, tk_run = False, tk_count = 0, tk_func = 0xC0020000, tk_data = 0\<rparr>),
     tvec = (\<lambda>_. \<lparr>th_head = 0, th_tail = HeadSlot\<rparr>), soft_emitted = []\<rparr>"

lemma demo_soft_ok: "rep demo_cpu \<lparr>aq = (\<lambda>_. []), aq_sched = (\<lambda>_. False)\<rparr>" "env_ok demo_softenv"
  by (simp_all add: rep_def vec_rep_def queued_def demo_cpu_def env_ok_def demo_softenv_def NR_SOFTIRQS_def)

theorem tasklet_action_refines_witness:
  "\<exists>c'. tasklet_action demo_softenv demo_cpu = Some (Inr c') \<and> dequeues c' = []"
  using tasklet_action_refines [OF demo_soft_ok]
  by (auto simp: dequeue_events_def) (simp add: dequeues_def demo_cpu_def)

theorem tasklet_runs_once_witness:
  "\<exists>c'. tasklet_action demo_softenv ((tasklet_schedule demo_softenv 0xC0030000 ^^ 3) demo_cpu) = Some (Inr c')
    \<and> dequeues c' = [Proto (Tp_srvqueue 0xC0020000 0 0 QUEUE_DEQUEUE)]"
proof -
  have h: "\<not> tk_sched (tasklets demo_cpu 0xC0030000)" "runnable demo_cpu 0xC0030000" "(0xC0030000 :: addr) \<noteq> 0"
    "dequeues demo_cpu = []" "tk_func (tasklets demo_cpu 0xC0030000) = 0xC0020000"
    by (simp_all add: demo_cpu_def runnable_def dequeues_def)
  have "(3 :: nat) = Suc 2" by simp
  then show ?thesis
    using tasklet_runs_once [OF demo_soft_ok h(1-3), of 2] by (simp only: h(4,5)) (simp add: dequeue_events_def)
qed

end
