(* ===== verification/Softirq.thy ===== *)
theory Softirq
  imports Tasklet
begin

text \<open>
  The processing of softirqs on one processor, the rest of \<open>kernel/softirq.c\<close>: the loop over the
  pending softirqs with its limit, the interrupt entry and exit that invoke it, the enabling of
  bottom halves, and the thread that takes over. The counts are the configuration with a
  preemptible kernel on ARM.
\<close>

section \<open>The loop\<close>

definition then_run :: "softcpu outcome option \<Rightarrow> (softcpu \<Rightarrow> softcpu outcome option) \<Rightarrow> softcpu outcome option" where
  "then_run m f = (case m of None \<Rightarrow> None | Some r \<Rightarrow> (case r of Inl e \<Rightarrow> Some (Inl e) | Inr c \<Rightarrow> f c))"

definition MAX_SOFTIRQ_RESTART :: nat where "MAX_SOFTIRQ_RESTART = 10"

definition SOFTIRQ_OFFSET :: u32 where "SOFTIRQ_OFFSET = 0x100"

definition SOFTIRQ_DISABLE_OFFSET :: u32 where "SOFTIRQ_DISABLE_OFFSET = 2 * SOFTIRQ_OFFSET"

definition HARDIRQ_OFFSET :: u32 where "HARDIRQ_OFFSET = 0x10000"

definition IRQ_EXIT_OFFSET :: u32 where "IRQ_EXIT_OFFSET = HARDIRQ_OFFSET - 1"

definition add_preempt_count :: "u32 \<Rightarrow> softcpu \<Rightarrow> softcpu" where
  "add_preempt_count val c = c\<lparr>preempt_count := preempt_count c + val\<rparr>"

definition sub_preempt_count :: "u32 \<Rightarrow> softcpu \<Rightarrow> softcpu" where
  "sub_preempt_count val c = c\<lparr>preempt_count := preempt_count c - val\<rparr>"

definition run_action :: "softenv \<Rightarrow> addr \<Rightarrow> softcpu \<Rightarrow> softcpu outcome option" where
  "run_action env a c =
     (if a = 0 then Some (Inl NullDeref)
      else if a = tasklet_action_addr env then tasklet_action env c
      else if a = tasklet_hi_action_addr env then tasklet_hi_action env c
      else Some (Inr (exec_ops env (action_body env a) c)))"

text \<open>A handler that leaves with another count has it put right.\<close>

definition run_vec :: "softenv \<Rightarrow> nat \<Rightarrow> softcpu \<Rightarrow> softcpu outcome option" where
  "run_vec env h c =
     (case nth_checked (softirq_vec c) h of
        Inl e \<Rightarrow> Some (Inl e)
      | Inr a \<Rightarrow>
          then_run (run_action env a (trace_dequeue a c))
            (\<lambda>c'. let c2 = emit (Proto (Tp_srvexit a)) c' in
              Some (Inr (if preempt_count c2 \<noteq> preempt_count c then c2\<lparr>preempt_count := preempt_count c\<rparr> else c2))))"

definition vec_step :: "softenv \<Rightarrow> nat \<Rightarrow> u32 \<Rightarrow> softcpu \<Rightarrow> softcpu outcome option" where
  "vec_step env h pending c0 =
     (let c = emit (Proto Tp_looprestart) c0 in
      if pending AND 1 \<noteq> 0 then run_vec env h c else Some (Inr c))"

lemma unat_half: "unat (drop_bit (Suc 0) p) = unat p div 2" for p :: u32
  by (simp add: drop_bit_Suc unat_div)

lemma unat_half_less: "drop_bit (Suc 0) p \<noteq> 0 \<Longrightarrow> unat p div 2 < unat p" for p :: u32
proof -
  assume "drop_bit (Suc 0) p \<noteq> 0"
  then have "unat (drop_bit (Suc 0) p) \<noteq> 0" by (simp add: unat_eq_0)
  then show ?thesis unfolding unat_half by simp
qed

function do_vecs :: "softenv \<Rightarrow> nat \<Rightarrow> u32 \<Rightarrow> softcpu \<Rightarrow> softcpu outcome option" where
  "do_vecs env h pending c =
     (case vec_step env h pending c of
        None \<Rightarrow> None
      | Some (Inl e) \<Rightarrow> Some (Inl e)
      | Some (Inr c') \<Rightarrow>
          if drop_bit 1 pending = 0 then Some (Inr c') else do_vecs env (Suc h) (drop_bit 1 pending) c')"
  by pat_completeness auto

termination
  by (relation "measure (\<lambda>(env, h, pending, c). unat pending)") (simp_all add: unat_half unat_half_less)

definition softirq_range :: "u32 \<Rightarrow> u16 \<Rightarrow> softcpu \<Rightarrow> softcpu" where
  "softirq_range n per =
     emit (Proto (Tp_loopstart n per (of_nat (queue_code SRVQ_HI_SOFTIRQ)) (of_nat (queue_code SRVQ_HRTIMER_SOFTIRQ))))"

primrec do_rounds :: "softenv \<Rightarrow> nat \<Rightarrow> u32 \<Rightarrow> softcpu \<Rightarrow> softcpu outcome option" where
  "do_rounds env 0 pending c = Some (Inr c)"
| "do_rounds env (Suc max_restart) pending c =
     (let c1 = (emit (Proto Tp_looprestart) c)\<lparr>softirq_pending := 0\<rparr> in
      then_run (do_vecs env 0 pending (softirq_range 1 1 c1))
        (\<lambda>c2. let c3 = emit (Proto Tp_loopstop) c2; pending' = softirq_pending c3 in
          if pending' \<noteq> 0 \<and> max_restart \<noteq> 0 then do_rounds env max_restart pending' c3
          else let c4 = emit (Proto Tp_loopstop) c3
               in Some (Inr (if pending' \<noteq> 0 then wakeup_softirqd env c4 else c4))))"

definition do_softirq_irqoff :: "softenv \<Rightarrow> softcpu \<Rightarrow> softcpu outcome option" where
  "do_softirq_irqoff env c =
     (let pending = softirq_pending c;
          c1 = softirq_range (of_nat MAX_SOFTIRQ_RESTART) 0 (add_preempt_count SOFTIRQ_OFFSET c)
      in then_run (do_rounds env MAX_SOFTIRQ_RESTART pending c1)
           (\<lambda>c2. Some (Inr (sub_preempt_count SOFTIRQ_OFFSET c2))))"

definition do_softirq :: "softenv \<Rightarrow> softcpu \<Rightarrow> softcpu outcome option" where
  "do_softirq env c =
     (if in_interrupt c then Some (Inr c)
      else if softirq_pending c \<noteq> 0 then do_softirq_irqoff env c else Some (Inr c))"

section \<open>Bottom halves and interrupts\<close>

definition local_bh_disable :: "softcpu \<Rightarrow> softcpu" where
  "local_bh_disable = add_preempt_count SOFTIRQ_DISABLE_OFFSET"

definition local_bh_enable_special :: "softcpu \<Rightarrow> softcpu" where
  "local_bh_enable_special = sub_preempt_count SOFTIRQ_DISABLE_OFFSET"

definition local_bh_enable :: "softenv \<Rightarrow> softcpu \<Rightarrow> softcpu outcome option" where
  "local_bh_enable env c0 =
     (let c = sub_preempt_count (SOFTIRQ_DISABLE_OFFSET - 1) c0 in
      then_run (if \<not> in_interrupt c \<and> softirq_pending c \<noteq> 0 then do_softirq env c else Some (Inr c))
        (\<lambda>c'. Some (Inr (sub_preempt_count 1 c'))))"

definition irq_enter :: "softenv \<Rightarrow> bool \<Rightarrow> softcpu \<Rightarrow> softcpu" where
  "irq_enter env idle_cpu c0 =
     (let c1 = emit (Proto (Tp_srventry (irq_enter_addr env))) c0;
          c2 = (if idle_cpu \<and> \<not> in_interrupt c1
                then local_bh_enable_special (exec_ops env (tick_body env) (local_bh_disable c1)) else c1)
      in add_preempt_count HARDIRQ_OFFSET c2)"

definition invoke_softirq :: "softenv \<Rightarrow> softcpu \<Rightarrow> softcpu outcome option" where
  "invoke_softirq env c =
     (if \<not> force_irqthreads env then do_softirq_irqoff env c
      else Some (Inr (sub_preempt_count SOFTIRQ_OFFSET (wakeup_softirqd env (add_preempt_count SOFTIRQ_OFFSET c)))))"

definition irq_exit :: "softenv \<Rightarrow> softcpu \<Rightarrow> softcpu outcome option" where
  "irq_exit env c0 =
     (let c = sub_preempt_count IRQ_EXIT_OFFSET c0 in
      then_run (if \<not> in_interrupt c \<and> softirq_pending c \<noteq> 0 then invoke_softirq env c else Some (Inr c))
        (\<lambda>c'. Some (Inr (sub_preempt_count 1 (emit (Proto (Tp_srvexit (irq_enter_addr env))) c')))))"

section \<open>Initialisation and the thread\<close>

definition softirq_init :: "softenv \<Rightarrow> softcpu \<Rightarrow> softcpu outcome" where
  "softirq_init env c =
     bind_outcome (open_softirq TASKLET_SOFTIRQ (tasklet_action_addr env)
         (c\<lparr>tvec := (\<lambda>v. (tvec c v)\<lparr>th_tail := HeadSlot\<rparr>)\<rparr>))
       (open_softirq HI_SOFTIRQ (tasklet_hi_action_addr env))"

definition set_ksoftirqd_state :: "u32 \<Rightarrow> softcpu \<Rightarrow> softcpu" where
  "set_ksoftirqd_state st c = c\<lparr>ksoftirqd := map_option (\<lambda>k. k\<lparr>kd_state := st\<rparr>) (ksoftirqd c)\<rparr>"

text \<open>
  \<open>run_ksoftirqd\<close> in three places: it announces to sleep, then it looks at the pending softirqs with
  preemption disabled and either calls \<open>schedule\<close> or runs them. \<open>kd_scheduled\<close> says that it is in
  \<open>schedule\<close>, from which it returns when it is in the running state.
\<close>

record softrun =
  sr_cpu :: softcpu
  kd_scheduled :: bool

definition ksoftirqd_announce :: "softrun \<Rightarrow> softrun" where
  "ksoftirqd_announce r = r\<lparr>sr_cpu := set_ksoftirqd_state 1 (sr_cpu r)\<rparr>"

definition ksoftirqd_check :: "softenv \<Rightarrow> softrun \<Rightarrow> softrun outcome option" where
  "ksoftirqd_check env r =
     (let c = emit (Proto Tp_looprestart) (sr_cpu r) in
      if softirq_pending c = 0 then Some (Inr (r\<lparr>sr_cpu := c, kd_scheduled := True\<rparr>))
      else map_option (map_sum id (\<lambda>c'. r\<lparr>sr_cpu := c'\<rparr>)) (do_softirq_irqoff env
             (emit (Proto Tp_looprestart) (softirq_range (- 1) 0 (set_ksoftirqd_state 0 c)))))"

definition ksoftirqd_resume :: "softrun \<Rightarrow> softrun" where
  "ksoftirqd_resume r = r\<lparr>kd_scheduled := False\<rparr>"

section \<open>What handlers leave as it is\<close>

text \<open>The thread changes its state only to the running one.\<close>

definition kd_rel :: "softcpu \<Rightarrow> softcpu \<Rightarrow> bool" where
  "kd_rel c c' \<longleftrightarrow> ksoftirqd c' = ksoftirqd c \<or> (\<exists>k. ksoftirqd c = Some k \<and> ksoftirqd c' = Some (k\<lparr>kd_state := 0\<rparr>))"

lemma kd_rel_trans: "kd_rel a b \<Longrightarrow> kd_rel b c \<Longrightarrow> kd_rel a c"
  by (cases "ksoftirqd a") (auto simp: kd_rel_def)

definition side :: "softcpu \<Rightarrow> softcpu \<Rightarrow> bool" where
  "side c c' \<longleftrightarrow> preempt_count c' = preempt_count c \<and> softirq_vec c' = softirq_vec c \<and> kd_rel c c'
     \<and> (unat (softirq_pending c) < 1024 \<longrightarrow> unat (softirq_pending c') < 1024)"

lemma side_refl [simp]: "side c c"
  by (simp add: side_def kd_rel_def)

lemma side_trans: "side a b \<Longrightarrow> side b c \<Longrightarrow> side a c"
  by (auto simp: side_def intro: kd_rel_trans)

lemma side_emit [simp]: "side c (emit tp c)"
  by (simp add: side_def kd_rel_def emit_def)

lemma side_upd [simp]: "side c (upd_tasklet t f c)"
  by (simp add: side_def kd_rel_def upd_tasklet_def)

lemma side_wakeup [simp]: "side c (wakeup_softirqd env c)"
  by (auto simp: side_def kd_rel_def wakeup_softirqd_def emit_def Let_def split: option.split)

lemma nat_or_bound: "a < 2 ^ n \<Longrightarrow> b < 2 ^ n \<Longrightarrow> a OR b < 2 ^ n" for a b :: nat
  using take_bit_nat_less_exp [of n "a OR b"] by (simp add: take_bit_or take_bit_nat_eq_self)

lemma or_bit_bound:
  assumes "unat (p :: u32) < 1024" "nr < 10"
  shows "unat (p OR push_bit nr 1) < 1024"
proof -
  have "nr = 0 \<or> nr = 1 \<or> nr = 2 \<or> nr = 3 \<or> nr = 4 \<or> nr = 5 \<or> nr = 6 \<or> nr = 7 \<or> nr = 8 \<or> nr = 9"
    using assms(2) by arith
  then have "unat (push_bit nr (1 :: u32)) < 2 ^ 10" by (elim disjE) simp_all
  then have "unat p OR unat (push_bit nr (1 :: u32)) < 2 ^ 10" using assms(1) by (intro nat_or_bound) simp_all
  then show ?thesis by (simp add: unsigned_or_eq)
qed

lemma side_raise_bit: "nr < NR_SOFTIRQS \<Longrightarrow> side c (raise_softirq_bit nr c)"
  using or_bit_bound [of "softirq_pending c" nr]
  by (simp add: side_def kd_rel_def raise_softirq_bit_def NR_SOFTIRQS_def)

lemma side_enqueue [simp]: "side c (trace_enqueue nr c)"
  by (simp add: trace_enqueue_def)

lemma side_raise: "nr < NR_SOFTIRQS \<Longrightarrow> side c (raise_softirq_irqoff env nr c)"
  using side_trans [OF side_enqueue side_raise_bit, of nr c nr] side_trans [OF _ side_wakeup]
  by (simp add: raise_softirq_irqoff_def Let_def)

lemma side_append [simp]: "side c (append_tasklet v t c)"
  by (simp add: side_def kd_rel_def append_tasklet_fields)

lemma vec_softirq_bound: "vec_softirq v < NR_SOFTIRQS"
  by (cases v) (simp_all add: TASKLET_SOFTIRQ_def HI_SOFTIRQ_def NR_SOFTIRQS_def)

lemma side_schedule: "side c (tasklet_schedule_on env v t c)"
  using side_trans [OF side_trans [OF side_upd side_append] side_raise [OF vec_softirq_bound]]
  by (simp add: tasklet_schedule_on_def queue_tasklet_def)

lemma side_ops: "\<forall>x\<in>set xs. op_target x \<Longrightarrow> side c (exec_ops env xs c)"
proof (induction xs arbitrary: c)
  case (Cons x xs)
  have "side c (exec_op env x c)"
    using Cons.prems by (cases x) (simp_all add: tasklet_schedule_def tasklet_hi_schedule_def side_schedule
        raise_softirq_def side_raise)
  then show ?case using Cons.IH [of "exec_op env x c"] Cons.prems side_trans by (simp add: exec_ops_def)
qed (simp add: exec_ops_def)

lemma side_round:
  assumes "env_ok env" "tasklet_round env v t c = Inr c'"
  shows "side c c'"
proof -
  have rq: "side c (requeue_tasklet v t (emit tp c))" for tp
    unfolding requeue_tasklet_def
    by (rule side_trans [OF side_trans [OF side_trans [OF side_emit side_append] side_enqueue]
          side_raise_bit [OF vec_softirq_bound]])
  have rn: "side c (run_tasklet env t c)" for c
    unfolding run_tasklet_def Let_def trace_dequeue_def
    by (rule side_trans [OF side_trans [OF side_emit side_ops] side_emit]) (use assms(1) in \<open>simp add: env_ok_def\<close>)
  show ?thesis
    using assms(2) rq [of "Proto Tp_looprestart"]
      side_trans [OF side_trans [OF side_trans [OF side_emit side_upd] rn] side_upd]
    by (auto simp: tasklet_round_def Let_def split: if_splits)
qed

lemma side_loop:
  assumes "env_ok env" "tasklet_loop env v list c = Some (Inr c')"
  shows "side c c'"
proof -
  have "env_ok env \<longrightarrow> (\<forall>c'. r = Inr c' \<longrightarrow> side c c')" if "tasklet_loop env v list c = Some r" for r
  proof (rule tasklet_loop.raw_induct [OF _ that, where P = "\<lambda>env v list c r. env_ok env \<longrightarrow> (\<forall>c'. r = Inr c' \<longrightarrow> side c c')"])
    fix f :: "softenv \<Rightarrow> vec_id \<Rightarrow> addr \<Rightarrow> softcpu \<Rightarrow> softcpu outcome option" and env v list c r
    assume IH: "\<And>env v list c y. f env v list c = Some y \<Longrightarrow> env_ok env \<longrightarrow> (\<forall>c'. y = Inr c' \<longrightarrow> side c c')"
      and eq: "(if list = 0 then Some (Inr c) else case tasklet_round env v list c of Inl e \<Rightarrow> Some (Inl e)
        | Inr c' \<Rightarrow> f env v (next_of c list) c') = Some r"
    show "env_ok env \<longrightarrow> (\<forall>c'. r = Inr c' \<longrightarrow> side c c')"
    proof (cases "list = 0")
      case False
      show ?thesis
      proof (cases "tasklet_round env v list c")
        case (Inr c1)
        then have "f env v (next_of c list) c1 = Some r" using eq False by simp
        then show ?thesis using IH side_round [OF _ Inr] side_trans by blast
      qed (use eq False in auto)
    qed (use eq in auto)
  qed
  with assms show ?thesis by blast
qed

section \<open>The invariant\<close>

definition cpu_ok :: "softcpu \<Rightarrow> bool" where
  "cpu_ok c \<longleftrightarrow> (\<exists>a. rep c a) \<and> length (softirq_vec c) = NR_SOFTIRQS \<and> 0 \<notin> set (softirq_vec c)
     \<and> unat (softirq_pending c) < 1024 \<and> (\<forall>k. ksoftirqd c = Some k \<longrightarrow> kd_state k = 0 \<or> kd_state k = 1)"

definition awake :: "softcpu \<Rightarrow> bool" where
  "awake c = (case ksoftirqd c of None \<Rightarrow> True | Some k \<Rightarrow> kd_state k = 0)"

lemma cpu_ok_rep: "cpu_ok c \<Longrightarrow> side c c' \<Longrightarrow> rep c' a \<Longrightarrow> cpu_ok c'"
  by (cases "ksoftirqd c") (auto simp: cpu_ok_def side_def kd_rel_def)

lemma rep_lists: "tasklets c' = tasklets c \<Longrightarrow> tvec c' = tvec c \<Longrightarrow> rep c' a = rep c a"
  by (simp add: rep_def vec_rep_def)

lemma cpu_ok_lists: "cpu_ok c \<Longrightarrow> side c c' \<Longrightarrow> tasklets c' = tasklets c \<Longrightarrow> tvec c' = tvec c \<Longrightarrow> cpu_ok c'"
proof -
  assume h: "cpu_ok c" "side c c'" "tasklets c' = tasklets c" "tvec c' = tvec c"
  then obtain a where "rep c a" by (auto simp: cpu_ok_def)
  then have "rep c' a" using rep_lists [OF h(3,4)] by simp
  with h show ?thesis by (blast intro: cpu_ok_rep)
qed

lemma cpu_ok_emit [simp]: "cpu_ok c \<Longrightarrow> cpu_ok (emit tp c)"
  by (erule cpu_ok_lists) (simp_all, simp_all add: emit_def)

lemma wakeup_lists: "tasklets (wakeup_softirqd env c) = tasklets c" "tvec (wakeup_softirqd env c) = tvec c"
  "softirq_pending (wakeup_softirqd env c) = softirq_pending c"
  using same_lists_wakeup [of c env]
  by (auto simp: same_lists_def wakeup_softirqd_def emit_def Let_def split: option.split)

lemma cpu_ok_wakeup [simp]: "cpu_ok c \<Longrightarrow> cpu_ok (wakeup_softirqd env c)"
  by (erule cpu_ok_lists) (simp_all add: wakeup_lists)

lemma awake_wakeup:
  "\<forall>k. ksoftirqd c = Some k \<longrightarrow> kd_state k = 0 \<or> kd_state k = 1 \<Longrightarrow> awake (wakeup_softirqd env c)"
  by (auto simp: awake_def wakeup_softirqd_def emit_def TASK_ALL_def Let_def split: option.split)

lemma awake_side: "side c c' \<Longrightarrow> awake c \<Longrightarrow> awake c'"
  by (auto simp: side_def kd_rel_def awake_def)

lemma ops_ok: "cpu_ok c \<Longrightarrow> \<forall>x\<in>set xs. op_target x \<Longrightarrow> cpu_ok (exec_ops env xs c)"
proof -
  assume h: "cpu_ok c" "\<forall>x\<in>set xs. op_target x"
  then obtain a where "rep c a" by (auto simp: cpu_ok_def)
  then have "rep (exec_ops env xs c) (fold abs_op xs a)"
    using exec_ops_implements [OF _ h(2)] by (simp add: implements_def)
  with h show ?thesis using cpu_ok_rep side_ops by blast
qed

lemma tasklet_action_side:
  assumes "cpu_ok c" "env_ok env"
  shows "\<exists>c'. tasklet_action_on env v c = Some (Inr c') \<and> cpu_ok c' \<and> side c c'"
proof -
  obtain a where "rep c a" using assms(1) by (auto simp: cpu_ok_def)
  from tasklet_action_ok [OF this assms(2), of v] obtain c'
    where c': "tasklet_action_on env v c = Some (Inr c')" "rep c' (abs_action env v c a)" by blast
  let ?q = "of_nat (queue_code (vec_queue v))"
  let ?c = "emit (Proto (Tp_loopstart (- 1) 0 ?q ?q)) (c\<lparr>tvec := (tvec c)(v := \<lparr>th_head = 0, th_tail = HeadSlot\<rparr>)\<rparr>)"
  obtain c1 where c1: "tasklet_loop env v (th_head (tvec c v)) ?c = Some (Inr c1)" "c' = emit (Proto Tp_loopstop) c1"
  proof -
    obtain z where "tasklet_loop env v (th_head (tvec c v)) ?c = Some z" "map_sum id (emit (Proto Tp_loopstop)) z = Inr c'"
      using c'(1) by (auto simp: tasklet_action_on_def Let_def)
    then show ?thesis using that by (cases z) auto
  qed
  have "side c ?c" by (simp add: side_def kd_rel_def emit_def)
  then have "side c c1" by (rule side_trans) (rule side_loop [OF assms(2) c1(1)])
  then have "side c c'" unfolding c1(2) by (rule side_trans) (rule side_emit)
  with c' show ?thesis using cpu_ok_rep [OF assms(1)] by blast
qed

lemma run_action_ok:
  assumes "cpu_ok c" "env_ok env" "a \<noteq> 0"
  shows "\<exists>c'. run_action env a c = Some (Inr c') \<and> cpu_ok c' \<and> side c c'"
  using tasklet_action_side [OF assms(1,2)] ops_ok [OF assms(1)] side_ops assms(2,3)
  by (auto simp: run_action_def tasklet_action_def tasklet_hi_action_def env_ok_def)

lemma run_vec_ok:
  assumes "cpu_ok c" "env_ok env" "h < NR_SOFTIRQS"
  shows "\<exists>c'. run_vec env h c = Some (Inr c') \<and> cpu_ok c' \<and> side c c'"
proof -
  let ?a = "softirq_vec c ! h"
  have h: "h < length (softirq_vec c)" "?a \<noteq> 0"
    using assms(1,3) by (auto simp: cpu_ok_def) (metis nth_mem)
  have d: "cpu_ok (trace_dequeue ?a c)" "side c (trace_dequeue ?a c)"
    using assms(1) by (simp_all add: trace_dequeue_def)
  from run_action_ok [OF d(1) assms(2) h(2)] obtain c1
    where c1: "run_action env ?a (trace_dequeue ?a c) = Some (Inr c1)" "cpu_ok c1" "side (trace_dequeue ?a c) c1" by blast
  let ?c2 = "emit (Proto (Tp_srvexit ?a)) c1"
  have s: "side c ?c2" by (rule side_trans [OF side_trans [OF d(2) c1(3)] side_emit])
  then have "run_vec env h c = Some (Inr ?c2)"
    using c1(1) h(1) by (simp add: run_vec_def then_run_def Let_def side_def)
  then show ?thesis using c1(2) s by simp
qed

lemma vec_step_ok:
  assumes "cpu_ok c" "env_ok env" "unat pending < 2 ^ (NR_SOFTIRQS - h)"
  shows "\<exists>c'. vec_step env h pending c = Some (Inr c') \<and> cpu_ok c' \<and> side c c'"
proof (cases "pending AND 1 = 0")
  case True
  then show ?thesis using assms(1) by (simp add: vec_step_def Let_def)
next
  case False
  then have "unat pending \<noteq> 0" by (metis unat_eq_0 zero_and_eq)
  then have "h < NR_SOFTIRQS" using assms(3) by (cases "NR_SOFTIRQS - h") auto
  then show ?thesis
    using run_vec_ok [of "emit (Proto Tp_looprestart) c" env h] assms(1,2) False side_trans [OF side_emit]
    by (fastforce simp: vec_step_def Let_def)
qed

lemma do_vecs_ok:
  assumes "cpu_ok c" "env_ok env" "unat pending < 2 ^ (NR_SOFTIRQS - h)"
  shows "\<exists>c'. do_vecs env h pending c = Some (Inr c') \<and> cpu_ok c' \<and> side c c'"
  using assms
proof (induction env h pending c rule: do_vecs.induct)
  case (1 env h pending c)
  obtain c1 where c1: "vec_step env h pending c = Some (Inr c1)" "cpu_ok c1" "side c c1"
    using vec_step_ok [OF 1(2-4)] by blast
  show ?case
  proof (cases "drop_bit 1 pending = 0")
    case True
    then show ?thesis using c1 by (simp add: do_vecs.simps [of env h pending c])
  next
    case False
    have "unat pending div 2 < 2 ^ (NR_SOFTIRQS - Suc h)"
    proof (cases "NR_SOFTIRQS - h")
      case 0
      then show ?thesis using 1(4) False unat_half_less [of pending] by simp
    next
      case (Suc m)
      then have "NR_SOFTIRQS - Suc h = m" by simp
      then show ?thesis using 1(4) Suc by simp
    qed
    then obtain c2 where "do_vecs env (Suc h) (drop_bit 1 pending) c1 = Some (Inr c2)" "cpu_ok c2" "side c1 c2"
      using 1(1) [OF c1(1) refl False c1(2) 1(3)] unat_half [of pending] by auto
    then show ?thesis using c1 False side_trans by (auto simp: do_vecs.simps [of env h pending c])
  qed
qed

lemma do_rounds_ok:
  assumes "cpu_ok c" "env_ok env" "unat pending < 1024" "0 < n"
  shows "\<exists>c'. do_rounds env n pending c = Some (Inr c') \<and> cpu_ok c' \<and> side c c' \<and> (softirq_pending c' = 0 \<or> awake c')"
  using assms
proof (induction n arbitrary: c pending)
  case (Suc n)
  let ?c1 = "(emit (Proto Tp_looprestart) c)\<lparr>softirq_pending := 0\<rparr>"
  let ?c2 = "softirq_range 1 1 ?c1"
  have s1: "side c ?c1" by (simp add: side_def kd_rel_def emit_def)
  have "cpu_ok ?c1" by (rule cpu_ok_lists [OF Suc.prems(1) s1]) (simp_all add: emit_def)
  then have "cpu_ok ?c2" "side c ?c2" using side_trans [OF s1 side_emit] by (simp_all add: softirq_range_def)
  moreover have "unat pending < 2 ^ (NR_SOFTIRQS - 0)" using Suc.prems(3) by (simp add: NR_SOFTIRQS_def)
  ultimately obtain c3 where c3: "do_vecs env 0 pending ?c2 = Some (Inr c3)" "cpu_ok c3" "side c c3"
    using do_vecs_ok [OF _ Suc.prems(2)] side_trans by blast
  let ?c4 = "emit (Proto Tp_loopstop) c3"
  have c4: "cpu_ok ?c4" "side c ?c4" using c3 side_trans [OF _ side_emit] by simp_all
  show ?case
  proof (cases "softirq_pending ?c4 \<noteq> 0 \<and> n \<noteq> 0")
    case True
    have "unat (softirq_pending ?c4) < 1024" using c4(1) by (simp add: cpu_ok_def)
    then obtain c' where "do_rounds env n (softirq_pending ?c4) ?c4 = Some (Inr c')" "cpu_ok c'" "side ?c4 c'"
      "softirq_pending c' = 0 \<or> awake c'"
      using Suc.IH [OF c4(1) Suc.prems(2)] True by blast
    then show ?thesis using True c3(1) side_trans [OF c4(2)] by (auto simp: then_run_def Let_def)
  next
    case False
    let ?c5 = "emit (Proto Tp_loopstop) ?c4"
    have c5: "cpu_ok ?c5" "side c ?c5" "softirq_pending ?c5 = softirq_pending ?c4"
      using c4 side_trans [OF _ side_emit] by (simp, blast, simp add: emit_def)
    let ?c6 = "if softirq_pending ?c4 \<noteq> 0 then wakeup_softirqd env ?c5 else ?c5"
    have "do_rounds env (Suc n) pending c = Some (Inr ?c6)"
      using False c3(1) by (auto simp: then_run_def Let_def)
    moreover have "cpu_ok ?c6 \<and> side c ?c6 \<and> (softirq_pending ?c6 = 0 \<or> awake ?c6)"
      using c5 awake_wakeup [of ?c5 env] c5(1) [unfolded cpu_ok_def] side_trans [OF c5(2) side_wakeup] by simp
    ultimately show ?thesis by blast
  qed
qed simp

text \<open>Processing ends, keeps the counts, and leaves nothing behind without waking the thread.\<close>

lemma do_softirq_irqoff_ok:
  assumes "cpu_ok c" "env_ok env"
  shows "\<exists>c'. do_softirq_irqoff env c = Some (Inr c') \<and> cpu_ok c' \<and> side c c' \<and> (softirq_pending c' = 0 \<or> awake c')"
proof -
  let ?c1 = "softirq_range (of_nat MAX_SOFTIRQ_RESTART) 0 (add_preempt_count SOFTIRQ_OFFSET c)"
  have f: "tasklets ?c1 = tasklets c" "tvec ?c1 = tvec c" "softirq_vec ?c1 = softirq_vec c" "ksoftirqd ?c1 = ksoftirqd c"
    "softirq_pending ?c1 = softirq_pending c" "preempt_count ?c1 = preempt_count c + SOFTIRQ_OFFSET"
    by (simp_all add: softirq_range_def emit_def add_preempt_count_def)
  then have ok: "cpu_ok ?c1" "unat (softirq_pending c) < 1024"
    using assms(1) rep_lists [OF f(1,2)] by (simp_all add: cpu_ok_def)
  obtain c2 where c2: "do_rounds env MAX_SOFTIRQ_RESTART (softirq_pending c) ?c1 = Some (Inr c2)" "cpu_ok c2" "side ?c1 c2"
    "softirq_pending c2 = 0 \<or> awake c2"
    using do_rounds_ok [OF ok(1) assms(2) ok(2), of MAX_SOFTIRQ_RESTART] by (auto simp: MAX_SOFTIRQ_RESTART_def)
  let ?c3 = "sub_preempt_count SOFTIRQ_OFFSET c2"
  have "cpu_ok ?c3"
    using c2(2) rep_lists [of ?c3 c2] by (simp add: cpu_ok_def sub_preempt_count_def)
  moreover have "side c ?c3" using c2(3) f by (simp add: side_def kd_rel_def sub_preempt_count_def)
  moreover have "softirq_pending ?c3 = 0 \<or> awake ?c3" using c2(4) by (simp add: sub_preempt_count_def awake_def)
  ultimately show ?thesis using c2(1) by (simp add: do_softirq_irqoff_def then_run_def Let_def)
qed

section \<open>Runs\<close>

lemma nat_and_push_bit: "n AND push_bit k m = push_bit k (drop_bit k n AND m)" for n m :: nat
  by (rule bit_eqI) (auto simp: bit_and_iff bit_push_bit_iff bit_drop_bit_eq)

lemma in_interrupt_iff:
  assumes "unat (preempt_count c) < 2 ^ 27"
  shows "in_interrupt c \<longleftrightarrow> 256 \<le> unat (preempt_count c)"
proof -
  let ?n = "unat (preempt_count c)"
  have "unat (preempt_count c AND IRQ_COUNT_MASK) = ?n AND push_bit 8 (mask 19)"
    by (simp add: IRQ_COUNT_MASK_def unsigned_and_eq push_bit_eq_mult mask_eq_exp_minus_1)
  also have "\<dots> = push_bit 8 (take_bit 19 (drop_bit 8 ?n))"
    by (simp only: nat_and_push_bit take_bit_eq_mask)
  also have "\<dots> = 256 * ((?n div 256) mod 2 ^ 19)"
    by (simp add: push_bit_eq_mult take_bit_eq_mod drop_bit_eq_div)
  also have "\<dots> = 256 * (?n div 256)"
    using assms by (simp add: less_mult_imp_div_less)
  finally have u: "unat (preempt_count c AND IRQ_COUNT_MASK) = 256 * (?n div 256)" .
  have "in_interrupt c \<longleftrightarrow> unat (preempt_count c AND IRQ_COUNT_MASK) \<noteq> 0"
    unfolding in_interrupt_def by (simp add: unat_eq_0)
  then show ?thesis unfolding u by simp linarith
qed

text \<open>
  Everything that may happen on the processor, one after the other: calls from any context,
  interrupts, the enabling of bottom halves, and the steps of the thread. The guards are the nesting
  rules: the counts are balanced and do not overflow their fields, and the thread runs in its own
  context.
\<close>

definition nested :: "softcpu \<Rightarrow> bool" where
  "nested c \<longleftrightarrow> unat (preempt_count c) < 2 ^ 26 \<and> unat (preempt_count c) mod 256 \<noteq> 255"

inductive soft_step :: "softenv \<Rightarrow> softrun \<Rightarrow> softrun \<Rightarrow> bool" for env where
  ss_op: "op_target x \<Longrightarrow> soft_step env r (r\<lparr>sr_cpu := exec_op env x (sr_cpu r)\<rparr>)"
| ss_do: "do_softirq env (sr_cpu r) = Some (Inr c') \<Longrightarrow> soft_step env r (r\<lparr>sr_cpu := c'\<rparr>)"
| ss_bh_disable: "nested (sr_cpu r) \<Longrightarrow> soft_step env r (r\<lparr>sr_cpu := local_bh_disable (sr_cpu r)\<rparr>)"
| ss_bh_enable: "nested (sr_cpu r) \<Longrightarrow> 512 \<le> unat (preempt_count (sr_cpu r)) \<Longrightarrow>
    local_bh_enable env (sr_cpu r) = Some (Inr c') \<Longrightarrow> soft_step env r (r\<lparr>sr_cpu := c'\<rparr>)"
| ss_irq_enter: "nested (sr_cpu r) \<Longrightarrow> soft_step env r (r\<lparr>sr_cpu := irq_enter env idle (sr_cpu r)\<rparr>)"
| ss_irq_exit: "nested (sr_cpu r) \<Longrightarrow> 65536 \<le> unat (preempt_count (sr_cpu r)) \<Longrightarrow>
    irq_exit env (sr_cpu r) = Some (Inr c') \<Longrightarrow> soft_step env r (r\<lparr>sr_cpu := c'\<rparr>)"
| ss_announce: "\<not> kd_scheduled r \<Longrightarrow> soft_step env r (ksoftirqd_announce r)"
| ss_check: "\<not> kd_scheduled r \<Longrightarrow> ksoftirqd_check env r = Some (Inr r') \<Longrightarrow> soft_step env r r'"
| ss_resume: "kd_scheduled r \<Longrightarrow> awake (sr_cpu r) \<Longrightarrow> soft_step env r (ksoftirqd_resume r)"

definition quiet :: "softrun \<Rightarrow> bool" where
  "quiet r \<longleftrightarrow> cpu_ok (sr_cpu r)
     \<and> (in_interrupt (sr_cpu r) \<or> softirq_pending (sr_cpu r) = 0 \<or> awake (sr_cpu r) \<or> \<not> kd_scheduled r)"

lemma cpu_ok_count [simp]:
  "cpu_ok (add_preempt_count n c) = cpu_ok c" "cpu_ok (sub_preempt_count n c) = cpu_ok c"
  using rep_lists [of "add_preempt_count n c" c] rep_lists [of "sub_preempt_count n c" c]
  by (simp_all add: cpu_ok_def add_preempt_count_def sub_preempt_count_def)

lemma count_fields [simp]:
  "softirq_pending (add_preempt_count n c) = softirq_pending c" "softirq_pending (sub_preempt_count n c) = softirq_pending c"
  "awake (add_preempt_count n c) = awake c" "awake (sub_preempt_count n c) = awake c"
  "preempt_count (add_preempt_count n c) = preempt_count c + n" "preempt_count (sub_preempt_count n c) = preempt_count c - n"
  by (simp_all add: add_preempt_count_def sub_preempt_count_def awake_def)

lemma in_interrupt_side: "side c c' \<Longrightarrow> in_interrupt c' = in_interrupt c"
  by (simp add: side_def in_interrupt_def)

text \<open>Outside of interrupts, raising wakes the thread.\<close>

lemma raise_awake:
  assumes "\<forall>k. ksoftirqd c = Some k \<longrightarrow> kd_state k = 0 \<or> kd_state k = 1"
  shows "in_interrupt (raise_softirq_irqoff env nr c) \<or> awake (raise_softirq_irqoff env nr c)"
  using assms awake_wakeup [of "raise_softirq_bit nr (trace_enqueue nr c)" env]
  by (simp add: raise_softirq_irqoff_def Let_def raise_softirq_bit_def trace_enqueue_def emit_def)

lemma op_quiet:
  assumes "cpu_ok c" "op_target x"
  shows "cpu_ok (exec_op env x c)" "exec_op env x c = c \<or> in_interrupt (exec_op env x c) \<or> awake (exec_op env x c)"
proof -
  show "cpu_ok (exec_op env x c)" using ops_ok [OF assms(1), of "[x]" env] assms(2) by (simp add: exec_ops_def)
  have sched: "tasklet_schedule_on env v t c = c \<or> in_interrupt (tasklet_schedule_on env v t c)
      \<or> awake (tasklet_schedule_on env v t c)" for v t
  proof (cases "tk_sched (tasklets c t)")
    case False
    let ?c = "append_tasklet v t (upd_tasklet t (\<lambda>k. k\<lparr>tk_sched := True\<rparr>) c)"
    have "ksoftirqd ?c = ksoftirqd c" by (simp add: append_tasklet_fields upd_tasklet_def)
    then have "\<forall>k. ksoftirqd ?c = Some k \<longrightarrow> kd_state k = 0 \<or> kd_state k = 1" using assms(1) by (simp add: cpu_ok_def)
    then have "in_interrupt (raise_softirq_irqoff env nr ?c) \<or> awake (raise_softirq_irqoff env nr ?c)" for nr
      by (rule raise_awake)
    then show ?thesis using False by (simp add: tasklet_schedule_on_def queue_tasklet_def)
  qed (simp add: tasklet_schedule_on_def)
  have kd: "\<forall>k. ksoftirqd c = Some k \<longrightarrow> kd_state k = 0 \<or> kd_state k = 1" using assms(1) by (simp add: cpu_ok_def)
  show "exec_op env x c = c \<or> in_interrupt (exec_op env x c) \<or> awake (exec_op env x c)"
    using sched raise_awake [OF kd]
    by (cases x) (simp_all add: tasklet_schedule_def tasklet_hi_schedule_def raise_softirq_def)
qed

lemma do_softirq_ok:
  assumes "cpu_ok c" "env_ok env"
  shows "\<exists>c'. do_softirq env c = Some (Inr c') \<and> cpu_ok c' \<and> side c c'
    \<and> (in_interrupt c' \<or> softirq_pending c' = 0 \<or> awake c')"
proof (cases "in_interrupt c \<or> softirq_pending c = 0")
  case True
  then show ?thesis using assms(1) by (auto simp: do_softirq_def)
next
  case False
  then show ?thesis using do_softirq_irqoff_ok [OF assms] by (auto simp: do_softirq_def)
qed

lemma unat_minus: "unat b \<le> unat a \<Longrightarrow> unat (a - b) = unat a - unat b" for a b :: u32
  by (simp add: unat_sub word_le_nat_alt)

lemma unat_plus: "unat a + unat b < 2 ^ 32 \<Longrightarrow> unat (a + b) = unat a + unat b" for a b :: u32
  by (simp add: unat_word_ariths)

text \<open>The last decrement does not leave the interrupt context.\<close>

lemma leave_count:
  assumes "nested c" "unat n + 1 \<le> unat (preempt_count c)" "unat n mod 256 = 255" "side (sub_preempt_count n c) c'"
    "in_interrupt (sub_preempt_count n c)"
  shows "in_interrupt (sub_preempt_count 1 c')"
proof -
  let ?p = "unat (preempt_count c)"
  have m: "unat (preempt_count c - n) = ?p - unat n" using assms(2) by (intro unat_minus) simp
  have "?p < 2 ^ 27" using assms(1) by (simp add: nested_def)
  then have lt: "?p - unat n < 2 ^ 27" "?p - unat n - 1 < 2 ^ 27" by (simp_all add: less_imp_diff_less)
  have "256 \<le> ?p - unat n"
    using assms(5) in_interrupt_iff [of "sub_preempt_count n c"] lt(1) m by simp
  moreover have "?p - unat n \<noteq> 256"
  proof
    assume "?p - unat n = 256"
    then have "?p = unat n + 256" using assms(2) by simp
    then have "?p mod 256 = unat n mod 256" by simp
    then show False using assms(1,3) by (simp add: nested_def)
  qed
  moreover have c': "preempt_count c' = preempt_count c - n" using assms(4) by (simp add: side_def)
  moreover have "unat (preempt_count c' - 1) = ?p - unat n - 1"
    using m calculation(1) by (subst unat_minus) (simp_all add: c')
  ultimately show ?thesis
    using lt(2) in_interrupt_iff [of "sub_preempt_count 1 c'"] by simp
qed

lemma bh_enable_ok:
  assumes "cpu_ok c" "env_ok env" "nested c" "512 \<le> unat (preempt_count c)" "local_bh_enable env c = Some (Inr c')"
  shows "cpu_ok c' \<and> (in_interrupt c' \<or> softirq_pending c' = 0 \<or> awake c')"
proof -
  let ?n = "SOFTIRQ_DISABLE_OFFSET - 1"
  let ?c = "sub_preempt_count ?n c"
  have n: "unat ?n = 511" by (simp add: SOFTIRQ_DISABLE_OFFSET_def SOFTIRQ_OFFSET_def)
  show ?thesis
  proof (cases "\<not> in_interrupt ?c \<and> softirq_pending ?c \<noteq> 0")
    case True
    obtain c1 where "do_softirq env ?c = Some (Inr c1)" "cpu_ok c1" "side ?c c1"
      "in_interrupt c1 \<or> softirq_pending c1 = 0 \<or> awake c1"
      using do_softirq_ok [of ?c env] assms(1,2) by auto
    then show ?thesis
      using assms(5) True in_interrupt_side [of ?c c1] by (auto simp: local_bh_enable_def then_run_def Let_def)
  next
    case False
    then have c': "c' = sub_preempt_count 1 ?c" using assms(5) by (auto simp: local_bh_enable_def then_run_def Let_def)
    show ?thesis
      using False assms(1) leave_count [of c ?n ?c] assms(3,4) n by (auto simp: c')
  qed
qed

lemma invoke_softirq_ok:
  assumes "cpu_ok c" "env_ok env"
  shows "\<exists>c'. invoke_softirq env c = Some (Inr c') \<and> cpu_ok c' \<and> (softirq_pending c' = 0 \<or> awake c')"
proof (cases "force_irqthreads env")
  case True
  let ?c = "add_preempt_count SOFTIRQ_OFFSET c"
  have "cpu_ok ?c" using assms(1) by simp
  then have "cpu_ok (wakeup_softirqd env ?c)" "awake (wakeup_softirqd env ?c)"
    using awake_wakeup [of ?c env] by (simp, simp add: cpu_ok_def)
  then show ?thesis using True by (simp add: invoke_softirq_def)
qed (use do_softirq_irqoff_ok [OF assms] in \<open>auto simp: invoke_softirq_def\<close>)

lemma irq_enter_ok:
  assumes "cpu_ok c" "env_ok env" "nested c"
  shows "cpu_ok (irq_enter env idle c) \<and> in_interrupt (irq_enter env idle c)"
proof -
  let ?c1 = "emit (Proto (Tp_srventry (irq_enter_addr env))) c"
  let ?c2 = "if idle \<and> \<not> in_interrupt ?c1
    then local_bh_enable_special (exec_ops env (tick_body env) (local_bh_disable ?c1)) else ?c1"
  have ops: "\<forall>x\<in>set (tick_body env). op_target x" using assms(2) by (simp add: env_ok_def)
  have "side (local_bh_disable ?c1) (exec_ops env (tick_body env) (local_bh_disable ?c1))" by (rule side_ops [OF ops])
  then have "preempt_count ?c2 = preempt_count c"
    by (simp add: local_bh_enable_special_def local_bh_disable_def side_def) (simp add: emit_def)
  then have "unat (preempt_count (irq_enter env idle c)) = unat (preempt_count c) + 65536"
    using assms(3) unat_plus [of "preempt_count c" HARDIRQ_OFFSET]
    by (simp add: irq_enter_def Let_def HARDIRQ_OFFSET_def nested_def)
  moreover have "cpu_ok (exec_ops env (tick_body env) (local_bh_disable ?c1))"
    using ops_ok [OF _ ops, of "local_bh_disable ?c1" env] assms(1) by (simp add: local_bh_disable_def)
  then have "cpu_ok (irq_enter env idle c)"
    using assms(1) by (simp add: irq_enter_def Let_def local_bh_enable_special_def)
  ultimately show ?thesis using assms(3) in_interrupt_iff [of "irq_enter env idle c"] by (simp add: nested_def)
qed

lemma set_ksoftirqd_cpu_ok: "cpu_ok c \<Longrightarrow> cpu_ok (set_ksoftirqd_state 0 c) \<and> cpu_ok (set_ksoftirqd_state 1 c)"
  using rep_lists [of "set_ksoftirqd_state 0 c" c] rep_lists [of "set_ksoftirqd_state 1 c" c]
  by (auto simp: cpu_ok_def set_ksoftirqd_state_def)

lemma irq_exit_ok:
  assumes "cpu_ok c" "env_ok env" "nested c" "65536 \<le> unat (preempt_count c)" "irq_exit env c = Some (Inr c')"
  shows "cpu_ok c' \<and> (in_interrupt c' \<or> softirq_pending c' = 0 \<or> awake c')"
proof -
  let ?n = IRQ_EXIT_OFFSET
  let ?c = "sub_preempt_count ?n c"
  let ?e = "emit (Proto (Tp_srvexit (irq_enter_addr env)))"
  have n: "unat ?n = 65535" by (simp add: IRQ_EXIT_OFFSET_def HARDIRQ_OFFSET_def)
  have e: "cpu_ok (?e d) = cpu_ok d" "softirq_pending (?e d) = softirq_pending d" "awake (?e d) = awake d" for d
    using rep_lists [of "?e d" d] by (simp_all add: emit_def cpu_ok_def awake_def)
  show ?thesis
  proof (cases "\<not> in_interrupt ?c \<and> softirq_pending ?c \<noteq> 0")
    case True
    obtain c1 where "invoke_softirq env ?c = Some (Inr c1)" "cpu_ok c1" "softirq_pending c1 = 0 \<or> awake c1"
      using invoke_softirq_ok [of ?c env] assms(1,2) by auto
    then show ?thesis using assms(5) True e by (auto simp: irq_exit_def then_run_def Let_def)
  next
    case False
    then have c': "c' = sub_preempt_count 1 (?e ?c)" using assms(5) by (auto simp: irq_exit_def then_run_def Let_def)
    show ?thesis
      using False assms(1) leave_count [of c ?n "?e ?c"] assms(3,4) n e by (auto simp: c')
  qed
qed

lemma soft_step_quiet:
  assumes "soft_step env r r'" "env_ok env" "quiet r"
  shows "quiet r'"
  using assms(1)
proof cases
  case (ss_op x)
  then show ?thesis using op_quiet [of "sr_cpu r" x env] assms(3) by (auto simp: quiet_def)
next
  case (ss_do c')
  then show ?thesis using do_softirq_ok [of "sr_cpu r" env] assms(2,3) by (auto simp: quiet_def)
next
  case ss_bh_disable
  have "unat (preempt_count (sr_cpu r) + SOFTIRQ_DISABLE_OFFSET) = unat (preempt_count (sr_cpu r)) + 512"
    using ss_bh_disable(2) by (subst unat_plus) (auto simp: nested_def SOFTIRQ_DISABLE_OFFSET_def SOFTIRQ_OFFSET_def)
  then have "in_interrupt (local_bh_disable (sr_cpu r))"
    using ss_bh_disable(2) by (subst in_interrupt_iff) (auto simp: local_bh_disable_def nested_def)
  then show ?thesis using ss_bh_disable assms(3) by (simp add: quiet_def local_bh_disable_def)
next
  case (ss_bh_enable c')
  then show ?thesis using bh_enable_ok [of "sr_cpu r" env c'] assms(2,3) by (auto simp: quiet_def)
next
  case (ss_irq_enter idle)
  then show ?thesis using irq_enter_ok [of "sr_cpu r" env idle] assms(2,3) by (simp add: quiet_def)
next
  case (ss_irq_exit c')
  then show ?thesis using irq_exit_ok [of "sr_cpu r" env c'] assms(2,3) by (auto simp: quiet_def)
next
  case ss_announce
  then show ?thesis using assms(3) by (simp add: quiet_def ksoftirqd_announce_def set_ksoftirqd_cpu_ok)
next
  case ss_check
  show ?thesis
  proof (cases "softirq_pending (sr_cpu r) = 0")
    case True
    then show ?thesis
      using ss_check(2) assms(3) cpu_ok_emit by (auto simp: ksoftirqd_check_def Let_def quiet_def emit_def)
  next
    case False
    let ?c = "emit (Proto Tp_looprestart) (softirq_range (- 1) 0 (set_ksoftirqd_state 0 (emit (Proto Tp_looprestart) (sr_cpu r))))"
    have "cpu_ok ?c" using assms(3) by (simp add: quiet_def softirq_range_def set_ksoftirqd_cpu_ok)
    then obtain c' where "do_softirq_irqoff env ?c = Some (Inr c')" "cpu_ok c'" "softirq_pending c' = 0 \<or> awake c'"
      using do_softirq_irqoff_ok assms(2) by blast
    then show ?thesis
      using ss_check(2) False by (auto simp: ksoftirqd_check_def Let_def quiet_def emit_def)
  qed
next
  case ss_resume
  then show ?thesis using assms(3) by (simp add: quiet_def ksoftirqd_resume_def)
qed

interpretation soft_runs: invariant_run "soft_step env" "\<lambda>r. env_ok env \<and> cpu_ok (sr_cpu r) \<and> softirq_pending (sr_cpu r) = 0"
  "\<lambda>r. env_ok env \<and> quiet r" for env
proof unfold_locales
  fix r :: softrun assume "env_ok env \<and> cpu_ok (sr_cpu r) \<and> softirq_pending (sr_cpu r) = 0"
  then show "env_ok env \<and> quiet r" by (simp add: quiet_def)
qed (blast intro: soft_step_quiet)

section \<open>Properties\<close>

text \<open>
  (C34) No softirq is forgotten: start from a consistent processor without pending softirqs, and let
  handlers, interrupts, bottom-half sections and the thread take place in any order. Then, whenever
  the processor is outside of interrupts with a softirq pending, its thread is not left sleeping:
  it is in the running state or has yet to look before it sleeps.
\<close>

theorem no_softirq_forgotten:
  assumes "(soft_step env)\<^sup>*\<^sup>* \<lparr>sr_cpu = c, kd_scheduled = s\<rparr> r" "env_ok env" "cpu_ok c" "softirq_pending c = 0"
    "ksoftirqd (sr_cpu r) = Some k" "\<not> in_interrupt (sr_cpu r)" "softirq_pending (sr_cpu r) \<noteq> 0" "kd_scheduled r"
  shows "kd_state k = 0"
proof -
  have "quiet r" using soft_runs.reach_good [OF assms(1)] assms(2-4) by simp
  then show ?thesis using assms(5-8) by (simp add: quiet_def awake_def)
qed

text \<open>
  (C35) Processing terminates: \<open>__do_softirq\<close> ends after at most \<open>MAX_SOFTIRQ_RESTART\<close> rounds whatever
  the handlers raise and schedule, without a fault; the counts are as before, the lists stay
  consistent, and what is still pending then has been handed to the thread.
\<close>

theorem do_softirq_terminates:
  assumes "cpu_ok c" "env_ok env"
  shows "\<exists>c'. do_softirq_irqoff env c = Some (Inr c') \<and> cpu_ok c' \<and> preempt_count c' = preempt_count c
    \<and> (softirq_pending c' \<noteq> 0 \<longrightarrow> awake c')"
  using do_softirq_irqoff_ok [OF assms] by (auto simp: side_def)

lemma demo_cpu_ok: "cpu_ok demo_cpu"
  using demo_soft_ok(1) by (auto simp: cpu_ok_def demo_cpu_def NR_SOFTIRQS_def)

theorem no_softirq_forgotten_witness:
  "\<exists>r. (soft_step demo_softenv)\<^sup>*\<^sup>* \<lparr>sr_cpu = demo_cpu, kd_scheduled = True\<rparr> r
    \<and> softirq_pending (sr_cpu r) = 8 \<and> (\<exists>k. ksoftirqd (sr_cpu r) = Some k \<and> kd_state k = 0)"
proof -
  let ?start = "\<lparr>sr_cpu = demo_cpu, kd_scheduled = True\<rparr>"
  let ?r = "?start\<lparr>sr_cpu := exec_op demo_softenv (Op_raise 3) (sr_cpu ?start)\<rparr>"
  have "soft_step demo_softenv ?start ?r" by (rule ss_op) (simp add: NR_SOFTIRQS_def)
  then have reach: "(soft_step demo_softenv)\<^sup>*\<^sup>* ?start ?r" by (rule r_into_rtranclp)
  have st: "\<not> in_interrupt (sr_cpu ?r)" "softirq_pending (sr_cpu ?r) = 8" "kd_scheduled ?r"
    by (simp_all add: raise_softirq_def raise_softirq_irqoff_def raise_softirq_bit_def trace_enqueue_def emit_def
        wakeup_softirqd_def demo_cpu_def in_interrupt_def TASK_ALL_def Let_def)
  obtain k where k: "ksoftirqd (sr_cpu ?r) = Some k"
    by (simp add: raise_softirq_def raise_softirq_irqoff_def raise_softirq_bit_def trace_enqueue_def emit_def
        wakeup_softirqd_def demo_cpu_def in_interrupt_def TASK_ALL_def Let_def)
  have "softirq_pending demo_cpu = 0" "softirq_pending (sr_cpu ?r) \<noteq> 0" using st(2) by (simp_all add: demo_cpu_def)
  then have "kd_state k = 0"
    using no_softirq_forgotten [OF reach demo_soft_ok(2) demo_cpu_ok _ k st(1) _ st(3)] by simp
  then show ?thesis using reach st(2) k by blast
qed

theorem do_softirq_terminates_witness:
  "\<exists>c'. do_softirq_irqoff demo_softenv demo_cpu = Some (Inr c') \<and> preempt_count c' = 0"
  using do_softirq_terminates [OF demo_cpu_ok demo_soft_ok(2)] by (auto simp: demo_cpu_def)

end
