(* ===== verification/NetBacklog.thy ===== *)
theory NetBacklog
  imports Tasklet
begin

text \<open>
  The receive path of \<open>net/core/dev.c\<close>, with the tracepoints the framework added: packets are queued
  to the backlog of a processor, possibly of another one, and the softirq handler of each processor
  polls its backlog and the devices scheduled there. All processors run concurrently; the steps are
  the sections of the code between the points where interrupts are enabled or the lock of a queue is
  released.
\<close>

section \<open>State\<close>

record rx_skb =
  skb_addr :: addr
  skb_data :: addr

text \<open>The backlog of a processor, which is embedded in its \<open>softnet_data\<close>, or the structure of a driver.\<close>

datatype napi = Backlog nat | Dev addr

record napi_struct =
  napi_sched :: bool
  napi_disabling :: bool
  napi_weight :: int

text \<open>
  The list \<open>rps_ipi_list\<close>, linked through \<open>rps_ipi_next\<close>, is a list of processors; \<open>csd_posted\<close> says that
  the interrupt for \<open>csd\<close> was sent and not yet received.
\<close>

record softnet_data =
  poll_list :: "napi list"
  process_queue :: "rx_skb list"
  time_squeeze :: u32
  received_rps :: u32
  rps_ipi_list :: "nat list"
  csd_posted :: bool
  input_queue_head :: u32
  input_queue_tail :: u32
  dropped :: u32
  input_pkt_queue :: "rx_skb list"

text \<open>
  The variables of \<open>process_backlog\<close> and of the \<open>net_rx_action\<close> that called it, and the places at which a
  handler can be interrupted: not running, at the head of the loop of \<open>net_rx_action\<close>, at the head of
  the outer and of the inner loop of \<open>process_backlog\<close>, in \<open>__netif_receive_skb\<close>, and in the poll function
  of a driver.
\<close>

record pb_frame =
  pb_budget :: int
  pb_weight :: int
  pb_owner :: nat
  pb_quota :: int
  pb_work :: int

datatype rx_place =
    RxIdle | RxLoop int | PbHead pb_frame | PbInner pb_frame | PbReceive pb_frame rx_skb
  | RxDev int int addr

text \<open>
  \<open>rx_accepted\<close> and \<open>rx_delivered\<close> are the packets that were queued for a processor and that were handed
  to the protocols; \<open>napi_held\<close> says that \<open>napi_disable\<close> or \<open>netif_napi_add\<close> holds the structure. No code
  reads them.
\<close>

record netsys =
  softnet :: "nat \<Rightarrow> softnet_data"
  softs :: "nat \<Rightarrow> softcpu"
  napis :: "napi \<Rightarrow> napi_struct"
  rx_places :: "nat \<Rightarrow> rx_place"
  rx_accepted :: "nat \<Rightarrow> rx_skb list"
  rx_delivered :: "nat \<Rightarrow> rx_skb list"
  napi_held :: "addr \<Rightarrow> bool"

record netenv =
  netdev_max_backlog :: nat
  netdev_budget :: int
  weight_p :: int
  cpu_online :: "nat \<Rightarrow> bool"

definition upd_sd :: "nat \<Rightarrow> (softnet_data \<Rightarrow> softnet_data) \<Rightarrow> netsys \<Rightarrow> netsys" where
  "upd_sd c f s = s\<lparr>softnet := (softnet s)(c := f (softnet s c))\<rparr>"

definition upd_soft :: "nat \<Rightarrow> (softcpu \<Rightarrow> softcpu) \<Rightarrow> netsys \<Rightarrow> netsys" where
  "upd_soft c f s = s\<lparr>softs := (softs s)(c := f (softs s c))\<rparr>"

definition upd_napi :: "napi \<Rightarrow> (napi_struct \<Rightarrow> napi_struct) \<Rightarrow> netsys \<Rightarrow> netsys" where
  "upd_napi n f s = s\<lparr>napis := (napis s)(n := f (napis s n))\<rparr>"

definition set_place :: "nat \<Rightarrow> rx_place \<Rightarrow> netsys \<Rightarrow> netsys" where
  "set_place c p s = s\<lparr>rx_places := (rx_places s)(c := p)\<rparr>"

definition net_emit :: "nat \<Rightarrow> tracepoint \<Rightarrow> netsys \<Rightarrow> netsys" where
  "net_emit c tp = upd_soft c (emit tp)"

section \<open>Queueing\<close>

definition NET_RX_SOFTIRQ :: nat where "NET_RX_SOFTIRQ = 3"

definition net_raise :: "nat \<Rightarrow> netsys \<Rightarrow> netsys" where
  "net_raise me = upd_soft me (\<lambda>c. raise_softirq_bit NET_RX_SOFTIRQ (trace_enqueue NET_RX_SOFTIRQ c))"

text \<open>\<open>____napi_schedule\<close>\<close>

definition napi_schedule_irqoff :: "nat \<Rightarrow> napi \<Rightarrow> netsys \<Rightarrow> netsys" where
  "napi_schedule_irqoff c n s = net_raise c (upd_sd c (\<lambda>d. d\<lparr>poll_list := poll_list d @ [n]\<rparr>) s)"

definition rps_trigger_softirq :: "nat \<Rightarrow> netsys \<Rightarrow> netsys" where
  "rps_trigger_softirq c s =
     upd_sd c (\<lambda>d. d\<lparr>received_rps := received_rps d + 1\<rparr>) (napi_schedule_irqoff c (Backlog c) s)"

definition rps_ipi_queued :: "nat \<Rightarrow> nat \<Rightarrow> netsys \<Rightarrow> bool \<times> netsys" where
  "rps_ipi_queued me cpu s =
     (if cpu \<noteq> me
      then (True, net_raise me (upd_sd me (\<lambda>d. d\<lparr>rps_ipi_list := cpu # rps_ipi_list d\<rparr>) s))
      else (False, s))"

definition schedule_backlog :: "nat \<Rightarrow> nat \<Rightarrow> netsys \<Rightarrow> netsys" where
  "schedule_backlog me cpu s =
     (if napi_sched (napis s (Backlog cpu)) then s
      else case rps_ipi_queued me cpu (upd_napi (Backlog cpu) (\<lambda>n. n\<lparr>napi_sched := True\<rparr>) s) of
             (q, s') \<Rightarrow> if q then s' else napi_schedule_irqoff cpu (Backlog cpu) s')"

definition queue_skb :: "nat \<Rightarrow> rx_skb \<Rightarrow> netsys \<Rightarrow> netsys" where
  "queue_skb cpu skb s =
     upd_sd cpu (\<lambda>d. d\<lparr>input_pkt_queue := input_pkt_queue d @ [skb], input_queue_tail := input_queue_tail d + 1\<rparr>)
       (s\<lparr>rx_accepted := (rx_accepted s)(cpu := rx_accepted s cpu @ [skb])\<rparr>)"

definition backlog_code :: u32 where
  "backlog_code = of_nat (queue_code PKTQ_IP_BACKLOG)"

datatype net_rx = NET_RX_SUCCESS | NET_RX_DROP

definition enqueue_to_backlog :: "netenv \<Rightarrow> nat \<Rightarrow> rx_skb \<Rightarrow> nat \<Rightarrow> netsys \<Rightarrow> net_rx \<times> netsys" where
  "enqueue_to_backlog env me skb cpu s =
     (let qlen = length (input_pkt_queue (softnet s cpu));
          s1 = net_emit me (Tp_pktqueue (skb_data skb) backlog_code 0 QUEUE_ENQUEUE) s;
          s2 = net_emit me (Proto (Tp_queuecondition (if qlen > 0 then QUEUE_NOTEMPTY else QUEUE_EMPTY)
                 backlog_code backlog_code)) s1
      in if qlen \<le> netdev_max_backlog env
         then (NET_RX_SUCCESS, queue_skb cpu skb (if qlen \<noteq> 0 then s2 else schedule_backlog me cpu s2))
         else (NET_RX_DROP, upd_sd cpu (\<lambda>d. d\<lparr>dropped := dropped d + 1\<rparr>) s2))"

text \<open>\<open>rps\<close> is the result of \<open>get_rps_cpu\<close>: a processor that is online, or a negative number.\<close>

definition netif_rx :: "netenv \<Rightarrow> nat \<Rightarrow> int \<Rightarrow> rx_skb \<Rightarrow> netsys \<Rightarrow> net_rx \<times> netsys" where
  "netif_rx env me rps skb s =
     enqueue_to_backlog env me skb (if rps < 0 then me else nat rps) s"

section \<open>Scheduling of devices\<close>

definition napi_schedule :: "nat \<Rightarrow> addr \<Rightarrow> netsys \<Rightarrow> netsys" where
  "napi_schedule me a s =
     (let n = Dev a in
      if \<not> napi_disabling (napis s n) \<and> \<not> napi_sched (napis s n)
      then napi_schedule_irqoff me n (upd_napi n (\<lambda>k. k\<lparr>napi_sched := True\<rparr>) s) else s)"

text \<open>
  \<open>napi_complete\<close>, which flushes \<open>gro_list\<close> and then calls \<open>__napi_complete\<close> with interrupts disabled. The
  flag for \<open>netpoll\<close> is never set: it is not configured.
\<close>

definition napi_complete :: "nat \<Rightarrow> napi \<Rightarrow> netsys \<Rightarrow> netsys outcome" where
  "napi_complete me n s =
     (if \<not> napi_sched (napis s n) then Inl BugOn
      else Inr (upd_napi n (\<lambda>k. k\<lparr>napi_sched := False\<rparr>)
                 (upd_sd me (\<lambda>d. d\<lparr>poll_list := remove1 n (poll_list d)\<rparr>) s)))"

text \<open>\<open>napi_disable\<close> marks the structure and then repeats \<open>napi_disable_try\<close> until it has it.\<close>

definition napi_disable_mark :: "addr \<Rightarrow> netsys \<Rightarrow> netsys" where
  "napi_disable_mark a = upd_napi (Dev a) (\<lambda>k. k\<lparr>napi_disabling := True\<rparr>)"

definition napi_disable_try :: "addr \<Rightarrow> netsys \<Rightarrow> netsys" where
  "napi_disable_try a s =
     (if napi_sched (napis s (Dev a)) then s
      else (upd_napi (Dev a) (\<lambda>k. k\<lparr>napi_sched := True, napi_disabling := False\<rparr>) s)
             \<lparr>napi_held := (napi_held s)(a := True)\<rparr>)"

definition napi_enable :: "addr \<Rightarrow> netsys \<Rightarrow> netsys outcome" where
  "napi_enable a s =
     (if \<not> napi_sched (napis s (Dev a)) then Inl BugOn
      else Inr ((upd_napi (Dev a) (\<lambda>k. k\<lparr>napi_sched := False\<rparr>) s)\<lparr>napi_held := (napi_held s)(a := False)\<rparr>))"

section \<open>The handler\<close>

text \<open>\<open>net_rps_action_and_irq_enable\<close>\<close>

definition net_rps_action :: "netenv \<Rightarrow> nat \<Rightarrow> netsys \<Rightarrow> netsys" where
  "net_rps_action env me s =
     fold (\<lambda>cpu s. if cpu_online env cpu then upd_sd cpu (\<lambda>d. d\<lparr>csd_posted := True\<rparr>) s else s)
       (rps_ipi_list (softnet s me)) (upd_sd me (\<lambda>d. d\<lparr>rps_ipi_list := []\<rparr>) s)"

text \<open>What \<open>net_rx_action\<close> does after a poll.\<close>

definition rx_after :: "nat \<Rightarrow> napi \<Rightarrow> int \<Rightarrow> int \<Rightarrow> int \<Rightarrow> netsys \<Rightarrow> netsys outcome" where
  "rx_after me n budget weight work s =
     bind_outcome
       (if work = weight
        then if napi_disabling (napis s n) then napi_complete me n s
             else Inr (upd_sd me (\<lambda>d. d\<lparr>poll_list := remove1 n (poll_list d) @ [n]\<rparr>) s)
        else Inr s)
       (\<lambda>s'. Inr (set_place me (RxLoop (budget - work)) s'))"

text \<open>\<open>process_backlog\<close>: its beginning, the head of its outer loop, and its inner loop.\<close>

definition pb_begin :: "netenv \<Rightarrow> nat \<Rightarrow> nat \<Rightarrow> int \<Rightarrow> int \<Rightarrow> netsys \<Rightarrow> netsys" where
  "pb_begin env me b budget weight s =
     (let s1 = (if rps_ipi_list (softnet s b) \<noteq> [] then net_rps_action env b s else s) in
      set_place me (PbHead \<lparr>pb_budget = budget, pb_weight = weight, pb_owner = b, pb_quota = weight, pb_work = 0\<rparr>)
        (upd_napi (Backlog b) (\<lambda>k. k\<lparr>napi_weight := weight_p env\<rparr>) s1))"

definition pb_return :: "nat \<Rightarrow> pb_frame \<Rightarrow> netsys \<Rightarrow> netsys outcome" where
  "pb_return me f = rx_after me (Backlog (pb_owner f)) (pb_budget f) (pb_weight f) (pb_work f)"

definition pb_head :: "nat \<Rightarrow> pb_frame \<Rightarrow> netsys \<Rightarrow> netsys outcome" where
  "pb_head me f s =
     (if pb_work f < pb_quota f
      then Inr (set_place me (PbInner f)
             (net_emit me (Proto (Tp_loopstart (of_int (pb_quota f)) 0 backlog_code backlog_code)) s))
      else pb_return me f s)"

definition pb_refill :: "nat \<Rightarrow> pb_frame \<Rightarrow> netsys \<Rightarrow> netsys" where
  "pb_refill me f s =
     (let b = pb_owner f; qlen = length (input_pkt_queue (softnet s b));
          s1 = upd_sd b (\<lambda>d. d\<lparr>process_queue := process_queue d @ input_pkt_queue d, input_pkt_queue := []\<rparr>) s
      in if int qlen < pb_quota f - pb_work f
         then set_place me (PbHead (f\<lparr>pb_quota := pb_work f + int qlen\<rparr>))
                (upd_napi (Backlog b) (\<lambda>k. k\<lparr>napi_sched := False, napi_disabling := False\<rparr>)
                  (upd_sd me (\<lambda>d. d\<lparr>poll_list := remove1 (Backlog b) (poll_list d)\<rparr>) s1))
         else set_place me (PbHead f) s1)"

definition pb_inner :: "nat \<Rightarrow> pb_frame \<Rightarrow> netsys \<Rightarrow> netsys" where
  "pb_inner me f s =
     (let b = pb_owner f; s1 = net_emit me (Proto Tp_looprestart) s in
      case process_queue (softnet s1 b) of
        [] \<Rightarrow> pb_refill me f (net_emit me (Proto Tp_loopstop) s1)
      | skb # rest \<Rightarrow>
          set_place me (PbReceive f skb) (net_emit me (Tp_pktqueue (skb_data skb) backlog_code 0 QUEUE_DEQUEUE)
            (upd_sd b (\<lambda>d. d\<lparr>process_queue := rest\<rparr>) s1)))"

definition pb_receive :: "nat \<Rightarrow> pb_frame \<Rightarrow> rx_skb \<Rightarrow> netsys \<Rightarrow> netsys outcome" where
  "pb_receive me f skb s =
     (let b = pb_owner f; f' = f\<lparr>pb_work := pb_work f + 1\<rparr>;
          s1 = upd_sd b (\<lambda>d. d\<lparr>input_queue_head := input_queue_head d + 1\<rparr>)
                 (s\<lparr>rx_delivered := (rx_delivered s)(b := rx_delivered s b @ [skb])\<rparr>)
      in if pb_work f' \<ge> pb_quota f' then pb_return me f' (net_emit me (Proto Tp_loopstop) s1)
         else Inr (set_place me (PbInner f') s1))"

definition rx_loop :: "netenv \<Rightarrow> bool \<Rightarrow> nat \<Rightarrow> int \<Rightarrow> netsys \<Rightarrow> netsys outcome" where
  "rx_loop env time_up me budget s =
     (case poll_list (softnet s me) of
        [] \<Rightarrow> Inr (set_place me RxIdle (net_rps_action env me s))
      | n # _ \<Rightarrow>
          if budget \<le> 0 \<or> time_up
          then Inr (set_place me RxIdle (net_rps_action env me
                 (net_raise me (upd_sd me (\<lambda>d. d\<lparr>time_squeeze := time_squeeze d + 1\<rparr>) s))))
          else let weight = napi_weight (napis s n) in
            if napi_sched (napis s n)
            then (case n of Backlog b \<Rightarrow> Inr (pb_begin env me b budget weight s)
                          | Dev a \<Rightarrow> Inr (set_place me (RxDev budget weight a) s))
            else rx_after me n budget weight 0 s)"

text \<open>
  What the handler does at its place. The inputs are the clock and what the poll function of a driver
  does: the number of packets it took, and whether it called \<open>napi_complete\<close>.
\<close>

record rx_input =
  rx_time_up :: bool
  rx_dev_work :: int
  rx_dev_complete :: bool

definition dev_poll :: "rx_input \<Rightarrow> nat \<Rightarrow> int \<Rightarrow> int \<Rightarrow> addr \<Rightarrow> netsys \<Rightarrow> netsys outcome" where
  "dev_poll i me budget weight a s =
     bind_outcome (if rx_dev_complete i then napi_complete me (Dev a) s else Inr s)
       (rx_after me (Dev a) budget weight (rx_dev_work i))"

definition net_rx_action :: "netenv \<Rightarrow> rx_input \<Rightarrow> nat \<Rightarrow> netsys \<Rightarrow> netsys outcome" where
  "net_rx_action env i me s =
     (case rx_places s me of
        RxIdle \<Rightarrow> Inr s
      | RxLoop budget \<Rightarrow> rx_loop env (rx_time_up i) me budget s
      | PbHead f \<Rightarrow> pb_head me f s
      | PbInner f \<Rightarrow> Inr (pb_inner me f s)
      | PbReceive f skb \<Rightarrow> pb_receive me f skb s
      | RxDev budget weight a \<Rightarrow> dev_poll i me budget weight a s)"

text \<open>The softirq is taken from the pending ones and its handler is called.\<close>

definition rx_pending :: "softcpu \<Rightarrow> bool" where
  "rx_pending c \<longleftrightarrow> bit (softirq_pending c) NET_RX_SOFTIRQ"

definition rx_enter :: "netenv \<Rightarrow> nat \<Rightarrow> netsys \<Rightarrow> netsys" where
  "rx_enter env me s =
     set_place me (RxLoop (netdev_budget env))
       (upd_soft me (\<lambda>c. c\<lparr>softirq_pending := softirq_pending c AND NOT (push_bit NET_RX_SOFTIRQ 1)\<rparr>) s)"

definition net_dev_init :: "netenv \<Rightarrow> softcpu \<Rightarrow> (addr \<Rightarrow> int) \<Rightarrow> netsys" where
  "net_dev_init env c weights =
     \<lparr>softnet = (\<lambda>_. \<lparr>poll_list = [], process_queue = [], time_squeeze = 0, received_rps = 0, rps_ipi_list = [],
        csd_posted = False, input_queue_head = 0, input_queue_tail = 0, dropped = 0, input_pkt_queue = []\<rparr>),
      softs = (\<lambda>_. c),
      napis = (\<lambda>n. case n of
         Backlog b \<Rightarrow> \<lparr>napi_sched = False, napi_disabling = False, napi_weight = weight_p env\<rparr>
       | Dev a \<Rightarrow> \<lparr>napi_sched = True, napi_disabling = False, napi_weight = weights a\<rparr>),
      rx_places = (\<lambda>_. RxIdle), rx_accepted = (\<lambda>_. []), rx_delivered = (\<lambda>_. []), napi_held = (\<lambda>_. True)\<rparr>"

text \<open>
  The steps. A driver must not complete when it has used its whole weight, and \<open>napi_enable\<close> must
  follow \<open>napi_disable\<close>, as the comments in the sources demand.
\<close>

definition driver_ok :: "rx_input \<Rightarrow> nat \<Rightarrow> netsys \<Rightarrow> bool" where
  "driver_ok i me s =
     (case rx_places s me of RxDev budget weight a \<Rightarrow> rx_dev_complete i \<longrightarrow> rx_dev_work i < weight | _ \<Rightarrow> True)"

inductive net_step :: "netenv \<Rightarrow> netsys \<Rightarrow> netsys \<Rightarrow> bool" for env where
  ns_rx: "netif_rx env me rps skb s = (r, t) \<Longrightarrow> 0 \<le> rps \<longrightarrow> cpu_online env (nat rps) \<Longrightarrow> cpu_online env me
    \<Longrightarrow> net_step env s t"
| ns_ipi: "csd_posted (softnet s c)
    \<Longrightarrow> net_step env s (rps_trigger_softirq c (upd_sd c (\<lambda>d. d\<lparr>csd_posted := False\<rparr>) s))"
| ns_enter: "rx_places s c = RxIdle \<Longrightarrow> rx_pending (softs s c) \<Longrightarrow> net_step env s (rx_enter env c s)"
| ns_handler: "net_rx_action env i c s = Inr t \<Longrightarrow> driver_ok i c s \<Longrightarrow> net_step env s t"
| ns_schedule: "net_step env s (napi_schedule c a s)"
| ns_mark: "\<not> napi_held s a \<Longrightarrow> net_step env s (napi_disable_mark a s)"
| ns_try: "napi_disabling (napis s (Dev a)) \<Longrightarrow> net_step env s (napi_disable_try a s)"
| ns_enable: "napi_held s a \<Longrightarrow> napi_enable a s = Inr t \<Longrightarrow> net_step env s t"

section \<open>The invariant\<close>

text \<open>
  Whoever sets the bit \<open>NAPI_STATE_SCHED\<close> of a structure puts it into one place, and whoever clears it
  takes it out: on the list of a processor that will poll it, on a list of processors to be
  interrupted, in an interrupt under way, or with the one that disabled it.
\<close>

datatype spot = OnPoll nat | OnIpi nat | InFlight | Held

definition spots :: "netsys \<Rightarrow> napi \<Rightarrow> spot set" where
  "spots s n = OnPoll ` {c. n \<in> set (poll_list (softnet s c))}
     \<union> (case n of
          Backlog b \<Rightarrow> OnIpi ` {m. b \<in> set (rps_ipi_list (softnet s m))}
            \<union> (if csd_posted (softnet s b) then {InFlight} else {})
        | Dev a \<Rightarrow> if napi_held s a then {Held} else {})"

definition token :: "netsys \<Rightarrow> napi \<Rightarrow> bool" where
  "token s n \<longleftrightarrow> (if napi_sched (napis s n) then \<exists>p. spots s n = {p} else spots s n = {})"

definition rx_hand :: "rx_place \<Rightarrow> rx_skb list" where
  "rx_hand p = (case p of PbReceive f skb \<Rightarrow> [skb] | _ \<Rightarrow> [])"

definition in_backlog :: "rx_place \<Rightarrow> bool" where
  "in_backlog p = (case p of PbHead f \<Rightarrow> True | PbInner f \<Rightarrow> True | PbReceive f skb \<Rightarrow> True | _ \<Rightarrow> False)"

text \<open>
  \<open>process_backlog\<close> either still owns the backlog, which is then the first of its list, or it has
  completed it and the quota is what it still has to deliver.
\<close>

definition frame_ok :: "nat \<Rightarrow> softnet_data \<Rightarrow> int \<Rightarrow> pb_frame \<Rightarrow> bool" where
  "frame_ok c d hand f \<longleftrightarrow> pb_owner f = c \<and> pb_work f + hand \<le> pb_quota f
     \<and> (if pb_quota f = pb_weight f then \<exists>ns. poll_list d = Backlog c # ns
        else pb_quota f < pb_weight f \<and> int (length (process_queue d)) + hand = pb_quota f - pb_work f)"

definition place_ok :: "nat \<Rightarrow> softnet_data \<Rightarrow> rx_place \<Rightarrow> bool" where
  "place_ok c d p =
     (case p of
        PbHead f \<Rightarrow> frame_ok c d 0 f
      | PbInner f \<Rightarrow> frame_ok c d 0 f \<and> pb_work f < pb_quota f
      | PbReceive f skb \<Rightarrow> frame_ok c d 1 f
      | RxDev budget weight a \<Rightarrow> \<exists>ns. poll_list d = Dev a # ns
      | _ \<Rightarrow> True)"

definition lists_ok :: "netenv \<Rightarrow> nat \<Rightarrow> softnet_data \<Rightarrow> bool" where
  "lists_ok env c d \<longleftrightarrow> distinct (poll_list d) \<and> distinct (rps_ipi_list d)
     \<and> (\<forall>b. Backlog b \<in> set (poll_list d) \<longrightarrow> b = c) \<and> (\<forall>b\<in>set (rps_ipi_list d). cpu_online env b)"

definition served :: "softnet_data \<Rightarrow> softcpu \<Rightarrow> napi_struct \<Rightarrow> rx_place \<Rightarrow> bool" where
  "served d x k p \<longleftrightarrow> (input_pkt_queue d \<noteq> [] \<longrightarrow> napi_sched k)
     \<and> (process_queue d \<noteq> [] \<longrightarrow> napi_sched k \<or> in_backlog p)
     \<and> (poll_list d \<noteq> [] \<or> rps_ipi_list d \<noteq> [] \<longrightarrow> rx_pending x \<or> p \<noteq> RxIdle)"

definition counted :: "netenv \<Rightarrow> softnet_data \<Rightarrow> rx_place \<Rightarrow> rx_skb list \<Rightarrow> rx_skb list \<Rightarrow> bool" where
  "counted env d p acc del \<longleftrightarrow> acc = del @ rx_hand p @ process_queue d @ input_pkt_queue d
     \<and> length (input_pkt_queue d) \<le> Suc (netdev_max_backlog env) \<and> length (process_queue d) \<le> Suc (netdev_max_backlog env)
     \<and> input_queue_tail d = of_nat (length acc) \<and> input_queue_head d = of_nat (length del)"

definition cpu_fine :: "netenv \<Rightarrow> netsys \<Rightarrow> nat \<Rightarrow> bool" where
  "cpu_fine env s c \<longleftrightarrow> lists_ok env c (softnet s c) \<and> place_ok c (softnet s c) (rx_places s c)
     \<and> served (softnet s c) (softs s c) (napis s (Backlog c)) (rx_places s c)
     \<and> counted env (softnet s c) (rx_places s c) (rx_accepted s c) (rx_delivered s c)
     \<and> \<not> napi_disabling (napis s (Backlog c)) \<and> 0 < napi_weight (napis s (Backlog c))"

definition net_ok :: "netenv \<Rightarrow> netsys \<Rightarrow> bool" where
  "net_ok env s \<longleftrightarrow> (\<forall>n. token s n) \<and> (\<forall>c. cpu_fine env s c)"

named_theorems net_simps \<open>what the updates of the state do to its fields\<close>

lemma upd_sd_sel [net_simps]:
  "softnet (upd_sd c f s) = (softnet s)(c := f (softnet s c))" "softs (upd_sd c f s) = softs s"
  "napis (upd_sd c f s) = napis s" "rx_places (upd_sd c f s) = rx_places s"
  "rx_accepted (upd_sd c f s) = rx_accepted s" "rx_delivered (upd_sd c f s) = rx_delivered s"
  "napi_held (upd_sd c f s) = napi_held s"
  by (simp_all add: upd_sd_def)

lemma upd_soft_sel [net_simps]:
  "softnet (upd_soft c g s) = softnet s" "softs (upd_soft c g s) = (softs s)(c := g (softs s c))"
  "napis (upd_soft c g s) = napis s" "rx_places (upd_soft c g s) = rx_places s"
  "rx_accepted (upd_soft c g s) = rx_accepted s" "rx_delivered (upd_soft c g s) = rx_delivered s"
  "napi_held (upd_soft c g s) = napi_held s"
  by (simp_all add: upd_soft_def)

lemma upd_napi_sel [net_simps]:
  "softnet (upd_napi n h s) = softnet s" "softs (upd_napi n h s) = softs s"
  "napis (upd_napi n h s) = (napis s)(n := h (napis s n))" "rx_places (upd_napi n h s) = rx_places s"
  "rx_accepted (upd_napi n h s) = rx_accepted s" "rx_delivered (upd_napi n h s) = rx_delivered s"
  "napi_held (upd_napi n h s) = napi_held s"
  by (simp_all add: upd_napi_def)

lemma set_place_sel [net_simps]:
  "softnet (set_place c p s) = softnet s" "softs (set_place c p s) = softs s"
  "napis (set_place c p s) = napis s" "rx_places (set_place c p s) = (rx_places s)(c := p)"
  "rx_accepted (set_place c p s) = rx_accepted s" "rx_delivered (set_place c p s) = rx_delivered s"
  "napi_held (set_place c p s) = napi_held s"
  by (simp_all add: set_place_def)

lemma pending_simps [net_simps]:
  "rx_pending (emit tp c) = rx_pending c"
  "rx_pending (raise_softirq_bit NET_RX_SOFTIRQ c)"
  "rx_pending (trace_enqueue n c) = rx_pending c"
  by (simp_all add: rx_pending_def emit_def raise_softirq_bit_def trace_enqueue_def NET_RX_SOFTIRQ_def bit_or_iff bit_push_bit_iff)

subsection \<open>Where a structure is\<close>

lemma in_spots:
  "OnPoll c \<in> spots s n \<longleftrightarrow> n \<in> set (poll_list (softnet s c))"
  "OnIpi c \<in> spots s n \<longleftrightarrow> (\<exists>b. n = Backlog b \<and> b \<in> set (rps_ipi_list (softnet s c)))"
  "InFlight \<in> spots s n \<longleftrightarrow> (\<exists>b. n = Backlog b \<and> csd_posted (softnet s b))"
  "Held \<in> spots s n \<longleftrightarrow> (\<exists>a. n = Dev a \<and> napi_held s a)"
  by (auto simp: spots_def split: napi.splits)

lemma spots_eqI:
  assumes "\<And>c. n \<in> set (poll_list (softnet s c)) \<longleftrightarrow> n' \<in> set (poll_list (softnet t c))"
    "\<And>b. n = Backlog b \<Longrightarrow> n' = Backlog b \<and> csd_posted (softnet s b) = csd_posted (softnet t b)
       \<and> (\<forall>c. b \<in> set (rps_ipi_list (softnet s c)) \<longleftrightarrow> b \<in> set (rps_ipi_list (softnet t c)))"
    "\<And>a. n = Dev a \<Longrightarrow> n' = Dev a \<and> napi_held s a = napi_held t a"
  shows "spots s n = spots t n'"
  using assms by (cases n) (auto simp: spots_def)

lemma token_cong: "spots t n = spots s n \<Longrightarrow> napi_sched (napis t n) = napi_sched (napis s n) \<Longrightarrow> token t n = token s n"
  by (simp add: token_def)

lemma token_sched: "token s n \<Longrightarrow> p \<in> spots s n \<Longrightarrow> napi_sched (napis s n)"
  by (auto simp: token_def split: if_splits)

lemma token_unique: "token s n \<Longrightarrow> p \<in> spots s n \<Longrightarrow> q \<in> spots s n \<Longrightarrow> p = q"
  by (auto simp: token_def split: if_splits)

lemma token_gain:
  assumes "token s n" "\<not> napi_sched (napis s n)" "spots t n = insert p (spots s n)" "napi_sched (napis t n)"
  shows "token t n"
  using assms by (simp add: token_def)

lemma token_lose:
  assumes "token s n" "p \<in> spots s n" "spots t n = spots s n - {p}" "\<not> napi_sched (napis t n)"
  shows "token t n"
  using assms by (auto simp: token_def split: if_splits)

lemma token_move:
  assumes "token s n" "p \<in> spots s n" "spots t n = insert q (spots s n - {p})" "napi_sched (napis t n) = napi_sched (napis s n)"
  shows "token t n"
  using assms by (auto simp: token_def split: if_splits)

lemma spots_same [net_simps]:
  "spots (upd_soft c g s) = spots s" "spots (upd_napi m h s) = spots s" "spots (set_place c p s) = spots s"
  "spots (s\<lparr>rx_accepted := xs\<rparr>) = spots s" "spots (s\<lparr>rx_delivered := xs\<rparr>) = spots s"
  by (rule ext, rule spots_eqI; simp add: net_simps)+

lemma spots_keep:
  assumes "\<And>d. set (poll_list (f d)) = set (poll_list d)" "\<And>d. rps_ipi_list (f d) = rps_ipi_list d" "\<And>d. csd_posted (f d) = csd_posted d"
  shows "spots (upd_sd c f s) = spots s"
  by (rule ext, rule spots_eqI) (simp_all add: net_simps assms)

lemma spots_irqoff:
  "spots (napi_schedule_irqoff c n s) m = (if m = n then insert (OnPoll c) (spots s m) else spots s m)"
  by (cases m) (auto simp: napi_schedule_irqoff_def net_raise_def net_simps spots_def)

lemma spots_ipi:
  "spots (net_raise me (upd_sd me (\<lambda>d. d\<lparr>rps_ipi_list := cpu # rps_ipi_list d\<rparr>) s)) m =
     (if m = Backlog cpu then insert (OnIpi me) (spots s m) else spots s m)"
  by (cases m) (auto simp: net_raise_def net_simps spots_def)

lemma spots_post_off: "spots (upd_sd c (\<lambda>d. d\<lparr>csd_posted := False\<rparr>) s) m =
    (if m = Backlog c then spots s m - {InFlight} else spots s m)"
  by (cases m) (auto simp: net_simps spots_def)

lemma spots_remove:
  assumes "distinct (poll_list (softnet s c))"
  shows "spots (upd_sd c (\<lambda>d. d\<lparr>poll_list := remove1 n (poll_list d)\<rparr>) s) m =
    (if m = n then spots s m - {OnPoll c} else spots s m)"
  using assms by (cases m) (auto simp: net_simps spots_def)

lemma fine_raise: "cpu_fine env s c \<Longrightarrow> cpu_fine env (net_raise me s) c"
  by (simp add: cpu_fine_def served_def net_raise_def net_simps)

lemma frame_ok_append: "frame_ok c d hand f \<Longrightarrow> frame_ok c (d\<lparr>poll_list := poll_list d @ ns\<rparr>) hand f"
  by (auto simp: frame_ok_def)

lemma place_ok_append: "place_ok c d p \<Longrightarrow> place_ok c (d\<lparr>poll_list := poll_list d @ ns\<rparr>) p"
  by (auto simp: place_ok_def frame_ok_append split: rx_place.splits)

lemma place_ok_cong: "poll_list d' = poll_list d \<Longrightarrow> process_queue d' = process_queue d \<Longrightarrow> place_ok c d' p = place_ok c d p"
  by (simp add: place_ok_def frame_ok_def split: rx_place.splits)

lemma counted_cong:
  "process_queue d' = process_queue d \<Longrightarrow> input_pkt_queue d' = input_pkt_queue d \<Longrightarrow> input_queue_head d' = input_queue_head d
    \<Longrightarrow> input_queue_tail d' = input_queue_tail d \<Longrightarrow> counted env d' p acc del = counted env d p acc del"
  by (simp add: counted_def)

lemma served_raised:
  "served d x k p \<Longrightarrow> process_queue d' = process_queue d \<Longrightarrow> input_pkt_queue d' = input_pkt_queue d \<Longrightarrow> rx_pending x'
    \<Longrightarrow> served d' x' k p"
  by (simp add: served_def)

lemma served_cong:
  "process_queue d' = process_queue d \<Longrightarrow> input_pkt_queue d' = input_pkt_queue d \<Longrightarrow> poll_list d' = poll_list d
    \<Longrightarrow> rps_ipi_list d' = rps_ipi_list d \<Longrightarrow> served d' x k p = served d x k p"
  by (simp add: served_def)

lemma lists_ok_poll:
  "lists_ok env c d \<Longrightarrow> n \<notin> set (poll_list d) \<Longrightarrow> \<forall>b. n = Backlog b \<longrightarrow> b = c
    \<Longrightarrow> lists_ok env c (d\<lparr>poll_list := poll_list d @ [n]\<rparr>)"
  by (auto simp: lists_ok_def)

lemma lists_ok_ipi:
  "lists_ok env c d \<Longrightarrow> b \<notin> set (rps_ipi_list d) \<Longrightarrow> cpu_online env b \<Longrightarrow> lists_ok env c (d\<lparr>rps_ipi_list := b # rps_ipi_list d\<rparr>)"
  by (simp add: lists_ok_def)

lemma fine_irqoff:
  assumes "cpu_fine env s c'" "n \<notin> set (poll_list (softnet s c))" "\<forall>b. n = Backlog b \<longrightarrow> b = c"
  shows "cpu_fine env (napi_schedule_irqoff c n s) c'"
proof (cases "c' = c")
  case True
  let ?d = "softnet s c" let ?d' = "?d\<lparr>poll_list := poll_list ?d @ [n]\<rparr>"
  have "served ?d' x (napis s (Backlog c)) (rx_places s c)" if "rx_pending x" for x
    using served_raised [of ?d "softs s c" "napis s (Backlog c)" "rx_places s c" ?d'] assms(1) True that by (simp add: cpu_fine_def)
  moreover have "counted env ?d' (rx_places s c) (rx_accepted s c) (rx_delivered s c)"
    using counted_cong [of ?d' ?d] assms(1) True by (simp add: cpu_fine_def)
  ultimately show ?thesis
    using assms True lists_ok_poll [of env c ?d n] place_ok_append [of c ?d "rx_places s c" "[n]"]
    by (simp add: cpu_fine_def napi_schedule_irqoff_def net_raise_def net_simps)
qed (use assms in \<open>simp add: cpu_fine_def napi_schedule_irqoff_def net_raise_def net_simps\<close>)

lemma fine_ipi:
  assumes "cpu_fine env s c" "cpu \<notin> set (rps_ipi_list (softnet s me))" "cpu_online env cpu"
  shows "cpu_fine env (net_raise me (upd_sd me (\<lambda>d. d\<lparr>rps_ipi_list := cpu # rps_ipi_list d\<rparr>) s)) c"
proof (cases "c = me")
  case True
  let ?d = "softnet s c" let ?d' = "?d\<lparr>rps_ipi_list := cpu # rps_ipi_list ?d\<rparr>"
  have "served ?d' x (napis s (Backlog c)) (rx_places s c)" if "rx_pending x" for x
    using served_raised [of ?d "softs s c" "napis s (Backlog c)" "rx_places s c" ?d'] assms(1) that by (simp add: cpu_fine_def)
  then show ?thesis
    using assms True lists_ok_ipi [of env c ?d cpu] place_ok_cong [of ?d' ?d] counted_cong [of ?d' ?d]
    by (simp add: cpu_fine_def net_raise_def net_simps)
qed (use assms in \<open>simp add: cpu_fine_def net_raise_def net_simps\<close>)

lemma fine_sched: "cpu_fine env s c \<Longrightarrow> cpu_fine env (upd_napi n (\<lambda>k. k\<lparr>napi_sched := True\<rparr>) s) c"
  by (cases "n = Backlog c") (simp_all add: cpu_fine_def served_def net_simps)

lemma fine_keep:
  assumes "cpu_fine env s c"
    "\<And>d. poll_list (f d) = poll_list d \<and> rps_ipi_list (f d) = rps_ipi_list d \<and> process_queue (f d) = process_queue d
       \<and> input_pkt_queue (f d) = input_pkt_queue d \<and> input_queue_head (f d) = input_queue_head d \<and> input_queue_tail (f d) = input_queue_tail d"
  shows "cpu_fine env (upd_sd c' f s) c"
proof -
  let ?d = "softnet s c"
  have "lists_ok env c (f ?d) = lists_ok env c ?d" by (simp add: lists_ok_def assms(2))
  then show ?thesis
    using assms(1) place_ok_cong [of "f ?d" ?d] counted_cong [of "f ?d" ?d] served_cong [of "f ?d" ?d] assms(2)
    by (cases "c' = c") (simp_all add: cpu_fine_def net_simps)
qed

lemma net_ok_emit: "net_ok env (net_emit c tp s) = net_ok env s"
proof -
  have "token (net_emit c tp s) n = token s n" for n by (rule token_cong) (simp_all add: net_emit_def net_simps)
  moreover have "cpu_fine env (net_emit c tp s) c' = cpu_fine env s c'" for c' by (simp add: cpu_fine_def served_def net_emit_def net_simps)
  ultimately show ?thesis by (simp add: net_ok_def)
qed

lemma net_ok_stat:
  assumes "net_ok env s"
    "\<And>d. poll_list (f d) = poll_list d \<and> rps_ipi_list (f d) = rps_ipi_list d \<and> process_queue (f d) = process_queue d
       \<and> input_pkt_queue (f d) = input_pkt_queue d \<and> input_queue_head (f d) = input_queue_head d \<and> input_queue_tail (f d) = input_queue_tail d"
    "\<And>d. csd_posted (f d) = csd_posted d"
  shows "net_ok env (upd_sd c f s)"
proof -
  have "spots (upd_sd c f s) = spots s" using assms(2,3) by (intro spots_keep) simp_all
  then have "token (upd_sd c f s) n = token s n" for n by (intro token_cong) (simp_all add: net_simps)
  then show ?thesis using assms(1) fine_keep [OF _ assms(2)] by (auto simp: net_ok_def)
qed

lemma net_okD: "net_ok env s \<Longrightarrow> token s n" "net_ok env s \<Longrightarrow> cpu_fine env s c"
  by (simp_all add: net_ok_def)

text \<open>A structure that is not scheduled is on no list.\<close>

lemma unscheduled_nowhere:
  assumes "token s n" "\<not> napi_sched (napis s n)"
  shows "n \<notin> set (poll_list (softnet s c))" "n = Backlog b \<Longrightarrow> b \<notin> set (rps_ipi_list (softnet s c))"
proof -
  have e: "spots s n = {}" using assms by (simp add: token_def)
  show "n \<notin> set (poll_list (softnet s c))" using e in_spots(1) [of c s n] by simp
  show "b \<notin> set (rps_ipi_list (softnet s c))" if "n = Backlog b" using e in_spots(2) [of c s n] that by simp
qed

lemma token_other: "spots t m = spots s m \<Longrightarrow> napis t m = napis s m \<Longrightarrow> token s m \<Longrightarrow> token t m"
  by (simp add: token_def)

lemma irqoff_sel [net_simps]:
  "napis (napi_schedule_irqoff c n s) = napis s" "napis (net_raise c s) = napis s"
  "rx_places (napi_schedule_irqoff c n s) = rx_places s" "rx_places (net_raise c s) = rx_places s"
  by (simp_all add: napi_schedule_irqoff_def net_raise_def net_simps)

lemma schedule_ok:
  assumes "net_ok env s" "\<not> napi_sched (napis s n)" "\<forall>b. n = Backlog b \<longrightarrow> b = c"
  shows "net_ok env (napi_schedule_irqoff c n (upd_napi n (\<lambda>k. k\<lparr>napi_sched := True\<rparr>) s))"
proof -
  let ?u = "upd_napi n (\<lambda>k. k\<lparr>napi_sched := True\<rparr>) s" let ?t = "napi_schedule_irqoff c n ?u"
  have "token ?t m" for m
  proof (cases "m = n")
    case True
    then show ?thesis using token_gain [of s n ?t "OnPoll c"] net_okD(1) [OF assms(1)] assms(2)
      by (simp add: spots_irqoff net_simps)
  next
    case False
    then show ?thesis using token_other [of ?t m s] net_okD(1) [OF assms(1)] by (simp add: spots_irqoff net_simps)
  qed
  moreover have "cpu_fine env ?t c'" for c'
    using unscheduled_nowhere(1) [OF net_okD(1) [OF assms(1)] assms(2)] assms(3)
    by (intro fine_irqoff fine_sched net_okD(2) [OF assms(1)]) (simp_all add: net_simps)
  ultimately show ?thesis by (simp add: net_ok_def)
qed

lemma ipi_ok:
  assumes "net_ok env s" "\<not> napi_sched (napis s (Backlog cpu))" "cpu_online env cpu"
  shows "net_ok env (net_raise me (upd_sd me (\<lambda>d. d\<lparr>rps_ipi_list := cpu # rps_ipi_list d\<rparr>)
    (upd_napi (Backlog cpu) (\<lambda>k. k\<lparr>napi_sched := True\<rparr>) s)))" (is "net_ok env ?t")
proof -
  let ?u = "upd_napi (Backlog cpu) (\<lambda>k. k\<lparr>napi_sched := True\<rparr>) s"
  have "token ?t m" for m
  proof (cases "m = Backlog cpu")
    case True
    then show ?thesis using token_gain [of s "Backlog cpu" ?t "OnIpi me"] net_okD(1) [OF assms(1)] assms(2)
      by (simp add: spots_ipi net_simps)
  next
    case False
    then show ?thesis using token_other [of ?t m s] net_okD(1) [OF assms(1)] by (simp add: spots_ipi net_simps)
  qed
  moreover have "cpu_fine env ?t c'" for c'
    using unscheduled_nowhere(2) [OF net_okD(1) [OF assms(1)] assms(2)] assms(3)
    by (intro fine_ipi fine_sched net_okD(2) [OF assms(1)]) (simp_all add: net_simps)
  ultimately show ?thesis by (simp add: net_ok_def)
qed

lemma schedule_backlog_ok:
  assumes "net_ok env s" "cpu_online env cpu"
  shows "net_ok env (schedule_backlog me cpu s)" "napi_sched (napis (schedule_backlog me cpu s) (Backlog cpu))"
    "input_pkt_queue (softnet (schedule_backlog me cpu s) c) = input_pkt_queue (softnet s c)"
  using assms schedule_ok [OF assms(1), of "Backlog cpu" cpu] ipi_ok [OF assms(1) _ assms(2), of me]
  by (auto simp: schedule_backlog_def rps_ipi_queued_def napi_schedule_irqoff_def net_raise_def net_simps)

lemma queue_skb_ok:
  assumes "net_ok env s" "napi_sched (napis s (Backlog cpu))" "length (input_pkt_queue (softnet s cpu)) \<le> netdev_max_backlog env"
  shows "net_ok env (queue_skb cpu skb s)"
proof -
  have "spots (queue_skb cpu skb s) = spots s"
    unfolding queue_skb_def by (subst spots_keep) (simp_all add: net_simps)
  then have "token (queue_skb cpu skb s) n" for n
    using token_cong [of "queue_skb cpu skb s" n s] net_okD(1) [OF assms(1)] by (simp add: queue_skb_def net_simps)
  moreover have "cpu_fine env (queue_skb cpu skb s) c" for c
  proof -
    let ?d = "softnet s cpu"
    let ?d' = "?d\<lparr>input_pkt_queue := input_pkt_queue ?d @ [skb], input_queue_tail := input_queue_tail ?d + 1\<rparr>"
    have "counted env ?d' (rx_places s cpu) (rx_accepted s cpu @ [skb]) (rx_delivered s cpu)"
      "served ?d' (softs s cpu) (napis s (Backlog cpu)) (rx_places s cpu)" "lists_ok env cpu ?d'"
      using net_okD(2) [OF assms(1), of cpu] assms(2,3) by (simp_all add: cpu_fine_def counted_def served_def lists_ok_def)
    then show ?thesis using net_okD(2) [OF assms(1), of c] net_okD(2) [OF assms(1), of cpu] place_ok_cong [of ?d' ?d]
      by (cases "c = cpu") (simp_all add: cpu_fine_def queue_skb_def net_simps)
  qed
  ultimately show ?thesis by (simp add: net_ok_def)
qed

lemma enqueue_to_backlog_ok:
  assumes "net_ok env s" "cpu_online env cpu" "enqueue_to_backlog env me skb cpu s = (r, t)"
  shows "net_ok env t"
proof -
  let ?s = "net_emit me (Proto (Tp_queuecondition (if length (input_pkt_queue (softnet s cpu)) > 0 then QUEUE_NOTEMPTY else QUEUE_EMPTY)
    backlog_code backlog_code)) (net_emit me (Tp_pktqueue (skb_data skb) backlog_code 0 QUEUE_ENQUEUE) s)"
  have ok: "net_ok env ?s" using assms(1) by (simp add: net_ok_emit)
  have same: "input_pkt_queue (softnet ?s cpu) = input_pkt_queue (softnet s cpu)" "napis ?s = napis s" by (simp_all add: net_emit_def net_simps)
  have "input_pkt_queue (softnet s cpu) \<noteq> [] \<Longrightarrow> napi_sched (napis s (Backlog cpu))"
    using net_okD(2) [OF assms(1), of cpu] by (simp add: cpu_fine_def served_def)
  then show ?thesis
    using assms(3) queue_skb_ok [OF ok] queue_skb_ok [OF schedule_backlog_ok(1,2) [OF ok assms(2)]] schedule_backlog_ok(3) [OF ok assms(2)]
      net_ok_stat [OF ok] same
    by (auto simp: enqueue_to_backlog_def Let_def split: if_splits)
qed

subsection \<open>Interrupts between processors\<close>

lemma ipi_step_ok:
  assumes "net_ok env s" "csd_posted (softnet s c)"
  shows "net_ok env (rps_trigger_softirq c (upd_sd c (\<lambda>d. d\<lparr>csd_posted := False\<rparr>) s))"
proof -
  let ?u = "upd_sd c (\<lambda>d. d\<lparr>csd_posted := False\<rparr>) s" let ?t = "napi_schedule_irqoff c (Backlog c) ?u"
  have fly: "InFlight \<in> spots s (Backlog c)" using assms(2) by (simp add: in_spots)
  have tok: "token ?t m" for m
  proof (cases "m = Backlog c")
    case True
    then show ?thesis using token_move [of s m InFlight ?t "OnPoll c"] net_okD(1) [OF assms(1)] fly
      by (simp add: spots_irqoff spots_post_off net_simps)
  next
    case False
    then show ?thesis using token_other [of ?t m s] net_okD(1) [OF assms(1)] by (simp add: spots_irqoff spots_post_off net_simps)
  qed
  have "OnPoll c \<notin> spots s (Backlog c)" using token_unique [OF net_okD(1) [OF assms(1)] fly, of "OnPoll c"] by auto
  then have "Backlog c \<notin> set (poll_list (softnet ?u c))" by (simp add: in_spots net_simps)
  then have "cpu_fine env ?t c'" for c'
    using fine_keep [OF net_okD(2) [OF assms(1)], of "\<lambda>d. d\<lparr>csd_posted := False\<rparr>" c c'] by (intro fine_irqoff) simp_all
  with tok have "net_ok env ?t" by (simp add: net_ok_def)
  then show ?thesis unfolding rps_trigger_softirq_def by (rule net_ok_stat) simp_all
qed

lemma post_all:
  fixes xs :: "nat list" and s :: netsys and env :: netenv
  defines "t \<equiv> fold (\<lambda>cpu s. if cpu_online env cpu then upd_sd cpu (\<lambda>d. d\<lparr>csd_posted := True\<rparr>) s else s) xs s"
  shows "softnet t c = (if c \<in> set xs \<and> cpu_online env c then (softnet s c)\<lparr>csd_posted := True\<rparr> else softnet s c)"
    "softs t = softs s" "napis t = napis s" "rx_places t = rx_places s" "rx_accepted t = rx_accepted s"
    "rx_delivered t = rx_delivered s" "napi_held t = napi_held s"
  unfolding t_def by (induction xs arbitrary: s) (auto simp: net_simps)

lemma rps_action_sel [net_simps]:
  "softs (net_rps_action env me s) = softs s" "napis (net_rps_action env me s) = napis s"
  "rx_places (net_rps_action env me s) = rx_places s" "rx_accepted (net_rps_action env me s) = rx_accepted s"
  "rx_delivered (net_rps_action env me s) = rx_delivered s" "napi_held (net_rps_action env me s) = napi_held s"
  by (simp_all add: net_rps_action_def post_all net_simps)

lemma rps_action_softnet:
  "softnet (net_rps_action env me s) c =
     (let d = (if c = me then (softnet s c)\<lparr>rps_ipi_list := []\<rparr> else softnet s c) in
      if c \<in> set (rps_ipi_list (softnet s me)) \<and> cpu_online env c then d\<lparr>csd_posted := True\<rparr> else d)"
  by (auto simp: net_rps_action_def post_all net_simps Let_def)

lemma rps_action_lists [net_simps]:
  "poll_list (softnet (net_rps_action env me s) c) = poll_list (softnet s c)"
  "process_queue (softnet (net_rps_action env me s) c) = process_queue (softnet s c)"
  "input_pkt_queue (softnet (net_rps_action env me s) c) = input_pkt_queue (softnet s c)"
  "input_queue_head (softnet (net_rps_action env me s) c) = input_queue_head (softnet s c)"
  "input_queue_tail (softnet (net_rps_action env me s) c) = input_queue_tail (softnet s c)"
  "rps_ipi_list (softnet (net_rps_action env me s) c) = (if c = me then [] else rps_ipi_list (softnet s c))"
  "csd_posted (softnet (net_rps_action env me s) c) \<longleftrightarrow>
     csd_posted (softnet s c) \<or> c \<in> set (rps_ipi_list (softnet s me)) \<and> cpu_online env c"
  by (auto simp: rps_action_softnet Let_def)

lemma rps_action_ok:
  assumes "net_ok env s"
  shows "net_ok env (net_rps_action env me s)" (is "net_ok env ?t")
proof -
  have on: "\<forall>b\<in>set (rps_ipi_list (softnet s me)). cpu_online env b"
    using net_okD(2) [OF assms, of me] by (simp add: cpu_fine_def lists_ok_def)
  have "token ?t m" for m
  proof (cases "\<exists>b. m = Backlog b \<and> b \<in> set (rps_ipi_list (softnet s me))")
    case True
    then have i: "OnIpi me \<in> spots s m" by (simp add: in_spots)
    then have u: "p \<in> spots s m \<Longrightarrow> p = OnIpi me" for p using token_unique [OF net_okD(1) [OF assms]] by simp
    obtain b where b: "m = Backlog b" "b \<in> set (rps_ipi_list (softnet s me))" using True by blast
    have "Backlog b \<notin> set (poll_list (softnet s c))" for c using u [of "OnPoll c"] b by (auto simp: in_spots)
    then have 1: "OnPoll c \<notin> spots ?t m" for c using b by (simp add: in_spots net_simps)
    have 2: "OnIpi c \<notin> spots ?t m" for c using u [of "OnIpi c"] b by (auto simp: in_spots net_simps)
    have 3: "Held \<notin> spots ?t m" "InFlight \<in> spots ?t m" using b on by (simp_all add: in_spots net_simps)
    have "p \<in> spots ?t m \<longleftrightarrow> p = InFlight" for p by (cases p) (simp_all add: 1 2 3)
    then have "spots ?t m = {InFlight}" by auto
    then show ?thesis using token_sched [OF net_okD(1) [OF assms] i] by (simp add: token_def net_simps)
  next
    case False
    then have "spots ?t m = spots s m" by (cases m) (auto simp: spots_def net_simps split: if_splits)
    then show ?thesis using token_other [of ?t m s] net_okD(1) [OF assms] by (simp add: net_simps)
  qed
  moreover have "cpu_fine env ?t c" for c
  proof -
    have f: "cpu_fine env s c" by (rule net_okD(2) [OF assms])
    then have "lists_ok env c (softnet ?t c)" by (simp add: cpu_fine_def lists_ok_def net_simps)
    moreover have "served (softnet ?t c) (softs s c) (napis s (Backlog c)) (rx_places s c)"
      using f by (auto simp: cpu_fine_def served_def net_simps)
    moreover have "place_ok c (softnet ?t c) (rx_places s c)"
      using f place_ok_cong [of "softnet ?t c" "softnet s c"] by (simp add: cpu_fine_def net_simps)
    moreover have "counted env (softnet ?t c) (rx_places s c) (rx_accepted s c) (rx_delivered s c)"
      using f counted_cong [of "softnet ?t c" "softnet s c"] by (simp add: cpu_fine_def net_simps)
    ultimately show ?thesis using f by (simp add: cpu_fine_def net_simps)
  qed
  ultimately show ?thesis by (simp add: net_ok_def)
qed

subsection \<open>The handler keeps the invariant\<close>

lemma net_okI:
  assumes "net_ok env s" "\<And>m. token t m" "cpu_fine env t me"
    "\<And>c. c \<noteq> me \<Longrightarrow> softnet t c = softnet s c \<and> softs t c = softs s c \<and> napis t (Backlog c) = napis s (Backlog c)
       \<and> rx_places t c = rx_places s c \<and> rx_accepted t c = rx_accepted s c \<and> rx_delivered t c = rx_delivered s c"
  shows "net_ok env t"
proof -
  have "cpu_fine env t c" for c
    using assms(3) assms(4) [of c] net_okD(2) [OF assms(1), of c] by (cases "c = me") (simp_all add: cpu_fine_def)
  then show ?thesis using assms(2) by (simp add: net_ok_def)
qed

lemma token_same: "net_ok env s \<Longrightarrow> spots t = spots s \<Longrightarrow> napis t = napis s \<Longrightarrow> token t m"
  using token_other [of t m s] net_okD(1) by simp

lemma place_change:
  assumes "net_ok env s" "place_ok c (softnet s c) p" "rx_hand p = rx_hand (rx_places s c)"
    "process_queue (softnet s c) \<noteq> [] \<Longrightarrow> napi_sched (napis s (Backlog c)) \<or> in_backlog p"
    "p = RxIdle \<Longrightarrow> rx_pending (softs s c) \<or> poll_list (softnet s c) = [] \<and> rps_ipi_list (softnet s c) = []"
  shows "net_ok env (set_place c p s)"
proof (rule net_okI [OF assms(1)])
  show "token (set_place c p s) m" for m using token_same [OF assms(1)] by (simp add: net_simps)
  show "cpu_fine env (set_place c p s) c"
    using net_okD(2) [OF assms(1), of c] assms(2-5) by (auto simp: cpu_fine_def served_def counted_def net_simps)
qed (simp add: net_simps)

lemma set_place_commute:
  "set_place c p (upd_sd c' f s) = upd_sd c' f (set_place c p s)"
  "set_place c p (upd_napi n h s) = upd_napi n h (set_place c p s)"
  "set_place c p (upd_soft c' g s) = upd_soft c' g (set_place c p s)"
  by (simp_all add: set_place_def upd_sd_def upd_napi_def upd_soft_def)

lemma rotate_ok:
  assumes "net_ok env s" "rx_places s c = RxLoop b" "n \<in> set (poll_list (softnet s c))"
  shows "net_ok env (upd_sd c (\<lambda>d. d\<lparr>poll_list := remove1 n (poll_list d) @ [n]\<rparr>) s)" (is "net_ok env ?t")
proof (rule net_okI [OF assms(1)])
  have d: "distinct (poll_list (softnet s c))" using net_okD(2) [OF assms(1), of c] by (simp add: cpu_fine_def lists_ok_def)
  then have e: "set (remove1 n (poll_list (softnet s c)) @ [n]) = set (poll_list (softnet s c))" using assms(3) by auto
  then have "spots ?t m = spots s m" for m by (intro spots_eqI) (simp_all add: net_simps)
  then show "token ?t m" for m using token_same [OF assms(1), of ?t] by (simp add: net_simps ext)
  show "cpu_fine env ?t c"
    using net_okD(2) [OF assms(1), of c] assms(2,3) d
    by (auto simp: cpu_fine_def lists_ok_def place_ok_def served_def counted_def net_simps)
qed (simp add: net_simps)

lemma napi_complete_ok:
  assumes "net_ok env s" "rx_places s c = RxLoop b" "Dev a \<in> set (poll_list (softnet s c))"
  shows "\<exists>t. napi_complete c (Dev a) s = Inr t \<and> net_ok env t"
proof -
  let ?u = "upd_sd c (\<lambda>d. d\<lparr>poll_list := remove1 (Dev a) (poll_list d)\<rparr>) s"
  let ?t = "upd_napi (Dev a) (\<lambda>k. k\<lparr>napi_sched := False\<rparr>) ?u"
  have fine: "cpu_fine env s c" by (rule net_okD(2) [OF assms(1)])
  then have d: "distinct (poll_list (softnet s c))" by (simp add: cpu_fine_def lists_ok_def)
  have on: "OnPoll c \<in> spots s (Dev a)" using assms(3) by (simp add: in_spots)
  have "net_ok env ?t"
  proof (rule net_okI [OF assms(1)])
    show "token ?t m" for m
      using token_lose [of s "Dev a" "OnPoll c" ?t] token_other [of ?t m s] net_okD(1) [OF assms(1)] on spots_remove [OF d]
      by (cases "m = Dev a") (simp_all add: net_simps)
    show "cpu_fine env ?t c"
      using fine assms(2) d set_remove1_subset [of "Dev a" "poll_list (softnet s c)"]
      by (auto simp: cpu_fine_def lists_ok_def place_ok_def served_def counted_def net_simps)
  qed (simp add: net_simps)
  then show ?thesis using token_sched [OF net_okD(1) [OF assms(1)] on] by (simp add: napi_complete_def)
qed

lemma complete_place: "map_sum id (set_place c p) (napi_complete me n s) = napi_complete me n (set_place c p s)"
  by (simp add: napi_complete_def net_simps set_place_commute)

lemma rx_after_ok:
  assumes "net_ok env (set_place me (RxLoop (budget - work)) s)" "work = weight \<Longrightarrow> n \<in> set (poll_list (softnet s me))"
  shows "\<exists>t. rx_after me n budget weight work s = Inr t \<and> net_ok env t"
proof -
  let ?s = "set_place me (RxLoop (budget - work)) s"
  have "\<exists>t. napi_complete me n ?s = Inr t \<and> net_ok env t" if w: "work = weight" and x: "napi_disabling (napis s n)"
  proof (cases n)
    case (Dev a)
    then show ?thesis using napi_complete_ok [OF assms(1), of me "budget - work" a] assms(2) w by (simp add: net_simps)
  next
    case (Backlog b)
    then show ?thesis using net_okD(2) [OF assms(1), of b] x by (simp add: cpu_fine_def net_simps)
  qed
  then show ?thesis
    using rotate_ok [OF assms(1), of me "budget - work" n] assms complete_place [of me "RxLoop (budget - work)" me n s]
    by (cases "napi_complete me n s") (auto simp: rx_after_def net_simps set_place_commute)
qed

lemma set_place_twice [net_simps]: "set_place c p (set_place c q s) = set_place c p s"
  by (simp add: set_place_def)

lemma set_place_id: "rx_places s c = p \<Longrightarrow> set_place c p s = s"
  by (auto simp: set_place_def)

lemma polled_sched: "net_ok env s \<Longrightarrow> n \<in> set (poll_list (softnet s c)) \<Longrightarrow> napi_sched (napis s n)"
  using token_sched [of s n "OnPoll c"] net_okD(1) by (simp add: in_spots)

lemma frame_owner:
  "net_ok env s \<Longrightarrow> rx_places s c \<in> {PbHead f, PbInner f, PbReceive f skb} \<Longrightarrow> pb_owner f = c"
  using net_okD(2) [of env s c] by (auto simp: cpu_fine_def place_ok_def frame_ok_def)

lemma pb_return_ok:
  assumes "net_ok env (set_place me (PbHead f) s)" "\<not> pb_work f < pb_quota f"
  shows "\<exists>t. pb_return me f s = Inr t \<and> net_ok env t"
proof -
  have "frame_ok me (softnet s me) 0 f" using net_okD(2) [OF assms(1), of me] by (simp add: cpu_fine_def place_ok_def net_simps)
  then have f: "pb_owner f = me" "pb_work f = pb_quota f"
    "pb_quota f = pb_weight f \<Longrightarrow> Backlog me \<in> set (poll_list (softnet s me))"
    "pb_quota f \<noteq> pb_weight f \<Longrightarrow> process_queue (softnet s me) = []"
    using assms(2) by (auto simp: frame_ok_def split: if_splits)
  have "napi_sched (napis s (Backlog me))" if "process_queue (softnet s me) \<noteq> []"
    using polled_sched [OF assms(1), of "Backlog me" me] f(3,4) that by (auto simp: net_simps)
  then have "net_ok env (set_place me (RxLoop (pb_budget f - pb_work f)) (set_place me (PbHead f) s))"
    by (intro place_change [OF assms(1)]) (simp_all add: place_ok_def rx_hand_def net_simps)
  then show ?thesis unfolding pb_return_def using f by (intro rx_after_ok) (simp_all add: net_simps)
qed

lemma emit_place: "set_place c p (net_emit c' tp s) = net_emit c' tp (set_place c p s)"
  by (simp add: net_emit_def set_place_commute)

lemma pb_head_ok:
  assumes "net_ok env s" "rx_places s me = PbHead f"
  shows "\<exists>t. pb_head me f s = Inr t \<and> net_ok env t"
proof (cases "pb_work f < pb_quota f")
  case True
  have "place_ok me (softnet s me) (PbHead f)" using net_okD(2) [OF assms(1), of me] assms(2) by (simp add: cpu_fine_def)
  then have "net_ok env (set_place me (PbInner f) s)"
    using True assms(2) by (intro place_change [OF assms(1)]) (simp_all add: place_ok_def rx_hand_def in_backlog_def)
  then show ?thesis using True by (simp add: pb_head_def emit_place net_ok_emit)
next
  case False
  then show ?thesis using pb_return_ok [of env me f s] set_place_id [OF assms(2)] assms(1) by (simp add: pb_head_def)
qed

text \<open>The inner loop finds its queue empty only while it still owns the backlog.\<close>

lemma refill_frame:
  assumes "net_ok env s" "rx_places s me = PbInner f" "process_queue (softnet s me) = []"
  shows "pb_owner f = me" "pb_quota f = pb_weight f" "pb_work f < pb_quota f" "\<exists>ns. poll_list (softnet s me) = Backlog me # ns"
  using net_okD(2) [OF assms(1), of me] assms(2,3) by (auto simp: cpu_fine_def place_ok_def frame_ok_def split: if_splits)

lemma pb_refill_ok:
  assumes "net_ok env s" "rx_places s me = PbInner f" "process_queue (softnet s me) = []"
  shows "net_ok env (pb_refill me f s)"
proof -
  let ?d = "softnet s me" let ?q = "length (input_pkt_queue ?d)"
  let ?u = "upd_sd me (\<lambda>d. d\<lparr>process_queue := process_queue d @ input_pkt_queue d, input_pkt_queue := []\<rparr>) s"
  let ?r = "upd_sd me (\<lambda>d. d\<lparr>poll_list := remove1 (Backlog me) (poll_list d)\<rparr>) ?u"
  let ?t = "set_place me (PbHead (f\<lparr>pb_quota := pb_work f + int ?q\<rparr>))
    (upd_napi (Backlog me) (\<lambda>k. k\<lparr>napi_sched := False, napi_disabling := False\<rparr>) ?r)"
  note f = refill_frame [OF assms]
  obtain ns where ns: "poll_list ?d = Backlog me # ns" using f(4) by blast
  have fine: "cpu_fine env s me" by (rule net_okD(2) [OF assms(1)])
  have sp: "spots ?u = spots s" by (rule spots_keep) simp_all
  have d: "distinct (poll_list (softnet ?u me))" using fine by (simp add: cpu_fine_def lists_ok_def net_simps)
  have on: "OnPoll me \<in> spots s (Backlog me)" using ns by (simp add: in_spots)
  show ?thesis
  proof (cases "int ?q < pb_quota f - pb_work f")
    case True
    have "net_ok env ?t"
    proof (rule net_okI [OF assms(1)])
      show "token ?t m" for m
        using token_lose [of s "Backlog me" "OnPoll me" ?t] token_other [of ?t m s] net_okD(1) [OF assms(1)] on spots_remove [OF d] sp
        by (cases "m = Backlog me") (simp_all add: net_simps)
      show "cpu_fine env ?t me"
        using fine f True assms(2,3) ns
        by (simp add: cpu_fine_def lists_ok_def place_ok_def frame_ok_def served_def counted_def rx_hand_def in_backlog_def net_simps)
    qed (simp add: net_simps)
    then show ?thesis using True f(1) by (simp add: pb_refill_def)
  next
    case False
    have "net_ok env (set_place me (PbHead f) ?u)"
    proof (rule net_okI [OF assms(1)])
      show "token (set_place me (PbHead f) ?u) m" for m using token_same [OF assms(1)] sp by (simp add: net_simps)
      show "cpu_fine env (set_place me (PbHead f) ?u) me"
        using fine f False assms(2,3) ns
        by (simp add: cpu_fine_def lists_ok_def place_ok_def frame_ok_def served_def counted_def rx_hand_def in_backlog_def net_simps)
    qed (simp add: net_simps)
    then show ?thesis using False f(1) by (simp add: pb_refill_def)
  qed
qed

lemma pb_take_ok:
  assumes "net_ok env s" "rx_places s me = PbInner f" "process_queue (softnet s me) = skb # rest"
  shows "net_ok env (set_place me (PbReceive f skb) (upd_sd me (\<lambda>d. d\<lparr>process_queue := rest\<rparr>) s))" (is "net_ok env ?t")
proof (rule net_okI [OF assms(1)])
  have "spots ?t = spots s" by (simp add: net_simps spots_keep)
  then show "token ?t m" for m using token_same [OF assms(1), of ?t] by (simp add: net_simps)
  show "cpu_fine env ?t me"
    using net_okD(2) [OF assms(1), of me] assms(2,3)
    by (auto simp: cpu_fine_def lists_ok_def place_ok_def frame_ok_def served_def counted_def rx_hand_def in_backlog_def net_simps
        split: if_splits)
qed (simp add: net_simps)

lemma pb_inner_ok:
  assumes "net_ok env s" "rx_places s me = PbInner f"
  shows "net_ok env (pb_inner me f s)"
proof -
  have o: "pb_owner f = me" using frame_owner [OF assms(1)] assms(2) by simp
  have e: "rx_places (net_emit c tp s) = rx_places s" "softnet (net_emit c tp s) = softnet s" for c tp s
    by (simp_all add: net_emit_def net_simps)
  show ?thesis
  proof (cases "process_queue (softnet s me)")
    case Nil
    then show ?thesis using pb_refill_ok [of env "net_emit me (Proto Tp_loopstop) (net_emit me (Proto Tp_looprestart) s)" me f] assms o
      by (simp add: pb_inner_def e net_ok_emit)
  next
    case (Cons skb rest)
    then show ?thesis using pb_take_ok [of env "net_emit me (Proto Tp_looprestart) s" me f skb rest] assms o
      by (simp add: pb_inner_def e net_ok_emit emit_place)
  qed
qed

lemma pb_receive_ok:
  assumes "net_ok env s" "rx_places s me = PbReceive f skb"
  shows "\<exists>t. pb_receive me f skb s = Inr t \<and> net_ok env t"
proof -
  let ?f = "f\<lparr>pb_work := pb_work f + 1\<rparr>"
  let ?u = "upd_sd me (\<lambda>d. d\<lparr>input_queue_head := input_queue_head d + 1\<rparr>)
    (s\<lparr>rx_delivered := (rx_delivered s)(me := rx_delivered s me @ [skb])\<rparr>)"
  have o: "pb_owner f = me" using frame_owner [OF assms(1)] assms(2) by simp
  have ok: "net_ok env (set_place me (PbHead ?f) ?u)"
  proof (rule net_okI [OF assms(1)])
    have "spots (set_place me (PbHead ?f) ?u) = spots s" by (simp add: net_simps spots_keep)
    then show "token (set_place me (PbHead ?f) ?u) m" for m using token_same [OF assms(1), of "set_place me (PbHead ?f) ?u"] by (simp add: net_simps)
    show "cpu_fine env (set_place me (PbHead ?f) ?u) me"
      using net_okD(2) [OF assms(1), of me] assms(2)
      by (auto simp: cpu_fine_def lists_ok_def place_ok_def frame_ok_def served_def counted_def rx_hand_def in_backlog_def net_simps
          split: if_splits)
  qed (simp add: net_simps)
  show ?thesis
  proof (cases "pb_work ?f < pb_quota ?f")
    case True
    have "place_ok me (softnet ?u me) (PbHead ?f)" using net_okD(2) [OF ok, of me] by (simp add: cpu_fine_def net_simps)
    then have "net_ok env (set_place me (PbInner ?f) (set_place me (PbHead ?f) ?u))"
      using True by (intro place_change [OF ok]) (simp_all add: place_ok_def rx_hand_def in_backlog_def net_simps)
    then show ?thesis using True o by (simp add: pb_receive_def Let_def net_simps)
  next
    case False
    have "net_ok env (set_place me (PbHead ?f) (net_emit me (Proto Tp_loopstop) ?u))" using ok by (simp add: emit_place net_ok_emit)
    from pb_return_ok [OF this False] show ?thesis using False o by (simp add: pb_receive_def Let_def)
  qed
qed

lemma pb_begin_ok:
  assumes "net_ok env s" "rx_places s me = RxLoop budget" "poll_list (softnet s me) = Backlog b # ns" "0 < weight_p env"
  shows "net_ok env (pb_begin env me b budget (napi_weight (napis s (Backlog b))) s)"
proof -
  let ?w = "napi_weight (napis s (Backlog b))"
  let ?p = "PbHead \<lparr>pb_budget = budget, pb_weight = ?w, pb_owner = b, pb_quota = ?w, pb_work = 0\<rparr>"
  let ?u = "if rps_ipi_list (softnet s b) \<noteq> [] then net_rps_action env b s else s"
  let ?v = "upd_napi (Backlog b) (\<lambda>k. k\<lparr>napi_weight := weight_p env\<rparr>) ?u"
  have b: "b = me" and w: "0 < ?w" using net_okD(2) [OF assms(1), of me] assms(3) by (auto simp: cpu_fine_def lists_ok_def)
  have u: "net_ok env ?u" using assms(1) rps_action_ok by simp
  have same: "poll_list (softnet ?v me) = Backlog me # ns" "rx_places ?v = rx_places s" using assms(3) b by (simp_all add: net_simps)
  have v: "net_ok env ?v"
  proof (rule net_okI [OF u])
    show "token ?v m" for m using token_cong [of ?v m ?u] net_okD(1) [OF u] by (simp add: net_simps)
    show "cpu_fine env ?v b" using net_okD(2) [OF u, of b] assms(4) by (simp add: cpu_fine_def served_def net_simps)
  qed (simp add: net_simps)
  have "net_ok env (set_place me ?p ?v)"
    using same assms(2) b w by (intro place_change [OF v]) (simp_all add: place_ok_def frame_ok_def rx_hand_def in_backlog_def)
  then show ?thesis by (simp add: pb_begin_def Let_def)
qed

lemma rx_leave_ok:
  assumes "net_ok env s" "rx_places s me = RxLoop budget" "rx_pending (softs s me) \<or> poll_list (softnet s me) = []"
  shows "net_ok env (set_place me RxIdle (net_rps_action env me s))"
proof (rule place_change [OF rps_action_ok [OF assms(1)]])
  show "process_queue (softnet (net_rps_action env me s) me) \<noteq> [] \<Longrightarrow>
      napi_sched (napis (net_rps_action env me s) (Backlog me)) \<or> in_backlog RxIdle"
    using net_okD(2) [OF assms(1), of me] assms(2) by (simp add: cpu_fine_def served_def in_backlog_def net_simps)
qed (use assms(2,3) in \<open>auto simp: place_ok_def rx_hand_def net_simps\<close>)

lemma rx_loop_ok:
  assumes "net_ok env s" "rx_places s me = RxLoop budget" "0 < weight_p env"
  shows "\<exists>t. rx_loop env time_up me budget s = Inr t \<and> net_ok env t"
proof (cases "poll_list (softnet s me)")
  case Nil
  then show ?thesis using rx_leave_ok [OF assms(1,2)] by (simp add: rx_loop_def)
next
  case (Cons n ns)
  let ?r = "net_raise me (upd_sd me (\<lambda>d. d\<lparr>time_squeeze := time_squeeze d + 1\<rparr>) s)"
  have q: "net_ok env (upd_sd me (\<lambda>d. d\<lparr>time_squeeze := time_squeeze d + 1\<rparr>) s)" by (rule net_ok_stat [OF assms(1)]) simp_all
  have "net_ok env ?r"
    using net_okD [OF q] fine_raise token_cong [of ?r _ "upd_sd me (\<lambda>d. d\<lparr>time_squeeze := time_squeeze d + 1\<rparr>) s"]
    by (auto simp: net_ok_def net_raise_def net_simps)
  then have leave: "net_ok env (set_place me RxIdle (net_rps_action env me ?r))"
    using assms(2) by (intro rx_leave_ok) (simp_all add: net_raise_def net_simps)
  have sched: "napi_sched (napis s n)" using polled_sched [OF assms(1), of n me] Cons by simp
  have dev: "net_ok env (set_place me (RxDev budget w a) s)" if "n = Dev a" for w a
  proof (rule place_change [OF assms(1)])
    show "process_queue (softnet s me) \<noteq> [] \<Longrightarrow> napi_sched (napis s (Backlog me)) \<or> in_backlog (RxDev budget w a)"
      using net_okD(2) [OF assms(1), of me] assms(2) by (simp add: cpu_fine_def served_def in_backlog_def)
  qed (use assms(2) Cons that in \<open>simp_all add: place_ok_def rx_hand_def\<close>)
  show ?thesis
    using leave sched dev pb_begin_ok [OF assms(1,2) _ assms(3)] Cons
    by (cases n) (simp_all add: rx_loop_def Let_def)
qed

lemma dev_poll_ok:
  assumes "net_ok env s" "rx_places s me = RxDev budget weight a" "driver_ok i me s"
  shows "\<exists>t. dev_poll i me budget weight a s = Inr t \<and> net_ok env t"
proof -
  let ?l = "RxLoop (budget - rx_dev_work i)"
  have on: "Dev a \<in> set (poll_list (softnet s me))"
    using net_okD(2) [OF assms(1), of me] assms(2) by (auto simp: cpu_fine_def place_ok_def)
  have l: "net_ok env (set_place me ?l s)"
  proof (rule place_change [OF assms(1)])
    show "process_queue (softnet s me) \<noteq> [] \<Longrightarrow> napi_sched (napis s (Backlog me)) \<or> in_backlog ?l"
      using net_okD(2) [OF assms(1), of me] assms(2) by (simp add: cpu_fine_def served_def in_backlog_def)
  qed (use assms(2) in \<open>simp_all add: place_ok_def rx_hand_def\<close>)
  show ?thesis
  proof (cases "rx_dev_complete i")
    case True
    then have w: "rx_dev_work i \<noteq> weight" using assms(2,3) by (auto simp: driver_ok_def)
    obtain t where t: "napi_complete me (Dev a) (set_place me ?l s) = Inr t" "net_ok env t"
      using napi_complete_ok [OF l, of me "budget - rx_dev_work i" a] on by (auto simp: net_simps)
    then obtain u where "napi_complete me (Dev a) s = Inr u" "t = set_place me ?l u"
      using complete_place [of me ?l me "Dev a" s] by (cases "napi_complete me (Dev a) s") auto
    then show ?thesis using True w t(2) by (simp add: dev_poll_def rx_after_def)
  next
    case False
    then show ?thesis using rx_after_ok [OF l] on by (simp add: dev_poll_def)
  qed
qed

lemma net_rx_action_ok:
  assumes "net_ok env s" "driver_ok i me s" "0 < weight_p env"
  shows "\<exists>t. net_rx_action env i me s = Inr t \<and> net_ok env t"
  using assms(1) rx_loop_ok [OF assms(1) _ assms(3)] pb_head_ok [OF assms(1)] pb_inner_ok [OF assms(1)] pb_receive_ok [OF assms(1)]
    dev_poll_ok [OF assms(1) _ assms(2)]
  by (cases "rx_places s me") (auto simp: net_rx_action_def)

subsection \<open>Every step keeps it\<close>

lemma rx_enter_ok:
  assumes "net_ok env s" "rx_places s me = RxIdle"
  shows "net_ok env (rx_enter env me s)" (is "net_ok env ?t")
proof (rule net_okI [OF assms(1)])
  show "token ?t m" for m using token_same [OF assms(1), of ?t] by (simp add: rx_enter_def net_simps)
  show "cpu_fine env ?t me"
    using net_okD(2) [OF assms(1), of me] assms(2)
    by (simp add: cpu_fine_def place_ok_def served_def counted_def rx_hand_def in_backlog_def rx_enter_def net_simps)
qed (simp add: rx_enter_def net_simps)

lemma dev_flags_ok:
  assumes "net_ok env s" "\<And>m. token t m" "\<And>b. napis t (Backlog b) = napis s (Backlog b)" "softnet t = softnet s" "softs t = softs s"
    "rx_places t = rx_places s" "rx_accepted t = rx_accepted s" "rx_delivered t = rx_delivered s"
  shows "net_ok env t"
  using assms by (simp add: net_ok_def cpu_fine_def)

lemma spots_held: "spots (s\<lparr>napi_held := (napi_held s)(a := h)\<rparr>) m =
    (if m = Dev a then (if h then insert Held (spots s m) else spots s m - {Held}) else spots s m)"
  by (cases m) (auto simp: spots_def)

lemma napi_disable_try_ok:
  assumes "net_ok env s"
  shows "net_ok env (napi_disable_try a s)"
proof (cases "napi_sched (napis s (Dev a))")
  case False
  let ?u = "upd_napi (Dev a) (\<lambda>k. k\<lparr>napi_sched := True, napi_disabling := False\<rparr>) s"
  let ?t = "?u\<lparr>napi_held := (napi_held ?u)(a := True)\<rparr>"
  have "token ?t m" for m
    using token_gain [of s "Dev a" ?t Held] token_other [of ?t m s] net_okD(1) [OF assms] False spots_held [of ?u a True m]
    by (cases "m = Dev a") (simp_all add: net_simps)
  then have "net_ok env ?t" by (intro dev_flags_ok [OF assms]) (simp_all add: net_simps)
  then show ?thesis using False by (simp add: napi_disable_try_def net_simps)
qed (use assms in \<open>simp add: napi_disable_try_def\<close>)

lemma napi_enable_ok:
  assumes "net_ok env s" "napi_held s a"
  shows "\<exists>t. napi_enable a s = Inr t \<and> net_ok env t"
proof -
  let ?u = "upd_napi (Dev a) (\<lambda>k. k\<lparr>napi_sched := False\<rparr>) s"
  let ?t = "?u\<lparr>napi_held := (napi_held ?u)(a := False)\<rparr>"
  have h: "Held \<in> spots s (Dev a)" using assms(2) by (simp add: in_spots)
  have "token ?t m" for m
    using token_lose [of s "Dev a" Held ?t] token_other [of ?t m s] net_okD(1) [OF assms(1)] h spots_held [of ?u a False m]
    by (cases "m = Dev a") (simp_all add: net_simps)
  then have "net_ok env ?t" by (intro dev_flags_ok [OF assms(1)]) (simp_all add: net_simps)
  then show ?thesis using token_sched [OF net_okD(1) [OF assms(1)] h] by (simp add: napi_enable_def net_simps)
qed

lemma net_step_ok:
  assumes "net_step env s t" "net_ok env s" "0 < weight_p env"
  shows "net_ok env t"
  using assms
proof cases
  case (ns_rx me rps skb r)
  then show ?thesis using enqueue_to_backlog_ok [OF assms(2)] by (auto simp: netif_rx_def split: if_splits)
next
  case (ns_handler i c)
  then show ?thesis using net_rx_action_ok [OF assms(2) _ assms(3), of i c] by auto
next
  case (ns_schedule c a)
  then show ?thesis using assms(2) schedule_ok [OF assms(2), of "Dev a" c] by (simp add: napi_schedule_def Let_def)
next
  case (ns_mark a)
  then show ?thesis unfolding napi_disable_mark_def
    using token_cong [of "upd_napi (Dev a) (\<lambda>k. k\<lparr>napi_disabling := True\<rparr>) s" _ s] net_okD(1) [OF assms(2)]
    by (auto intro!: dev_flags_ok [OF assms(2)] simp: net_simps)
next
  case (ns_enable a)
  then show ?thesis using napi_enable_ok [OF assms(2), of a] by auto
qed (use assms(2) in \<open>simp_all add: ipi_step_ok rx_enter_ok napi_disable_try_ok\<close>)

lemma net_dev_init_ok:
  assumes "0 < weight_p env"
  shows "net_ok env (net_dev_init env c weights)"
proof -
  have "token (net_dev_init env c weights) n" for n by (cases n) (simp_all add: token_def spots_def net_dev_init_def)
  moreover have "cpu_fine env (net_dev_init env c weights) b" for b
    using assms by (simp add: cpu_fine_def lists_ok_def place_ok_def served_def counted_def rx_hand_def net_dev_init_def)
  ultimately show ?thesis by (simp add: net_ok_def)
qed

interpretation net_runs: invariant_run "net_step env" "\<lambda>s. 0 < weight_p env \<and> (\<exists>c weights. s = net_dev_init env c weights)"
  "\<lambda>s. 0 < weight_p env \<and> net_ok env s" for env
  by unfold_locales (auto intro: net_dev_init_ok net_step_ok)

section \<open>Properties\<close>

text \<open>Nothing is under way: no handler runs, no softirq is pending and no interrupt is on its way.\<close>

definition net_quiet :: "netsys \<Rightarrow> bool" where
  "net_quiet s \<longleftrightarrow> (\<forall>c. rx_places s c = RxIdle \<and> \<not> rx_pending (softs s c) \<and> \<not> csd_posted (softnet s c))"

lemma quiet_unscheduled:
  assumes "net_ok env s" "net_quiet s"
  shows "\<not> napi_sched (napis s (Backlog c))"
proof -
  have "poll_list (softnet s m) = [] \<and> rps_ipi_list (softnet s m) = []" for m
    using net_okD(2) [OF assms(1), of m] assms(2) by (auto simp: cpu_fine_def served_def net_quiet_def)
  then have "spots s (Backlog c) = {}" using assms(2) by (simp add: spots_def net_quiet_def)
  then show ?thesis using net_okD(1) [OF assms(1), of "Backlog c"] by (simp add: token_def split: if_splits)
qed


text \<open>The handler of one processor, run on its own.\<close>

primrec rx_run :: "netenv \<Rightarrow> nat \<Rightarrow> nat \<Rightarrow> netsys \<Rightarrow> netsys outcome" where
  "rx_run env me 0 s = Inr s"
| "rx_run env me (Suc k) s =
     bind_outcome (net_rx_action env \<lparr>rx_time_up = False, rx_dev_work = 0, rx_dev_complete = False\<rparr> me s) (rx_run env me k)"

lemma rx_run_steps: "rx_run env me k s = Inr t \<Longrightarrow> (net_step env)\<^sup>*\<^sup>* s t"
proof (induction k arbitrary: s)
  case (Suc k)
  let ?i = "\<lparr>rx_time_up = False, rx_dev_work = 0, rx_dev_complete = False\<rparr>"
  obtain u where u: "net_rx_action env ?i me s = Inr u" "rx_run env me k u = Inr t"
    using Suc.prems by (auto simp: bind_outcome_eq_Inr)
  have "driver_ok ?i me s" by (simp add: driver_ok_def split: rx_place.split)
  then show ?case using ns_handler [OF u(1)] Suc.IH [OF u(2)] by (meson converse_rtranclp_into_rtranclp)
qed simp

definition demo_net :: netenv where
  "demo_net = \<lparr>netdev_max_backlog = 1000, netdev_budget = 300, weight_p = 64, cpu_online = (\<lambda>_. True)\<rparr>"

definition demo_skb :: rx_skb where
  "demo_skb = \<lparr>skb_addr = 0xc5000000, skb_data = 0xc5000100\<rparr>"

text \<open>Processor 0 queues a packet for processor 1, sends the interrupt, and processor 1 handles it.\<close>

definition demo_sent :: netsys where
  "demo_sent = rx_enter demo_net 0 (snd (netif_rx demo_net 0 1 demo_skb (net_dev_init demo_net demo_cpu (\<lambda>_. 64))))"

definition demo_posted :: netsys where
  "demo_posted = set_place 0 RxIdle (net_rps_action demo_net 0 demo_sent)"

definition demo_arrived :: netsys where
  "demo_arrived = rx_enter demo_net 1 (rps_trigger_softirq 1 (upd_sd 1 (\<lambda>d. d\<lparr>csd_posted := False\<rparr>) demo_posted))"

lemma pending_clear [net_simps]:
  "\<not> rx_pending (c\<lparr>softirq_pending := p AND NOT (push_bit NET_RX_SOFTIRQ 1)\<rparr>)"
  "\<not> rx_pending (c\<lparr>softirq_pending := p AND NOT (2 ^ NET_RX_SOFTIRQ)\<rparr>)"
  by (simp_all add: rx_pending_def bit_and_iff bit_not_iff bit_push_bit_iff NET_RX_SOFTIRQ_def bit_exp_iff)

lemma demo_sent_facts:
  "poll_list (softnet demo_sent c) = []" "rps_ipi_list (softnet demo_sent c) = (if c = 0 then [1] else [])"
  "csd_posted (softnet demo_sent c) = False" "process_queue (softnet demo_sent c) = []"
  "input_pkt_queue (softnet demo_sent c) = (if c = 1 then [demo_skb] else [])"
  "rx_places demo_sent = (\<lambda>_. RxIdle)(0 := RxLoop 300)" "rx_pending (softs demo_sent c) = False"
  "napis demo_sent (Backlog c) = \<lparr>napi_sched = (c = 1), napi_disabling = False, napi_weight = 64\<rparr>"
  "rx_delivered demo_sent c = []" "rx_accepted demo_sent c = (if c = 1 then [demo_skb] else [])"
  by (simp_all add: demo_sent_def rx_enter_def netif_rx_def enqueue_to_backlog_def schedule_backlog_def queue_skb_def rps_ipi_queued_def
      net_raise_def net_emit_def net_simps net_dev_init_def demo_net_def Let_def)
    (simp_all add: demo_cpu_def rx_pending_def)

lemma demo_posted_facts:
  "poll_list (softnet demo_posted c) = []" "rps_ipi_list (softnet demo_posted c) = []"
  "csd_posted (softnet demo_posted c) = (c = 1)" "process_queue (softnet demo_posted c) = []"
  "input_pkt_queue (softnet demo_posted c) = (if c = 1 then [demo_skb] else [])"
  "rx_places demo_posted = (\<lambda>_. RxIdle)" "rx_pending (softs demo_posted c) = False"
  "napis demo_posted (Backlog c) = \<lparr>napi_sched = (c = 1), napi_disabling = False, napi_weight = 64\<rparr>"
  "rx_delivered demo_posted c = []" "rx_accepted demo_posted c = (if c = 1 then [demo_skb] else [])"
  by (auto simp: demo_posted_def net_simps demo_sent_facts) (simp_all add: demo_net_def)

lemma demo_arrived_facts:
  "poll_list (softnet demo_arrived c) = (if c = 1 then [Backlog 1] else [])" "rps_ipi_list (softnet demo_arrived c) = []"
  "csd_posted (softnet demo_arrived c) = False" "process_queue (softnet demo_arrived c) = []"
  "input_pkt_queue (softnet demo_arrived c) = (if c = 1 then [demo_skb] else [])"
  "rx_places demo_arrived = (\<lambda>_. RxIdle)(1 := RxLoop 300)" "rx_pending (softs demo_arrived c) = False"
  "napis demo_arrived (Backlog c) = \<lparr>napi_sched = (c = 1), napi_disabling = False, napi_weight = 64\<rparr>"
  "rx_delivered demo_arrived c = []" "rx_accepted demo_arrived c = (if c = 1 then [demo_skb] else [])"
  by (auto simp: demo_arrived_def rx_enter_def rps_trigger_softirq_def napi_schedule_irqoff_def net_raise_def net_simps demo_posted_facts)
    (simp_all add: demo_net_def)

lemma demo_reach: "(net_step demo_net)\<^sup>*\<^sup>* (net_dev_init demo_net demo_cpu (\<lambda>_. 64)) demo_arrived"
proof -
  let ?s0 = "net_dev_init demo_net demo_cpu (\<lambda>_. 64)"
  let ?s1 = "snd (netif_rx demo_net 0 1 demo_skb ?s0)"
  let ?s2 = "rps_trigger_softirq 1 (upd_sd 1 (\<lambda>d. d\<lparr>csd_posted := False\<rparr>) demo_posted)"
  have "net_step demo_net ?s0 ?s1" by (rule ns_rx [OF surjective_pairing]) (simp_all add: demo_net_def)
  moreover have "net_step demo_net ?s1 demo_sent" unfolding demo_sent_def
    by (rule ns_enter) (simp_all add: netif_rx_def enqueue_to_backlog_def schedule_backlog_def queue_skb_def rps_ipi_queued_def
      net_raise_def net_emit_def net_simps net_dev_init_def demo_net_def Let_def)
  moreover have "rx_run demo_net 0 1 demo_sent = Inr demo_posted"
    by (simp add: net_rx_action_def rx_loop_def demo_sent_facts demo_posted_def)
  moreover have "net_step demo_net demo_posted ?s2" by (rule ns_ipi) (simp add: demo_posted_facts)
  moreover have "net_step demo_net ?s2 demo_arrived" unfolding demo_arrived_def
    by (rule ns_enter) (simp_all add: rps_trigger_softirq_def napi_schedule_irqoff_def net_raise_def net_simps demo_posted_facts)
  ultimately show ?thesis using rx_run_steps by (meson converse_rtranclp_into_rtranclp rtranclp.rtrancl_refl rtranclp_trans)
qed


text \<open>
  (C37) The lists are never corrupted: in every run a structure is on at most one list and at most once,
  a processor that waits to be interrupted is not being interrupted and its backlog is on no list to
  poll, a disabled structure is on none, and no \<open>BUG_ON\<close> of the handler or of \<open>napi_enable\<close> fires.
\<close>

theorem napi_one_place:
  assumes "(net_step env)\<^sup>*\<^sup>* (net_dev_init env c0 weights) s" "0 < weight_p env"
  shows "distinct (poll_list (softnet s c)) \<and> distinct (rps_ipi_list (softnet s c))
    \<and> (n \<in> set (poll_list (softnet s c)) \<and> n \<in> set (poll_list (softnet s c')) \<longrightarrow> c = c')
    \<and> (b \<in> set (rps_ipi_list (softnet s c)) \<longrightarrow> \<not> csd_posted (softnet s b) \<and> Backlog b \<notin> set (poll_list (softnet s c'))
        \<and> (b \<in> set (rps_ipi_list (softnet s c')) \<longrightarrow> c = c'))
    \<and> (napi_held s a \<longrightarrow> Dev a \<notin> set (poll_list (softnet s c)) \<and> (\<exists>t. napi_enable a s = Inr t))
    \<and> (driver_ok i c s \<longrightarrow> (\<exists>t. net_rx_action env i c s = Inr t))"
proof -
  have ok: "net_ok env s" using net_runs.reach_good [OF assms(1)] assms(2) by blast
  note u = token_unique [OF net_okD(1) [OF ok]]
  show ?thesis
    using net_okD(2) [OF ok, of c] u [of "OnPoll c" n "OnPoll c'"] u [of "OnIpi c" "Backlog b" InFlight]
      u [of "OnIpi c" "Backlog b" "OnPoll c'"] u [of "OnIpi c" "Backlog b" "OnIpi c'"] u [of Held "Dev a" "OnPoll c"]
      napi_enable_ok [OF ok, of a] net_rx_action_ok [OF ok _ assms(2), of i c]
    by (auto simp: in_spots cpu_fine_def lists_ok_def)
qed

theorem napi_one_place_witness:
  "Backlog 1 \<in> set (poll_list (softnet demo_arrived 1)) \<and> Backlog 1 \<notin> set (poll_list (softnet demo_arrived 0))
    \<and> (\<exists>t. net_rx_action demo_net \<lparr>rx_time_up = True, rx_dev_work = 0, rx_dev_complete = False\<rparr> 1 demo_arrived = Inr t)"
proof -
  have "0 < weight_p demo_net" by (simp add: demo_net_def)
  from napi_one_place [OF demo_reach this, of 1 "Backlog 1" 0 0 0 "\<lparr>rx_time_up = True, rx_dev_work = 0, rx_dev_complete = False\<rparr>"]
  show ?thesis by (simp add: demo_arrived_facts driver_ok_def)
qed

text \<open>
  The tracepoint for the queueing of a packet comes before the limit is tested: a packet that is
  dropped because the backlog is full is traced as queued.
\<close>

theorem dropped_packet_traced:
  assumes "netdev_max_backlog env < length (input_pkt_queue (softnet s cpu))"
  shows "\<exists>t tps. enqueue_to_backlog env me skb cpu s = (NET_RX_DROP, t) \<and> input_pkt_queue (softnet t cpu) = input_pkt_queue (softnet s cpu)
    \<and> soft_emitted (softs t me) = soft_emitted (softs s me) @ Tp_pktqueue (skb_data skb) backlog_code 0 QUEUE_ENQUEUE # tps"
  using assms by (simp add: enqueue_to_backlog_def Let_def net_emit_def net_simps emit_def)

text \<open>The counters of the two ends of a backlog, by which flows are steered, differ by what is queued.\<close>

theorem backlog_counters:
  assumes "(net_step env)\<^sup>*\<^sup>* (net_dev_init env c0 weights) s" "0 < weight_p env"
  shows "input_queue_tail (softnet s c) - input_queue_head (softnet s c) =
    of_nat (length (rx_hand (rx_places s c) @ process_queue (softnet s c) @ input_pkt_queue (softnet s c)))"
proof -
  have "net_ok env s" using net_runs.reach_good [OF assms(1)] assms(2) by blast
  then show ?thesis using net_okD(2) [of env s c] by (auto simp: cpu_fine_def counted_def)
qed

end
