(* ===== verification/IrqLine.thy ===== *)
theory IrqLine
  imports SepProbes
begin

text \<open>
  An interrupt line with its handlers and their threads: \<open>kernel/irq/handle.c\<close> with the tracepoints the
  framework added, the flow handlers of \<open>kernel/irq/chip.c\<close>, and the interrupt threads of
  \<open>kernel/irq/manage.c\<close>. The handlers and the threads run concurrently; the steps are the sections under
  the lock of the line and the single operations on bits outside of it.
\<close>

section \<open>State\<close>

record irqaction =
  act_handler :: addr
  act_thread_fn :: bool
  act_thread_mask :: u32

text \<open>
  The flags of an interrupt thread, whether it is in the state \<open>TASK_INTERRUPTIBLE\<close>, and where it is:
  before it sets this state, before it tests its flag, in \<open>schedule\<close>, before it looks whether the line is
  disabled, in its function, in \<open>irq_finalize_oneshot\<close>, and behind it. Threads are not stopped.
\<close>

datatype thread_place = TEnter | TTest | TSched | TCheck | TFn | TFinal | TDone

record irqthread =
  tf_runthread :: bool
  tf_died :: bool
  tf_warned :: bool
  thr_sleepy :: bool
  thr_place :: thread_place

text \<open>
  Where the hard interrupt is: not running, before the call of a handler, between setting the flag of
  a thread and waking it, and behind the last handler.
\<close>

datatype flow_place = FlowIdle | FlowCall nat | FlowWake nat | FlowEnd

datatype flow_type = LevelFlow | FasteoiFlow | SimpleFlow

datatype irqreturn = IRQ_NONE | IRQ_HANDLED | IRQ_WAKE_THREAD

record irq_desc =
  irq_actions :: "irqaction list"
  irq_istate :: u32
  irqd_disabled :: bool
  irqd_masked :: bool
  irqd_inprogress :: bool
  irq_depth :: nat
  threads_oneshot :: u32
  threads_active :: nat
  irq_threads :: "nat \<Rightarrow> irqthread"
  irq_flow :: flow_place
  irq_emitted :: "tracepoint list"

record irqenv =
  irq_number :: u32
  irq_flow_type :: flow_type
  irq_is_level :: bool
  chip_has_disable :: bool

definition IRQS_ONESHOT :: u32 where "IRQS_ONESHOT = 0x20"

definition IRQS_REPLAY :: u32 where "IRQS_REPLAY = 0x40"

definition IRQS_WAITING :: u32 where "IRQS_WAITING = 0x80"

definition IRQS_PENDING :: u32 where "IRQS_PENDING = 0x200"

definition is_oneshot :: "irq_desc \<Rightarrow> bool" where
  "is_oneshot s \<longleftrightarrow> irq_istate s AND IRQS_ONESHOT \<noteq> 0"

definition upd_thread :: "nat \<Rightarrow> (irqthread \<Rightarrow> irqthread) \<Rightarrow> irq_desc \<Rightarrow> irq_desc" where
  "upd_thread k f s = s\<lparr>irq_threads := (irq_threads s)(k := f (irq_threads s k))\<rparr>"

section \<open>Masking\<close>

text \<open>The interrupt controller has the functions that mask and unmask a line; the flag says what it does.\<close>

definition mask_ack_irq :: "irq_desc \<Rightarrow> irq_desc" where
  "mask_ack_irq s = s\<lparr>irqd_masked := True\<rparr>"

definition mask_irq :: "irq_desc \<Rightarrow> irq_desc" where
  "mask_irq s = s\<lparr>irqd_masked := True\<rparr>"

definition unmask_irq :: "irq_desc \<Rightarrow> irq_desc" where
  "unmask_irq s = s\<lparr>irqd_masked := False\<rparr>"

definition cond_unmask_irq :: "irq_desc \<Rightarrow> irq_desc" where
  "cond_unmask_irq s =
     (if \<not> irqd_disabled s \<and> irqd_masked s \<and> threads_oneshot s = 0 then unmask_irq s else s)"

definition irq_enable :: "irq_desc \<Rightarrow> irq_desc" where
  "irq_enable s = s\<lparr>irqd_disabled := False, irqd_masked := False\<rparr>"

definition irq_disable :: "irqenv \<Rightarrow> irq_desc \<Rightarrow> irq_desc" where
  "irq_disable env s =
     (let s1 = s\<lparr>irqd_disabled := True\<rparr> in if chip_has_disable env then s1\<lparr>irqd_masked := True\<rparr> else s1)"

definition check_irq_resend :: "irqenv \<Rightarrow> irq_desc \<Rightarrow> irq_desc" where
  "check_irq_resend env s =
     (if irq_is_level env \<or> irq_istate s AND IRQS_REPLAY \<noteq> 0 then s
      else if irq_istate s AND IRQS_PENDING \<noteq> 0
      then s\<lparr>irq_istate := (irq_istate s AND NOT IRQS_PENDING) OR IRQS_REPLAY\<rparr> else s)"

text \<open>\<open>__disable_irq\<close> and \<open>__enable_irq\<close>, as \<open>disable_irq_nosync\<close> and \<open>enable_irq\<close> call them.\<close>

definition disable_irq_nosync :: "irqenv \<Rightarrow> irq_desc \<Rightarrow> irq_desc" where
  "disable_irq_nosync env s =
     (let s1 = s\<lparr>irq_depth := irq_depth s + 1\<rparr> in if irq_depth s = 0 then irq_disable env s1 else s1)"

definition enable_irq :: "irqenv \<Rightarrow> irq_desc \<Rightarrow> irq_desc" where
  "enable_irq env s =
     (if irq_depth s = 0 then s
      else let s1 = (if irq_depth s = 1 then check_irq_resend env (irq_enable s) else s)
           in s1\<lparr>irq_depth := irq_depth s1 - 1\<rparr>)"

section \<open>The hard interrupt\<close>

text \<open>\<open>handle_irq_event\<close> up to the release of the lock.\<close>

definition irq_event_begin :: "irq_desc \<Rightarrow> irq_desc" where
  "irq_event_begin s =
     s\<lparr>irq_istate := irq_istate s AND NOT IRQS_PENDING, irqd_inprogress := True, irq_flow := FlowCall 0\<rparr>"

definition clear_replay :: "irq_desc \<Rightarrow> irq_desc" where
  "clear_replay s = s\<lparr>irq_istate := irq_istate s AND NOT (IRQS_REPLAY OR IRQS_WAITING)\<rparr>"

definition handle_level_irq :: "irq_desc \<Rightarrow> irq_desc" where
  "handle_level_irq s0 =
     (let s = mask_ack_irq s0 in
      if irqd_inprogress s then s
      else let s1 = clear_replay s in
        if irq_actions s1 = [] \<or> irqd_disabled s1 then s1 else irq_event_begin s1)"

definition handle_fasteoi_irq :: "irq_desc \<Rightarrow> irq_desc" where
  "handle_fasteoi_irq s =
     (if irqd_inprogress s then s
      else let s1 = clear_replay s in
        if irq_actions s1 = [] \<or> irqd_disabled s1
        then mask_irq (s1\<lparr>irq_istate := irq_istate s1 OR IRQS_PENDING\<rparr>)
        else irq_event_begin (if is_oneshot s1 then mask_irq s1 else s1))"

definition handle_simple_irq :: "irq_desc \<Rightarrow> irq_desc" where
  "handle_simple_irq s =
     (if irqd_inprogress s then s
      else let s1 = clear_replay s in
        if irq_actions s1 = [] \<or> irqd_disabled s1 then s1 else irq_event_begin s1)"

definition handle_irq :: "irqenv \<Rightarrow> irq_desc \<Rightarrow> irq_desc" where
  "handle_irq env =
     (case irq_flow_type env of
        LevelFlow \<Rightarrow> handle_level_irq | FasteoiFlow \<Rightarrow> handle_fasteoi_irq | SimpleFlow \<Rightarrow> handle_simple_irq)"

definition flow_next :: "nat \<Rightarrow> irq_desc \<Rightarrow> irq_desc" where
  "flow_next k s = s\<lparr>irq_flow := (if Suc k < length (irq_actions s) then FlowCall (Suc k) else FlowEnd)\<rparr>"

text \<open>\<open>irq_wake_thread\<close>: the test of the flags, and the rest if the thread is to be woken.\<close>

definition irq_wake_thread :: "nat \<Rightarrow> irq_desc \<Rightarrow> irq_desc" where
  "irq_wake_thread k s =
     (let t = irq_threads s k in
      if tf_died t \<or> tf_runthread t then flow_next k s
      else (upd_thread k (\<lambda>t. t\<lparr>tf_runthread := True\<rparr>) s)\<lparr>irq_flow := FlowWake k\<rparr>)"

definition wake_thread_rest :: "nat \<Rightarrow> irq_desc \<Rightarrow> irq_desc" where
  "wake_thread_rest k s =
     flow_next k (upd_thread k (\<lambda>t. t\<lparr>thr_sleepy := False\<rparr>)
       (s\<lparr>threads_oneshot := threads_oneshot s OR act_thread_mask (irq_actions s ! k)\<rparr>))"

definition hirq_events :: "irqenv \<Rightarrow> irqaction \<Rightarrow> tracepoint list" where
  "hirq_events env a =
     [Proto (Tp_srvqueue (act_handler a) (of_nat (queue_code SRVQ_HIRQ)) 0 QUEUE_DEQUEUE),
      Sched (Tp_hirqstart (irq_number env)), Sched (Tp_hirqstop (irq_number env)), Proto (Tp_srvexit 0)]"

text \<open>One round of the loop of \<open>handle_irq_event_percpu\<close>; \<open>res\<close> is what the handler returns.\<close>

definition handle_irq_event_percpu :: "irqenv \<Rightarrow> nat \<Rightarrow> irqreturn \<Rightarrow> irq_desc \<Rightarrow> irq_desc" where
  "handle_irq_event_percpu env k res s =
     (let a = irq_actions s ! k; s1 = s\<lparr>irq_emitted := irq_emitted s @ hirq_events env a\<rparr> in
      case res of
        IRQ_WAKE_THREAD \<Rightarrow>
          if \<not> act_thread_fn a then flow_next k (upd_thread k (\<lambda>t. t\<lparr>tf_warned := True\<rparr>) s1)
          else irq_wake_thread k s1
      | _ \<Rightarrow> flow_next k s1)"

text \<open>The end of \<open>handle_irq_event\<close> and of the flow handlers, under the lock.\<close>

definition flow_end :: "irqenv \<Rightarrow> irq_desc \<Rightarrow> irq_desc" where
  "flow_end env s =
     (let s1 = s\<lparr>irqd_inprogress := False, irq_flow := FlowIdle\<rparr> in
      case irq_flow_type env of
        LevelFlow \<Rightarrow> cond_unmask_irq s1
      | FasteoiFlow \<Rightarrow> if is_oneshot s1 then cond_unmask_irq s1 else s1
      | SimpleFlow \<Rightarrow> s1)"

section \<open>The threads\<close>

definition go :: "nat \<Rightarrow> thread_place \<Rightarrow> irq_desc \<Rightarrow> irq_desc" where
  "go k p = upd_thread k (\<lambda>t. t\<lparr>thr_place := p\<rparr>)"

text \<open>\<open>irq_finalize_oneshot\<close>, which starts over while the hard interrupt is in progress.\<close>

definition irq_finalize_oneshot :: "nat \<Rightarrow> irq_desc \<Rightarrow> irq_desc" where
  "irq_finalize_oneshot k s =
     (if \<not> is_oneshot s then go k TDone s
      else if irqd_inprogress s then s
      else if tf_runthread (irq_threads s k) then go k TDone s
      else let s1 = s\<lparr>threads_oneshot := threads_oneshot s AND NOT (act_thread_mask (irq_actions s ! k))\<rparr>
           in go k TDone (if threads_oneshot s1 = 0 \<and> \<not> irqd_disabled s1 \<and> irqd_masked s1 then unmask_irq s1 else s1))"

definition irq_thread :: "nat \<Rightarrow> irq_desc \<Rightarrow> irq_desc" where
  "irq_thread k s =
     (case thr_place (irq_threads s k) of
        TEnter \<Rightarrow> upd_thread k (\<lambda>t. t\<lparr>thr_sleepy := True, thr_place := TTest\<rparr>) s
      | TTest \<Rightarrow> if tf_runthread (irq_threads s k)
          then upd_thread k (\<lambda>t. t\<lparr>tf_runthread := False, thr_sleepy := False, thr_place := TCheck\<rparr>) s
          else go k TSched s
      | TSched \<Rightarrow> if thr_sleepy (irq_threads s k) then s else go k TEnter s
      | TCheck \<Rightarrow>
          (let s1 = s\<lparr>threads_active := threads_active s + 1\<rparr> in
           if irqd_disabled s1 then go k TDone (s1\<lparr>irq_istate := irq_istate s1 OR IRQS_PENDING\<rparr>) else go k TFn s1)
      | TFn \<Rightarrow> go k TFinal s
      | TFinal \<Rightarrow> irq_finalize_oneshot k s
      | TDone \<Rightarrow> go k TEnter (s\<lparr>threads_active := threads_active s - 1\<rparr>))"

section \<open>Requesting the line\<close>

definition ffz :: "u32 \<Rightarrow> nat" where
  "ffz x = (case find (\<lambda>i. \<not> bit x i) [0..<32] of None \<Rightarrow> 32 | Some i \<Rightarrow> i)"

text \<open>
  What \<open>__setup_irq\<close> does with the list of the handlers: a handler of a oneshot line gets the first bit
  that no other one has, and the thirty-third is refused. The structure is allocated with a zero mask.
\<close>

definition setup_irq :: "bool \<Rightarrow> irqaction list \<Rightarrow> addr \<times> bool \<Rightarrow> irqaction list option" where
  "setup_irq oneshot old h =
     (let new = \<lparr>act_handler = fst h, act_thread_fn = snd h, act_thread_mask = 0\<rparr>;
          thread_mask = fold (\<lambda>a m. m OR act_thread_mask a) old 0
      in if \<not> oneshot then Some (old @ [new])
         else if thread_mask = - 1 then None
         else Some (old @ [new\<lparr>act_thread_mask := push_bit (ffz thread_mask) 1\<rparr>]))"

fun setup_all :: "bool \<Rightarrow> irqaction list \<Rightarrow> (addr \<times> bool) list \<Rightarrow> irqaction list option" where
  "setup_all oneshot as [] = Some as"
| "setup_all oneshot as (h # hs) =
     (case setup_irq oneshot as h of None \<Rightarrow> None | Some as' \<Rightarrow> setup_all oneshot as' hs)"

definition line_start :: "bool \<Rightarrow> irqaction list \<Rightarrow> irq_desc" where
  "line_start oneshot as =
     \<lparr>irq_actions = as, irq_istate = (if oneshot then IRQS_ONESHOT else 0), irqd_disabled = False, irqd_masked = False,
      irqd_inprogress = False, irq_depth = 0, threads_oneshot = 0, threads_active = 0,
      irq_threads = (\<lambda>_. \<lparr>tf_runthread = False, tf_died = False, tf_warned = False, thr_sleepy = False, thr_place = TEnter\<rparr>),
      irq_flow = FlowIdle, irq_emitted = []\<rparr>"

text \<open>
  The steps. The hardware delivers an interrupt when the line is not masked; a thread may be woken for
  no reason. \<open>dis\<close> says whether drivers disable and enable the line.
\<close>

inductive irq_step :: "bool \<Rightarrow> irqenv \<Rightarrow> irq_desc \<Rightarrow> irq_desc \<Rightarrow> bool" for dis env where
  is_irq: "\<not> irqd_masked s \<Longrightarrow> irq_step dis env s (handle_irq env s)"
| is_call: "irq_flow s = FlowCall k \<Longrightarrow> irq_step dis env s (handle_irq_event_percpu env k res s)"
| is_wake: "irq_flow s = FlowWake k \<Longrightarrow> irq_step dis env s (wake_thread_rest k s)"
| is_end: "irq_flow s = FlowEnd \<Longrightarrow> irq_step dis env s (flow_end env s)"
| is_thread: "k < length (irq_actions s) \<Longrightarrow> act_thread_fn (irq_actions s ! k) \<Longrightarrow> irq_step dis env s (irq_thread k s)"
| is_spurious: "irq_step dis env s (upd_thread k (\<lambda>t. t\<lparr>thr_sleepy := False\<rparr>) s)"
| is_disable: "dis \<Longrightarrow> irq_step dis env s (disable_irq_nosync env s)"
| is_enable: "dis \<Longrightarrow> irq_step dis env s (enable_irq env s)"

section \<open>The invariant\<close>

text \<open>A thread has work: its flag is set, or it has taken the flag and has not finished.\<close>

definition busy :: "thread_place \<Rightarrow> bool" where
  "busy p \<longleftrightarrow> p = TCheck \<or> p = TFn \<or> p = TFinal"

definition work :: "irq_desc \<Rightarrow> nat \<Rightarrow> bool" where
  "work s k \<longleftrightarrow> tf_runthread (irq_threads s k) \<or> busy (thr_place (irq_threads s k))"

definition mask_of :: "irq_desc \<Rightarrow> nat \<Rightarrow> u32" where
  "mask_of s k = act_thread_mask (irq_actions s ! k)"

definition masks_ok :: "bool \<Rightarrow> irqaction list \<Rightarrow> bool" where
  "masks_ok oneshot as \<longleftrightarrow> as \<noteq> []
     \<and> (\<forall>i<length as. \<forall>j<length as. \<forall>b. bit (act_thread_mask (as ! i)) b \<longrightarrow> bit (act_thread_mask (as ! j)) b \<longrightarrow> i = j)
     \<and> (\<forall>i<length as. act_thread_mask (as ! i) \<noteq> 0 \<longleftrightarrow> oneshot)"

text \<open>The flow handler masks the line while it runs.\<close>

definition masking :: "irqenv \<Rightarrow> irq_desc \<Rightarrow> bool" where
  "masking env s \<longleftrightarrow> irq_flow_type env = LevelFlow \<or> irq_flow_type env = FasteoiFlow \<and> is_oneshot s"

definition flow_ok :: "irq_desc \<Rightarrow> bool" where
  "flow_ok s \<longleftrightarrow> \<not> irqd_disabled s \<and> (irqd_inprogress s \<longleftrightarrow> irq_flow s \<noteq> FlowIdle)
     \<and> (\<forall>k. irq_flow s = FlowCall k \<longrightarrow> k < length (irq_actions s))
     \<and> (\<forall>k. irq_flow s = FlowWake k \<longrightarrow> k < length (irq_actions s) \<and> (is_oneshot s \<longrightarrow> work s k))"

definition bits_ok :: "irq_desc \<Rightarrow> bool" where
  "bits_ok s \<longleftrightarrow>
     (\<forall>b. bit (threads_oneshot s) b \<longrightarrow> (\<exists>k<length (irq_actions s). bit (mask_of s k) b \<and> work s k))
     \<and> (\<forall>k<length (irq_actions s). work s k \<longrightarrow> irq_flow s \<noteq> FlowWake k \<longrightarrow> (\<forall>b. bit (mask_of s k) b \<longrightarrow> bit (threads_oneshot s) b))"

definition masked_ok :: "irqenv \<Rightarrow> irq_desc \<Rightarrow> bool" where
  "masked_ok env s \<longleftrightarrow> (irqd_masked s \<longrightarrow> masking env s)
     \<and> (irqd_masked s \<longrightarrow> irq_flow s = FlowIdle \<longrightarrow> threads_oneshot s \<noteq> 0)
     \<and> (masking env s \<longrightarrow> irqd_inprogress s \<or> threads_oneshot s \<noteq> 0 \<longrightarrow> irqd_masked s)"

definition wakes_ok :: "irq_desc \<Rightarrow> bool" where
  "wakes_ok s \<longleftrightarrow> (\<forall>k. tf_runthread (irq_threads s k) \<longrightarrow> thr_place (irq_threads s k) = TSched \<longrightarrow> thr_sleepy (irq_threads s k)
     \<longrightarrow> irq_flow s = FlowWake k)"

definition line_ok :: "irqenv \<Rightarrow> irq_desc \<Rightarrow> bool" where
  "line_ok env s \<longleftrightarrow> masks_ok (is_oneshot s) (irq_actions s) \<and> flow_ok s \<and> bits_ok s \<and> masked_ok env s \<and> wakes_ok s"

lemma istate_bits:
  "(x AND NOT IRQS_PENDING) AND IRQS_ONESHOT = x AND IRQS_ONESHOT"
  "(x AND NOT (IRQS_REPLAY OR IRQS_WAITING)) AND IRQS_ONESHOT = x AND IRQS_ONESHOT"
  "(x AND (NOT IRQS_REPLAY AND NOT IRQS_WAITING)) AND IRQS_ONESHOT = x AND IRQS_ONESHOT"
  "((x AND NOT IRQS_REPLAY) AND NOT IRQS_WAITING) AND IRQS_ONESHOT = x AND IRQS_ONESHOT"
  "(x OR IRQS_PENDING) AND IRQS_ONESHOT = x AND IRQS_ONESHOT"
  by (simp_all add: and.assoc bit.conj_disj_distrib2 IRQS_PENDING_def IRQS_ONESHOT_def IRQS_REPLAY_def IRQS_WAITING_def)

lemma thread_same:
  assumes "irq_actions t = irq_actions s" "irq_flow t = irq_flow s" "threads_oneshot t = threads_oneshot s"
    "irqd_masked t = irqd_masked s" "irqd_inprogress t = irqd_inprogress s" "irqd_disabled t = irqd_disabled s"
    "is_oneshot t = is_oneshot s" "\<And>k. work t k = work s k" "line_ok env s" "wakes_ok t"
  shows "line_ok env t"
proof -
  have "flow_ok t = flow_ok s" "bits_ok t = bits_ok s" "masked_ok env t = masked_ok env s"
    by (simp_all add: flow_ok_def bits_ok_def masked_ok_def masking_def mask_of_def assms(1-8))
  then show ?thesis using assms(9,10) by (simp add: line_ok_def assms(1,7))
qed

subsection \<open>The threads\<close>

lemma upd_thread_sel [simp]:
  "irq_actions (upd_thread k f s) = irq_actions s" "irq_flow (upd_thread k f s) = irq_flow s"
  "threads_oneshot (upd_thread k f s) = threads_oneshot s" "irqd_masked (upd_thread k f s) = irqd_masked s"
  "irqd_inprogress (upd_thread k f s) = irqd_inprogress s" "irqd_disabled (upd_thread k f s) = irqd_disabled s"
  "irq_istate (upd_thread k f s) = irq_istate s" "is_oneshot (upd_thread k f s) = is_oneshot s"
  "irq_threads (upd_thread k f s) = (irq_threads s)(k := f (irq_threads s k))"
  by (simp_all add: upd_thread_def is_oneshot_def)

lemma thread_step_same:
  assumes "line_ok env s" "work (upd_thread k f s) k = work s k"
    "tf_runthread (f (irq_threads s k)) \<Longrightarrow> thr_place (f (irq_threads s k)) = TSched \<Longrightarrow> thr_sleepy (f (irq_threads s k)) \<Longrightarrow> irq_flow s = FlowWake k"
  shows "line_ok env (upd_thread k f s)"
proof (rule thread_same [OF _ _ _ _ _ _ _ _ assms(1)])
  show "work (upd_thread k f s) j = work s j" for j using assms(2) by (cases "j = k") (simp_all add: work_def)
  show "wakes_ok (upd_thread k f s)" using assms(1,3) by (auto simp: line_ok_def wakes_ok_def)
qed simp_all

lemma line_wakes: "line_ok env s \<Longrightarrow> tf_runthread (irq_threads s k) \<Longrightarrow> thr_place (irq_threads s k) = TSched \<Longrightarrow> thr_sleepy (irq_threads s k)
    \<Longrightarrow> irq_flow s = FlowWake k"
  by (simp add: line_ok_def wakes_ok_def)

lemma line_active: "line_ok env (s\<lparr>threads_active := n\<rparr>) = line_ok env s"
  by (simp add: line_ok_def flow_ok_def bits_ok_def masked_ok_def wakes_ok_def masking_def mask_of_def is_oneshot_def work_def)

text \<open>A thread that finishes takes its bit away, and no other one.\<close>

lemma finished_bits:
  assumes "bits_ok s" "masks_ok sh as" "irq_actions s = as" "k < length as" "\<not> tf_runthread (irq_threads s k)"
    "irq_actions t = as" "threads_oneshot t = threads_oneshot s AND NOT (act_thread_mask (as ! k))" "irq_flow t = irq_flow s"
    "irq_threads t = (irq_threads s)(k := (irq_threads s k)\<lparr>thr_place := TDone\<rparr>)"
  shows "bits_ok t"
proof -
  have w: "work t j = (work s j \<and> j \<noteq> k)" for j using assms(5,9) by (simp add: work_def busy_def)
  have uniq: "bit (act_thread_mask (as ! i)) b \<Longrightarrow> bit (act_thread_mask (as ! j)) b \<Longrightarrow> i < length as \<Longrightarrow> j < length as \<Longrightarrow> i = j" for i j b
    using assms(2) by (simp add: masks_ok_def)
  have "\<exists>j<length as. bit (act_thread_mask (as ! j)) b \<and> work t j" if "bit (threads_oneshot t) b" for b
  proof -
    have b: "bit (threads_oneshot s) b" "\<not> bit (act_thread_mask (as ! k)) b" using that assms(7) by (auto simp: bit_and_iff bit_not_iff)
    then obtain j where j: "j < length as" "bit (act_thread_mask (as ! j)) b" "work s j" using assms(1,3) by (auto simp: bits_ok_def mask_of_def)
    then have "j \<noteq> k" using b(2) by auto
    then show ?thesis using j w by blast
  qed
  moreover have "bit (threads_oneshot t) b"
    if "j < length as" "work t j" "irq_flow t \<noteq> FlowWake j" "bit (act_thread_mask (as ! j)) b" for j b
  proof -
    have "bit (threads_oneshot s) b" using that assms(1,3,8) w by (auto simp: bits_ok_def mask_of_def)
    moreover have "\<not> bit (act_thread_mask (as ! k)) b" using uniq [OF that(4) _ that(1) assms(4)] that(2) w by auto
    ultimately show ?thesis using assms(7) bit_imp_le_length [of "threads_oneshot s" b] by (auto simp: bit_and_iff bit_not_iff)
  qed
  ultimately show ?thesis using assms(6) by (simp add: bits_ok_def mask_of_def)
qed

lemma irq_finalize_oneshot_ok:
  assumes "line_ok env s" "k < length (irq_actions s)" "thr_place (irq_threads s k) = TFinal"
  shows "line_ok env (irq_finalize_oneshot k s)"
proof -
  have l: "masks_ok (is_oneshot s) (irq_actions s)" "flow_ok s" "bits_ok s" "masked_ok env s" "wakes_ok s" using assms(1) by (simp_all add: line_ok_def)
  let ?d = "go k TDone s"
  have fin: "thr_place (irq_threads ?d k) = TDone" "irq_threads ?d = (irq_threads s)(k := (irq_threads s k)\<lparr>thr_place := TDone\<rparr>)"
    by (simp_all add: go_def)
  have wk: "wakes_ok t" if "irq_threads t = irq_threads ?d" "irq_flow t = irq_flow s" for t
    using l(5) that by (auto simp: wakes_ok_def fin)
  consider (plain) "\<not> is_oneshot s" | (spin) "is_oneshot s" "irqd_inprogress s"
    | (again) "is_oneshot s" "\<not> irqd_inprogress s" "tf_runthread (irq_threads s k)"
    | (finish) "is_oneshot s" "\<not> irqd_inprogress s" "\<not> tf_runthread (irq_threads s k)" by blast
  then show ?thesis
  proof cases
    case plain
    then have "\<not> bit (mask_of s j) b" if "j < length (irq_actions s)" for j b using l(1) that by (simp add: masks_ok_def mask_of_def)
    then have "bits_ok ?d" using l(3) by (auto simp: bits_ok_def mask_of_def go_def)
    moreover have "flow_ok ?d" using l(2) plain by (simp add: flow_ok_def go_def)
    moreover have "masked_ok env ?d" using l(4) by (simp add: masked_ok_def masking_def go_def)
    moreover have "masks_ok (is_oneshot ?d) (irq_actions ?d)" using l(1) by (simp add: go_def)
    moreover have "wakes_ok ?d" by (rule wk) (simp_all add: go_def)
    ultimately show ?thesis using plain by (simp add: irq_finalize_oneshot_def line_ok_def)
  next
    case spin
    then show ?thesis using assms(1) by (simp add: irq_finalize_oneshot_def)
  next
    case again
    have "line_ok env ?d" unfolding go_def by (rule thread_step_same [OF assms(1)]) (use again in \<open>simp_all add: work_def\<close>)
    then show ?thesis using again by (simp add: irq_finalize_oneshot_def)
  next
    case finish
    define m where "m = threads_oneshot s AND NOT (act_thread_mask (irq_actions s ! k))"
    define t where "t = irq_finalize_oneshot k s"
    have idle: "irq_flow s = FlowIdle" "\<not> irqd_disabled s" using l(2) finish(2) by (auto simp: flow_ok_def)
    have t: "t = go k TDone (if m = 0 \<and> irqd_masked s then unmask_irq (s\<lparr>threads_oneshot := m\<rparr>) else s\<lparr>threads_oneshot := m\<rparr>)"
      using finish idle(2) by (simp add: t_def irq_finalize_oneshot_def m_def Let_def)
    have same: "irq_actions t = irq_actions s" "irq_flow t = irq_flow s" "irq_threads t = irq_threads ?d" "is_oneshot t = is_oneshot s"
      "threads_oneshot t = m" "irqd_inprogress t = irqd_inprogress s" "irqd_disabled t = irqd_disabled s"
      "irqd_masked t = (irqd_masked s \<and> m \<noteq> 0)"
      by (auto simp: t go_def unmask_irq_def is_oneshot_def)
    have z: "threads_oneshot s = 0 \<Longrightarrow> m = 0" by (simp add: m_def)
    have "bits_ok t" by (rule finished_bits [OF l(3,1) refl assms(2) finish(3)]) (simp_all add: same fin m_def)
    moreover have "masked_ok env t" using l(4) idle finish(2) z unfolding masked_ok_def masking_def same by auto
    moreover have "flow_ok t" using l(2) idle unfolding flow_ok_def same by simp
    moreover have "wakes_ok t" by (rule wk) (simp_all add: same)
    ultimately show ?thesis using l(1) same by (simp add: line_ok_def t_def)
  qed
qed

lemma irq_thread_ok:
  assumes "line_ok env s" "k < length (irq_actions s)"
  shows "line_ok env (irq_thread k s)"
proof (cases "thr_place (irq_threads s k)")
  case TEnter
  have "line_ok env (upd_thread k (\<lambda>t. t\<lparr>thr_sleepy := True, thr_place := TTest\<rparr>) s)"
    by (rule thread_step_same [OF assms(1)]) (simp_all add: work_def busy_def TEnter)
  then show ?thesis by (simp add: irq_thread_def TEnter)
next
  case TTest
  have "line_ok env (upd_thread k (\<lambda>t. t\<lparr>tf_runthread := False, thr_sleepy := False, thr_place := TCheck\<rparr>) s)" if "tf_runthread (irq_threads s k)"
    by (rule thread_step_same [OF assms(1)]) (simp_all add: work_def busy_def TTest that)
  moreover have "line_ok env (go k TSched s)" if "\<not> tf_runthread (irq_threads s k)"
    unfolding go_def by (rule thread_step_same [OF assms(1)]) (simp_all add: work_def busy_def TTest that)
  ultimately show ?thesis by (simp add: irq_thread_def TTest)
next
  case TSched
  have "line_ok env (go k TEnter s)"
    unfolding go_def by (rule thread_step_same [OF assms(1)]) (simp_all add: work_def busy_def TSched)
  then show ?thesis using assms(1) by (simp add: irq_thread_def TSched)
next
  case TCheck
  let ?s = "s\<lparr>threads_active := threads_active s + 1\<rparr>"
  have d: "\<not> irqd_disabled s" using assms(1) by (simp add: line_ok_def flow_ok_def)
  have "line_ok env (go k TFn ?s)"
    unfolding go_def by (rule thread_step_same) (simp_all add: line_active assms(1) work_def busy_def TCheck)
  then show ?thesis using d by (simp add: irq_thread_def TCheck)
next
  case TFn
  have "line_ok env (go k TFinal s)"
    unfolding go_def by (rule thread_step_same [OF assms(1)]) (simp_all add: work_def busy_def TFn)
  then show ?thesis by (simp add: irq_thread_def TFn)
next
  case TFinal
  then show ?thesis using irq_finalize_oneshot_ok [OF assms] by (simp add: irq_thread_def)
next
  case TDone
  have "line_ok env (go k TEnter (s\<lparr>threads_active := threads_active s - 1\<rparr>))"
    unfolding go_def by (rule thread_step_same) (simp_all add: line_active assms(1) work_def busy_def TDone)
  then show ?thesis by (simp add: irq_thread_def TDone)
qed

subsection \<open>The hard interrupt\<close>

lemma flow_next_sel [simp]:
  "irq_actions (flow_next k s) = irq_actions s" "irq_threads (flow_next k s) = irq_threads s"
  "threads_oneshot (flow_next k s) = threads_oneshot s" "irqd_masked (flow_next k s) = irqd_masked s"
  "irqd_inprogress (flow_next k s) = irqd_inprogress s" "irqd_disabled (flow_next k s) = irqd_disabled s"
  "is_oneshot (flow_next k s) = is_oneshot s"
  "irq_flow (flow_next k s) = (if Suc k < length (irq_actions s) then FlowCall (Suc k) else FlowEnd)"
  by (simp_all add: flow_next_def is_oneshot_def)

text \<open>The next handler comes when no thread is left between its flag and its wake-up.\<close>

lemma flow_next_ok:
  assumes "masks_ok (is_oneshot s) (irq_actions s)" "\<not> irqd_disabled s" "irqd_inprogress s" "masked_ok env s"
    "\<forall>b. bit (threads_oneshot s) b \<longrightarrow> (\<exists>j<length (irq_actions s). bit (mask_of s j) b \<and> work s j)"
    "\<forall>j<length (irq_actions s). work s j \<longrightarrow> (\<forall>b. bit (mask_of s j) b \<longrightarrow> bit (threads_oneshot s) b)"
    "\<forall>j. tf_runthread (irq_threads s j) \<longrightarrow> thr_place (irq_threads s j) = TSched \<longrightarrow> \<not> thr_sleepy (irq_threads s j)"
  shows "line_ok env (flow_next k s)"
proof -
  have w: "work (flow_next k s) j = work s j" "mask_of (flow_next k s) j = mask_of s j" for j by (simp_all add: work_def mask_of_def)
  have "flow_ok (flow_next k s)" using assms(2,3) by (simp add: flow_ok_def)
  moreover have "bits_ok (flow_next k s)" using assms(5,6) by (simp add: bits_ok_def w)
  moreover have "masked_ok env (flow_next k s)" using assms(3,4) by (simp add: masked_ok_def masking_def)
  moreover have "wakes_ok (flow_next k s)" using assms(7) by (simp add: wakes_ok_def)
  ultimately show ?thesis using assms(1) by (simp add: line_ok_def)
qed

lemma flow_next_call:
  assumes "line_ok env s" "irq_flow s = FlowCall k"
  shows "line_ok env (flow_next k s)"
proof (rule flow_next_ok)
  have l: "masks_ok (is_oneshot s) (irq_actions s)" "flow_ok s" "bits_ok s" "masked_ok env s" "wakes_ok s" using assms(1) by (simp_all add: line_ok_def)
  show "masks_ok (is_oneshot s) (irq_actions s)" "masked_ok env s" using l by simp_all
  show "\<not> irqd_disabled s" "irqd_inprogress s" using l(2) assms(2) by (simp_all add: flow_ok_def)
  show "\<forall>b. bit (threads_oneshot s) b \<longrightarrow> (\<exists>j<length (irq_actions s). bit (mask_of s j) b \<and> work s j)"
    "\<forall>j<length (irq_actions s). work s j \<longrightarrow> (\<forall>b. bit (mask_of s j) b \<longrightarrow> bit (threads_oneshot s) b)"
    using l(3) assms(2) by (simp_all add: bits_ok_def)
  show "\<forall>j. tf_runthread (irq_threads s j) \<longrightarrow> thr_place (irq_threads s j) = TSched \<longrightarrow> \<not> thr_sleepy (irq_threads s j)"
    using l(5) assms(2) by (auto simp: wakes_ok_def)
qed

lemma line_emitted: "line_ok env (s\<lparr>irq_emitted := xs\<rparr>) = line_ok env s"
  by (simp add: line_ok_def flow_ok_def bits_ok_def masked_ok_def wakes_ok_def masking_def mask_of_def is_oneshot_def work_def)

lemma irq_wake_thread_ok:
  assumes "line_ok env s" "irq_flow s = FlowCall k"
  shows "line_ok env (irq_wake_thread k s)"
proof (cases "tf_died (irq_threads s k) \<or> tf_runthread (irq_threads s k)")
  case True
  then show ?thesis using flow_next_call [OF assms] by (simp add: irq_wake_thread_def)
next
  case False
  define t where "t = (upd_thread k (\<lambda>t. t\<lparr>tf_runthread := True\<rparr>) s)\<lparr>irq_flow := FlowWake k\<rparr>"
  have l: "masks_ok (is_oneshot s) (irq_actions s)" "flow_ok s" "bits_ok s" "masked_ok env s" "wakes_ok s" using assms(1) by (simp_all add: line_ok_def)
  have same: "irq_actions t = irq_actions s" "is_oneshot t = is_oneshot s" "threads_oneshot t = threads_oneshot s" "irqd_masked t = irqd_masked s"
    "irqd_inprogress t = irqd_inprogress s" "irqd_disabled t = irqd_disabled s" "irq_flow t = FlowWake k"
    by (simp_all add: t_def is_oneshot_def)
  have w: "work t j = (work s j \<or> j = k)" "mask_of t j = mask_of s j" for j by (simp_all add: t_def work_def mask_of_def)
  have "flow_ok t" using l(2) assms(2) unfolding flow_ok_def same by (simp add: w)
  moreover have "bits_ok t" using l(3) assms(2) unfolding bits_ok_def same by (auto simp: w)
  moreover have "masked_ok env t" using l(4) assms(2) l(2) unfolding masked_ok_def masking_def same by simp
  moreover have "wakes_ok t" using l(5) assms(2) unfolding wakes_ok_def same by (simp add: t_def)
  ultimately have "line_ok env t" using l(1) by (simp add: line_ok_def same)
  then show ?thesis using False by (simp add: irq_wake_thread_def t_def)
qed

lemma wake_thread_rest_ok:
  assumes "line_ok env s" "irq_flow s = FlowWake k"
  shows "line_ok env (wake_thread_rest k s)"
proof -
  define t where "t = upd_thread k (\<lambda>t. t\<lparr>thr_sleepy := False\<rparr>) (s\<lparr>threads_oneshot := threads_oneshot s OR mask_of s k\<rparr>)"
  have l: "masks_ok (is_oneshot s) (irq_actions s)" "flow_ok s" "bits_ok s" "masked_ok env s" "wakes_ok s" using assms(1) by (simp_all add: line_ok_def)
  have same: "irq_actions t = irq_actions s" "is_oneshot t = is_oneshot s" "threads_oneshot t = threads_oneshot s OR mask_of s k"
    "irqd_masked t = irqd_masked s" "irqd_inprogress t = irqd_inprogress s" "irqd_disabled t = irqd_disabled s" "irq_flow t = irq_flow s"
    by (simp_all add: t_def is_oneshot_def)
  have w: "work t j = work s j" "mask_of t j = mask_of s j" for j by (simp_all add: t_def work_def mask_of_def)
  have k: "k < length (irq_actions s)" "is_oneshot s \<longrightarrow> work s k" "irqd_inprogress s" "\<not> irqd_disabled s"
    using l(2) assms(2) by (simp_all add: flow_ok_def)
  have "is_oneshot s" if "bit (mask_of s k) b" for b using l(1) k(1) that by (auto simp: masks_ok_def mask_of_def)
  then have mk: "work s k" if "bit (mask_of s k) b" for b using that k(2) by blast
  have "line_ok env (flow_next k t)"
  proof (rule flow_next_ok)
    show "masks_ok (is_oneshot t) (irq_actions t)" "\<not> irqd_disabled t" "irqd_inprogress t" using l(1) k by (simp_all add: same)
    show "masked_ok env t" using l(4) k(3) assms(2) unfolding masked_ok_def masking_def same by simp
    show "\<forall>b. bit (threads_oneshot t) b \<longrightarrow> (\<exists>j<length (irq_actions t). bit (mask_of t j) b \<and> work t j)"
      using l(3) k(1) mk by (auto simp: same w bits_ok_def bit_or_iff)
    show "\<forall>j<length (irq_actions t). work t j \<longrightarrow> (\<forall>b. bit (mask_of t j) b \<longrightarrow> bit (threads_oneshot t) b)"
      using l(3) assms(2) by (auto simp: same w bits_ok_def bit_or_iff)
    show "\<forall>j. tf_runthread (irq_threads t j) \<longrightarrow> thr_place (irq_threads t j) = TSched \<longrightarrow> \<not> thr_sleepy (irq_threads t j)"
    proof (intro allI impI)
      fix j assume j: "tf_runthread (irq_threads t j)" "thr_place (irq_threads t j) = TSched"
      show "\<not> thr_sleepy (irq_threads t j)"
      proof (cases "j = k")
        case False
        then have "irq_threads t j = irq_threads s j" by (simp add: t_def)
        then show ?thesis using line_wakes [OF assms(1), of j] assms(2) j False by auto
      qed (simp add: t_def)
    qed
  qed
  then show ?thesis by (simp add: wake_thread_rest_def t_def mask_of_def)
qed

lemma warned_ok: "line_ok env s \<Longrightarrow> line_ok env (upd_thread k (\<lambda>t. t\<lparr>tf_warned := True\<rparr>) s)"
  by (rule thread_step_same) (auto simp: work_def intro: line_wakes)

lemma handle_irq_event_percpu_ok:
  assumes "line_ok env s" "irq_flow s = FlowCall k"
  shows "line_ok env (handle_irq_event_percpu env k res s)"
proof -
  let ?s = "s\<lparr>irq_emitted := irq_emitted s @ hirq_events env (irq_actions s ! k)\<rparr>"
  have "line_ok env ?s" "irq_flow ?s = FlowCall k" using assms by (simp_all add: line_emitted)
  then show ?thesis using irq_wake_thread_ok [of env ?s k] flow_next_call [of env ?s k] flow_next_call [OF warned_ok, of env ?s k k]
    by (simp add: handle_irq_event_percpu_def Let_def split: irqreturn.split)
qed

lemma flow_change:
  assumes "line_ok env s" "irq_flow s = FlowIdle \<or> irq_flow s = FlowEnd" "p = FlowIdle \<or> (p = FlowCall 0 \<and> irq_actions s \<noteq> [])"
    "irq_actions t = irq_actions s" "irq_threads t = irq_threads s" "threads_oneshot t = threads_oneshot s"
    "irqd_inprogress t = (p \<noteq> FlowIdle)" "irqd_disabled t = irqd_disabled s" "is_oneshot t = is_oneshot s" "irq_flow t = p" "masked_ok env t"
  shows "line_ok env t"
proof -
  have l: "masks_ok (is_oneshot s) (irq_actions s)" "flow_ok s" "bits_ok s" "wakes_ok s" using assms(1) by (simp_all add: line_ok_def)
  have w: "work t j = work s j" "mask_of t j = mask_of s j" for j using assms(4,5) by (simp_all add: work_def mask_of_def)
  have "flow_ok t" using l(2) assms(3,4,7,8,10) by (auto simp: flow_ok_def)
  moreover have "bits_ok t" using l(3) assms(2,3,4,6,10) by (auto simp: bits_ok_def w)
  moreover have "wakes_ok t" using l(4) assms(2,3,5,10) by (auto simp: wakes_ok_def)
  ultimately show ?thesis using l(1) assms(4,9,11) by (simp add: line_ok_def)
qed

lemma flow_end_ok:
  assumes "line_ok env s" "irq_flow s = FlowEnd"
  shows "line_ok env (flow_end env s)"
proof -
  define t where "t = flow_end env s"
  have l: "flow_ok s" "masked_ok env s" using assms(1) by (simp_all add: line_ok_def)
  then have d: "\<not> irqd_disabled s" "irqd_inprogress s" using assms(2) by (simp_all add: flow_ok_def)
  have same: "irq_actions t = irq_actions s" "irq_threads t = irq_threads s" "threads_oneshot t = threads_oneshot s" "irqd_inprogress t = False"
    "irqd_disabled t = irqd_disabled s" "is_oneshot t = is_oneshot s" "irq_flow t = FlowIdle"
    by (simp_all add: t_def flow_end_def cond_unmask_irq_def unmask_irq_def is_oneshot_def Let_def split: flow_type.split)
  have mk: "masking env t = masking env s" by (simp add: masking_def same)
  have "irqd_masked t = (if masking env s then irqd_masked s \<and> threads_oneshot s \<noteq> 0 else irqd_masked s)"
    using d(1) by (auto simp: t_def flow_end_def cond_unmask_irq_def unmask_irq_def is_oneshot_def masking_def Let_def split: flow_type.split)
  then have "masked_ok env t" using l(2) d(2) by (cases "masking env s") (simp_all add: masked_ok_def mk same)
  then have "line_ok env t" using assms(2) by (intro flow_change [OF assms(1), of FlowIdle]) (simp_all add: same)
  then show ?thesis by (simp add: t_def)
qed

lemma handle_irq_ok:
  assumes "line_ok env s" "\<not> irqd_masked s"
  shows "line_ok env (handle_irq env s)"
proof (cases "irqd_inprogress s")
  case True
  then have "\<not> masking env s" using assms by (auto simp: line_ok_def masked_ok_def)
  then show ?thesis using True assms(1)
    by (simp add: masking_def handle_irq_def handle_fasteoi_irq_def handle_simple_irq_def split: flow_type.split)
next
  case False
  have l: "masks_ok (is_oneshot s) (irq_actions s)" "flow_ok s" using assms(1) by (simp_all add: line_ok_def)
  then have s: "irq_actions s \<noteq> []" "irq_flow s = FlowIdle" "\<not> irqd_disabled s" using False by (simp_all add: masks_ok_def flow_ok_def)
  define t where "t = handle_irq env s"
  have same: "irq_actions t = irq_actions s" "irq_threads t = irq_threads s" "threads_oneshot t = threads_oneshot s" "irqd_inprogress t = True"
    "irqd_disabled t = irqd_disabled s" "is_oneshot t = is_oneshot s" "irq_flow t = FlowCall 0" "irqd_masked t = masking env s"
    using s False assms(2)
    by (auto simp: t_def handle_irq_def handle_level_irq_def handle_fasteoi_irq_def handle_simple_irq_def irq_event_begin_def clear_replay_def
        mask_irq_def mask_ack_irq_def is_oneshot_def masking_def istate_bits Let_def split: flow_type.split)
  have "masking env t = masking env s" by (simp add: masking_def same)
  then have "masked_ok env t" by (simp add: masked_ok_def same)
  then have "line_ok env t" using s by (intro flow_change [OF assms(1), of "FlowCall 0"]) (simp_all add: same)
  then show ?thesis by (simp add: t_def)
qed

subsection \<open>Every step keeps it\<close>

lemma irq_step_ok:
  assumes "irq_step False env s t" "line_ok env s"
  shows "line_ok env t"
  using assms
proof cases
  case (is_spurious k)
  then show ?thesis using thread_step_same [OF assms(2), of k "\<lambda>t. t\<lparr>thr_sleepy := False\<rparr>"] by (simp add: work_def)
qed (simp_all add: handle_irq_ok handle_irq_event_percpu_ok wake_thread_rest_ok flow_end_ok irq_thread_ok)

lemma ffz_free:
  assumes "x \<noteq> - 1"
  shows "ffz x < 32 \<and> \<not> bit x (ffz x)"
proof -
  have "\<exists>i<32. \<not> bit x i"
  proof (rule ccontr)
    assume "\<not> ?thesis"
    then have "x = - 1" by (intro bit_word_eqI) simp
    then show False using assms by simp
  qed
  then have "find (\<lambda>i. \<not> bit x i) [0..<32] \<noteq> None" by (auto simp: find_None_iff)
  then obtain i where "find (\<lambda>i. \<not> bit x i) [0..<32] = Some i" by auto
  then show ?thesis using find_Some_iff [of "\<lambda>i. \<not> bit x i" "[0..<32]" i] by (auto simp: ffz_def)
qed

lemma or_masks: "bit (fold (\<lambda>a m. m OR act_thread_mask a) as m0) b \<longleftrightarrow> bit m0 b \<or> (\<exists>i<length as. bit (act_thread_mask (as ! i)) b)"
proof (induction as arbitrary: m0)
  case (Cons a as)
  have "(\<exists>i<length (a # as). bit (act_thread_mask ((a # as) ! i)) b) \<longleftrightarrow>
      bit (act_thread_mask a) b \<or> (\<exists>i<length as. bit (act_thread_mask (as ! i)) b)"
    by (auto simp: less_Suc_eq_0_disj)
  then show ?case using Cons.IH [of "m0 OR act_thread_mask a"] by (simp add: bit_or_iff)
qed simp

lemma setup_irq_masks:
  assumes "as = [] \<or> masks_ok oneshot as" "setup_irq oneshot as h = Some as'"
  shows "masks_ok oneshot as'"
proof -
  define m where "m = fold (\<lambda>a m. m OR act_thread_mask a) as (0 :: u32)"
  have or: "\<not> bit m b \<Longrightarrow> i < length as \<Longrightarrow> \<not> bit (act_thread_mask (as ! i)) b" for i b using or_masks [of as 0 b] by (auto simp: m_def)
  obtain n where n: "as' = as @ [n]" "oneshot \<Longrightarrow> m \<noteq> - 1 \<and> act_thread_mask n = push_bit (ffz m) 1" "\<not> oneshot \<Longrightarrow> act_thread_mask n = 0"
    using assms(2) by (auto simp: setup_irq_def m_def Let_def split: if_splits)
  have nb: "bit (act_thread_mask n) b \<longleftrightarrow> oneshot \<and> b = ffz m" for b
    using n(2,3) ffz_free [of m] by (cases oneshot) (auto simp: bit_push_bit_iff bit_exp_iff)
  have free: "oneshot \<Longrightarrow> i < length as \<Longrightarrow> \<not> bit (act_thread_mask (as ! i)) (ffz m)" for i using or ffz_free n(2) by blast
  have old: "i < length as \<Longrightarrow> j < length as \<Longrightarrow> bit (act_thread_mask (as ! i)) b \<Longrightarrow> bit (act_thread_mask (as ! j)) b \<Longrightarrow> i = j"
    "i < length as \<Longrightarrow> act_thread_mask (as ! i) \<noteq> 0 \<longleftrightarrow> oneshot" for i j b
    using assms(1) by (auto simp: masks_ok_def)
  have "i = j" if "i < Suc (length as)" "j < Suc (length as)" "bit (act_thread_mask ((as @ [n]) ! i)) b" "bit (act_thread_mask ((as @ [n]) ! j)) b" for i j b
    using that old(1) [of i j b] free [of i] free [of j] nb by (auto simp: nth_append less_Suc_eq split: if_splits)
  moreover have "act_thread_mask ((as @ [n]) ! i) \<noteq> 0 \<longleftrightarrow> oneshot" if "i < Suc (length as)" for i
    using that old(2) n(2,3) ffz_free [of m] nb by (cases "i < length as") (auto simp: nth_append less_Suc_eq)
  ultimately show ?thesis by (simp add: masks_ok_def n(1))
qed

lemma setup_all_masks: "setup_all oneshot as hs = Some as' \<Longrightarrow> as = [] \<or> masks_ok oneshot as \<Longrightarrow> as' = [] \<or> masks_ok oneshot as'"
proof (induction hs arbitrary: as)
  case (Cons h hs)
  then obtain bs where "setup_irq oneshot as h = Some bs" "setup_all oneshot bs hs = Some as'" by (auto split: option.splits)
  then show ?case using Cons.IH [of bs] setup_irq_masks [OF Cons.prems(2)] by simp
qed simp

lemma line_start_ok:
  assumes "setup_all oneshot [] hs = Some as" "as \<noteq> []"
  shows "line_ok env (line_start oneshot as)"
proof -
  have "masks_ok oneshot as" using setup_all_masks [OF assms(1)] assms(2) by simp
  then show ?thesis
    by (cases oneshot) (simp_all add: line_ok_def line_start_def flow_ok_def bits_ok_def masked_ok_def wakes_ok_def work_def busy_def is_oneshot_def IRQS_ONESHOT_def)
qed

text \<open>A handler without a thread function has no work for a thread, and the handlers stay the same.\<close>

definition threadless :: "irq_desc \<Rightarrow> bool" where
  "threadless s \<longleftrightarrow> (\<forall>k<length (irq_actions s). \<not> act_thread_fn (irq_actions s ! k) \<longrightarrow> \<not> work s k)"

lemma irq_thread_static:
  "irq_actions (irq_thread k s) = irq_actions s" "is_oneshot (irq_thread k s) = is_oneshot s"
  "j \<noteq> k \<Longrightarrow> irq_threads (irq_thread k s) j = irq_threads s j"
  by (simp_all add: irq_thread_def irq_finalize_oneshot_def go_def unmask_irq_def is_oneshot_def istate_bits Let_def split: thread_place.split)

lemma handle_irq_static:
  "irq_actions (handle_irq env s) = irq_actions s" "is_oneshot (handle_irq env s) = is_oneshot s"
  "irq_threads (handle_irq env s) = irq_threads s"
  by (simp_all add: handle_irq_def handle_level_irq_def handle_fasteoi_irq_def handle_simple_irq_def irq_event_begin_def clear_replay_def
      mask_irq_def mask_ack_irq_def is_oneshot_def istate_bits Let_def split: flow_type.split)

lemma percpu_static:
  "irq_actions (handle_irq_event_percpu env k res s) = irq_actions s"
  "is_oneshot (handle_irq_event_percpu env k res s) = is_oneshot s"
  "work (handle_irq_event_percpu env k res s) j \<Longrightarrow> work s j \<or> j = k \<and> act_thread_fn (irq_actions s ! k)"
  by (auto simp: handle_irq_event_percpu_def irq_wake_thread_def work_def Let_def is_oneshot_def flow_next_def split: irqreturn.splits if_splits)

lemma flow_end_static:
  "irq_actions (flow_end env s) = irq_actions s" "is_oneshot (flow_end env s) = is_oneshot s" "irq_threads (flow_end env s) = irq_threads s"
  by (simp_all add: flow_end_def cond_unmask_irq_def unmask_irq_def is_oneshot_def Let_def split: flow_type.split)

lemma wake_rest_static:
  "irq_actions (wake_thread_rest k s) = irq_actions s" "is_oneshot (wake_thread_rest k s) = is_oneshot s"
  "work (wake_thread_rest k s) j = work s j"
  by (simp_all add: wake_thread_rest_def work_def is_oneshot_def flow_next_def)

lemma irq_step_static:
  assumes "irq_step False env s t"
  shows "irq_actions t = irq_actions s \<and> is_oneshot t = is_oneshot s \<and> (threadless s \<longrightarrow> threadless t)"
  using assms
proof cases
  case (is_thread k)
  have "work t j = work s j" if "j \<noteq> k" for j using irq_thread_static(3) [OF that] is_thread(1) by (simp add: work_def)
  then show ?thesis using is_thread irq_thread_static(1,2) [of k s] unfolding threadless_def by metis
next
  case (is_call k res)
  then show ?thesis using percpu_static [of env k res s] by (auto simp: threadless_def)
next
  case (is_wake k)
  then show ?thesis by (simp add: threadless_def wake_rest_static)
qed (simp_all add: threadless_def handle_irq_static flow_end_static wake_rest_static work_def)

interpretation line_runs: invariant_run "irq_step False env" "\<lambda>s. \<exists>hs. setup_all oneshot [] hs = Some as \<and> as \<noteq> [] \<and> s = line_start oneshot as"
  "\<lambda>s. line_ok env s \<and> threadless s \<and> irq_actions s = as \<and> is_oneshot s = oneshot" for env oneshot as
proof unfold_locales
  fix s assume "\<exists>hs. setup_all oneshot [] hs = Some as \<and> as \<noteq> [] \<and> s = line_start oneshot as"
  then show "line_ok env s \<and> threadless s \<and> irq_actions s = as \<and> is_oneshot s = oneshot"
    using line_start_ok [of oneshot _ as env]
    by (auto simp: threadless_def work_def busy_def is_oneshot_def line_start_def IRQS_ONESHOT_def)
qed (auto dest: irq_step_ok irq_step_static)

section \<open>Properties\<close>

text \<open>The interrupt is handled and every thread sleeps.\<close>

definition line_quiet :: "irq_desc \<Rightarrow> bool" where
  "line_quiet s \<longleftrightarrow> irq_flow s = FlowIdle
     \<and> (\<forall>k<length (irq_actions s). act_thread_fn (irq_actions s ! k)
          \<longrightarrow> thr_place (irq_threads s k) = TSched \<and> thr_sleepy (irq_threads s k))"

lemma quiet_no_work:
  assumes "line_ok env s" "threadless s" "line_quiet s" "k < length (irq_actions s)"
  shows "\<not> work s k"
proof (cases "act_thread_fn (irq_actions s ! k)")
  case True
  then have t: "thr_place (irq_threads s k) = TSched" "thr_sleepy (irq_threads s k)" "irq_flow s = FlowIdle"
    using assms(3,4) by (simp_all add: line_quiet_def)
  then have "\<not> tf_runthread (irq_threads s k)" using line_wakes [OF assms(1), of k] by auto
  then show ?thesis using t(1) by (simp add: work_def busy_def)
qed (use assms(2,4) in \<open>simp add: threadless_def\<close>)

text \<open>
  (C38) A oneshot line stays masked for its threads and is not left masked: take a line with any
  handlers, with and without threads, that nobody disables, and any interleaving of interrupts,
  handlers, threads and wake-ups. As long as a thread of a oneshot line has been told to run and has
  not finished, the line is masked; and when the interrupt is handled and all threads sleep, the
  line is not masked and no thread was told to run without having run.
\<close>

theorem oneshot_line:
  assumes "(irq_step False env)\<^sup>*\<^sup>* (line_start oneshot as) s" "setup_all oneshot [] hs = Some as" "as \<noteq> []"
  shows "(oneshot \<and> irq_flow_type env \<noteq> SimpleFlow \<longrightarrow> (\<forall>k<length as. work s k \<longrightarrow> irqd_masked s))
    \<and> (line_quiet s \<longrightarrow> \<not> irqd_masked s \<and> (\<forall>k<length as. \<not> tf_runthread (irq_threads s k)))"
proof -
  have good: "line_ok env s" "threadless s" "irq_actions s = as" "is_oneshot s = oneshot"
    using line_runs.reach_good [OF assms(1), of oneshot as] assms(2,3) by blast+
  have l: "masks_ok oneshot as" "flow_ok s" "bits_ok s" "masked_ok env s" using good by (simp_all add: line_ok_def)
  have "irqd_masked s" if o: "oneshot" and f: "irq_flow_type env \<noteq> SimpleFlow" and k: "k < length as" "work s k" for k
  proof (cases "irq_flow s = FlowIdle")
    case True
    have "act_thread_mask (as ! k) \<noteq> 0" using l(1) o k(1) by (simp add: masks_ok_def)
    then obtain b where "bit (act_thread_mask (as ! k)) b" by (metis bit_word_eqI bit_0_eq bot_apply bot_bool_def)
    then have "bit (threads_oneshot s) b" using l(3) k True good(3) by (auto simp: bits_ok_def mask_of_def)
    then have "threads_oneshot s \<noteq> 0" by auto
    then show ?thesis using l(4) o f good(4) by (cases "irq_flow_type env") (auto simp: masked_ok_def masking_def)
  next
    case False
    then show ?thesis using l(2,4) o f good(4) by (cases "irq_flow_type env") (auto simp: masked_ok_def masking_def flow_ok_def)
  qed
  moreover have "\<not> irqd_masked s \<and> (\<forall>k<length as. \<not> tf_runthread (irq_threads s k))" if q: "line_quiet s"
  proof -
    have w: "\<not> work s k" if "k < length as" for k using quiet_no_work [OF good(1,2) q] that good(3) by simp
    then have "\<not> bit (threads_oneshot s) b" for b using l(3) good(3) by (auto simp: bits_ok_def)
    then have "threads_oneshot s = 0" by (intro bit_word_eqI) simp
    then show ?thesis using l(4) q w by (auto simp: masked_ok_def line_quiet_def work_def)
  qed
  ultimately show ?thesis by blast
qed

text \<open>
  A run by the names of its steps, for the examples: an interrupt, the handlers with what they return,
  the rest of a wake-up, the end, steps of a thread, and the calls that disable and enable the line.
\<close>

datatype line_move = Arrive | Handler irqreturn | Wake | Finish | Thread nat | Disable | Enable

fun line_moves :: "irqenv \<Rightarrow> line_move list \<Rightarrow> irq_desc \<Rightarrow> irq_desc option" where
  "line_moves env [] s = Some s"
| "line_moves env (Arrive # ms) s = (if irqd_masked s then None else line_moves env ms (handle_irq env s))"
| "line_moves env (Handler res # ms) s =
     (case irq_flow s of FlowCall k \<Rightarrow> line_moves env ms (handle_irq_event_percpu env k res s) | _ \<Rightarrow> None)"
| "line_moves env (Wake # ms) s = (case irq_flow s of FlowWake k \<Rightarrow> line_moves env ms (wake_thread_rest k s) | _ \<Rightarrow> None)"
| "line_moves env (Finish # ms) s = (case irq_flow s of FlowEnd \<Rightarrow> line_moves env ms (flow_end env s) | _ \<Rightarrow> None)"
| "line_moves env (Thread k # ms) s =
     (if k < length (irq_actions s) \<and> act_thread_fn (irq_actions s ! k) then line_moves env ms (irq_thread k s) else None)"
| "line_moves env (Disable # ms) s = line_moves env ms (disable_irq_nosync env s)"
| "line_moves env (Enable # ms) s = line_moves env ms (enable_irq env s)"

lemma moves_steps:
  "line_moves env ms s = Some t \<Longrightarrow> (Disable \<in> set ms \<or> Enable \<in> set ms \<longrightarrow> dis) \<Longrightarrow> (irq_step dis env)\<^sup>*\<^sup>* s t"
proof (induction env ms s rule: line_moves.induct)
  case (2 env ms s)
  then show ?case using is_irq [of s dis env] by (auto split: if_splits intro: converse_rtranclp_into_rtranclp)
next
  case (3 env res ms s)
  then show ?case using is_call [of s _ dis env res] by (auto split: flow_place.splits intro: converse_rtranclp_into_rtranclp)
next
  case (4 env ms s)
  then show ?case using is_wake [of s _ dis env] by (auto split: flow_place.splits intro: converse_rtranclp_into_rtranclp)
next
  case (5 env ms s)
  then show ?case using is_end [of s dis env] by (auto split: flow_place.splits intro: converse_rtranclp_into_rtranclp)
next
  case (6 env k ms s)
  then show ?case using is_thread [of k s dis env] by (auto split: if_splits intro: converse_rtranclp_into_rtranclp)
next
  case (7 env ms s)
  then show ?case using is_disable [of dis env s] by (auto intro: converse_rtranclp_into_rtranclp)
next
  case (8 env ms s)
  then show ?case using is_enable [of dis env s] by (auto intro: converse_rtranclp_into_rtranclp)
qed simp

definition demo_line :: irqenv where
  "demo_line = \<lparr>irq_number = 56, irq_flow_type = LevelFlow, irq_is_level = True, chip_has_disable = False\<rparr>"

definition demo_actions :: "irqaction list" where
  "demo_actions = [\<lparr>act_handler = 0xC0100000, act_thread_fn = True, act_thread_mask = 1\<rparr>,
     \<lparr>act_handler = 0xC0200000, act_thread_fn = False, act_thread_mask = 2\<rparr>]"

lemma demo_setup: "setup_all True [] [(0xC0100000, True), (0xC0200000, False)] = Some demo_actions"
  by code_simp

definition irq_once :: "line_move list" where
  "irq_once = [Thread 0, Thread 0, Arrive, Handler IRQ_WAKE_THREAD, Wake, Handler IRQ_NONE, Finish, Thread 0, Thread 0, Thread 0]"

lemmas move_defs = line_start_def demo_actions_def demo_line_def irq_thread_def handle_irq_def handle_level_irq_def mask_irq_def mask_ack_irq_def
  clear_replay_def irq_event_begin_def handle_irq_event_percpu_def irq_wake_thread_def wake_thread_rest_def flow_next_def flow_end_def
  cond_unmask_irq_def unmask_irq_def irq_finalize_oneshot_def go_def upd_thread_def is_oneshot_def IRQS_ONESHOT_def IRQS_PENDING_def
  IRQS_REPLAY_def IRQS_WAITING_def Let_def

definition finish_work :: "line_move list" where
  "finish_work = [Thread 0, Thread 0, Thread 0, Thread 0, Thread 0, Thread 0]"

theorem oneshot_line_witness:
  "\<exists>s t. line_moves demo_line irq_once (line_start True demo_actions) = Some s \<and> work s 0 \<and> irqd_masked s
    \<and> line_moves demo_line finish_work s = Some t \<and> line_quiet t \<and> \<not> irqd_masked t"
proof -
  have "\<exists>s t. line_moves demo_line irq_once (line_start True demo_actions) = Some s \<and> work s 0
      \<and> line_moves demo_line finish_work s = Some t \<and> line_quiet t"
    by (simp add: move_defs irq_once_def finish_work_def work_def busy_def line_quiet_def less_Suc_eq)
  then obtain s t where s: "line_moves demo_line irq_once (line_start True demo_actions) = Some s" "work s 0"
    and t: "line_moves demo_line finish_work s = Some t" "line_quiet t" by blast
  have r: "(irq_step False demo_line)\<^sup>*\<^sup>* (line_start True demo_actions) s"
    by (rule moves_steps [OF s(1)]) (simp add: irq_once_def)
  have "(irq_step False demo_line)\<^sup>*\<^sup>* s t" by (rule moves_steps [OF t(1)]) (simp add: finish_work_def)
  with r have r': "(irq_step False demo_line)\<^sup>*\<^sup>* (line_start True demo_actions) t" by simp
  have a: "demo_actions \<noteq> []" "0 < length demo_actions" "irq_flow_type demo_line = LevelFlow" by (simp_all add: demo_actions_def demo_line_def)
  show ?thesis using oneshot_line [OF r demo_setup a(1)] oneshot_line [OF r' demo_setup a(1)] s t a(2,3) by auto
qed


end
