(* ===== verification/GoText.thy ===== *)
theory GoText
  imports KernelPrint
begin

text \<open>
  What the analysis programs use of Go's library on strings: splitting at white space with the
  regular expression \<open>\s+\<close>, the number parsers of \<open>strconv\<close>, the verb \<open>%d\<close>, and a few functions of
  \<open>strings\<close>.
\<close>

section \<open>Splitting\<close>

definition is_ws :: "char \<Rightarrow> bool" where
  "is_ws c \<longleftrightarrow> c = CHR '' '' \<or> c = CHR 0x09 \<or> c = CHR 0x0A \<or> c = CHR 0x0C \<or> c = CHR 0x0D"

text \<open>
  \<open>whitespace.Split(s, -1)\<close>: the pieces between the runs of white space, an empty one at either end
  if the string starts or ends with white space.
\<close>

function ws_split :: "string \<Rightarrow> string list" where
  "ws_split s =
     (let w = takeWhile (\<lambda>c. \<not> is_ws c) s; r = dropWhile (\<lambda>c. \<not> is_ws c) s in
      if r = [] then [w] else w # ws_split (dropWhile is_ws r))"
  by pat_completeness auto

termination
proof (relation "measure length")
  fix s w r :: string
  assume r: "r = dropWhile (\<lambda>c. \<not> is_ws c) s" "r \<noteq> []"
  then obtain c r' where c: "r = c # r'" "is_ws c"
    by (metis hd_dropWhile list.collapse)
  have "length (dropWhile is_ws r) \<le> length r'" using c by (simp add: length_dropWhile_le)
  moreover have "length r \<le> length s" using r(1) by (simp add: length_dropWhile_le)
  ultimately show "(dropWhile is_ws r, s) \<in> measure length" using c(1) by simp
qed simp

declare ws_split.simps [simp del]

text \<open>\<open>strings.Split(s, " ")\<close>: at every single space.\<close>

fun space_split :: "string \<Rightarrow> string list" where
  "space_split [] = [[]]"
| "space_split (c # s) =
     (if c = CHR '' '' then [] # space_split s
      else case space_split s of [] \<Rightarrow> [[c]] | w # ws \<Rightarrow> (c # w) # ws)"

section \<open>Numbers\<close>

definition go_digit :: "char \<Rightarrow> nat option" where
  "go_digit c =
     (if 48 \<le> ord c \<and> ord c \<le> 57 then Some (ord c - 48)
      else if 97 \<le> ord c \<and> ord c \<le> 122 then Some (ord c - 87)
      else if 65 \<le> ord c \<and> ord c \<le> 90 then Some (ord c - 55)
      else None)"

primrec go_digits :: "nat \<Rightarrow> nat \<Rightarrow> string \<Rightarrow> nat option" where
  "go_digits base acc [] = Some acc"
| "go_digits base acc (c # s) =
     (case go_digit c of
        None \<Rightarrow> None
      | Some d \<Rightarrow> if d < base then go_digits base (acc * base + d) s else None)"

definition ParseUint :: "nat \<Rightarrow> string \<Rightarrow> nat option" where
  "ParseUint base s = (if s = [] then None else go_digits base 0 s)"

definition ParseInt :: "nat \<Rightarrow> string \<Rightarrow> int option" where
  "ParseInt base s =
     (let neg = (s \<noteq> [] \<and> hd s = CHR ''-'');
          u = (if s \<noteq> [] \<and> (hd s = CHR ''+'' \<or> hd s = CHR ''-'') then tl s else s)
      in case ParseUint base u of
           None \<Rightarrow> None
         | Some n \<Rightarrow>
             if neg then (if n \<le> 2 ^ 63 then Some (- int n) else None)
             else if n < 2 ^ 63 then Some (int n) else None)"

abbreviation Atoi :: "string \<Rightarrow> int option" where
  "Atoi \<equiv> ParseInt 10"

text \<open>
  The number \<open>ParseInt\<close> returns beside an error that the caller ignores: zero for a syntax error, the
  nearest bound for a range error, which is found at the digit that overflows.
\<close>

primrec go_scan :: "nat \<Rightarrow> nat \<Rightarrow> string \<Rightarrow> nat option" where
  "go_scan base acc [] = Some acc"
| "go_scan base acc (c # s) =
     (case go_digit c of
        None \<Rightarrow> None
      | Some d \<Rightarrow>
          if base \<le> d then None
          else if 2 ^ 64 \<le> acc * base + d then Some (2 ^ 64 - 1) else go_scan base (acc * base + d) s)"

definition ParseInt_value :: "nat \<Rightarrow> string \<Rightarrow> int" where
  "ParseInt_value base s =
     (let neg = (s \<noteq> [] \<and> hd s = CHR ''-'');
          u = (if s \<noteq> [] \<and> (hd s = CHR ''+'' \<or> hd s = CHR ''-'') then tl s else s)
      in case (if u = [] then None else go_scan base 0 u) of
           None \<Rightarrow> 0
         | Some n \<Rightarrow> if neg then - int (min n (2 ^ 63)) else int (min n (2 ^ 63 - 1)))"

text \<open>The verb \<open>%d\<close>.\<close>

definition itoa :: "int \<Rightarrow> string" where
  "itoa i = (if i < 0 then CHR ''-'' # dec_string (nat (- i)) else dec_string (nat i))"

section \<open>Strings\<close>

fun contains :: "string \<Rightarrow> string \<Rightarrow> bool" where
  "contains [] sub = (sub = [])"
| "contains (c # s) sub = (take (length sub) (c # s) = sub \<or> contains s sub)"

definition ljust :: "string \<Rightarrow> nat \<Rightarrow> string" where
  "ljust str width = str @ replicate (width - length str) CHR '' ''"

definition rjust :: "string \<Rightarrow> nat \<Rightarrow> string" where
  "rjust str width = replicate (width - length str) CHR '' '' @ str"

section \<open>Round trips\<close>

lemma go_digits_chars:
  assumes "\<And>d. d \<in> set ds \<Longrightarrow> go_digit (f d) = Some d \<and> d < base"
  shows "go_digits base acc (map f ds @ rest) = go_digits base (foldl (\<lambda>a d. a * base + d) acc ds) rest"
  using assms by (induction ds arbitrary: acc) auto

lemma go_digit_dec: "d < 10 \<Longrightarrow> go_digit (digit_char d) = Some d"
proof -
  assume "d < 10"
  then have "d = 0 \<or> d = 1 \<or> d = 2 \<or> d = 3 \<or> d = 4 \<or> d = 5 \<or> d = 6 \<or> d = 7 \<or> d = 8 \<or> d = 9" by arith
  then show ?thesis by (elim disjE; simp only:; code_simp)
qed

lemma go_digit_hex: "d < 16 \<Longrightarrow> go_digit (radix_char True d) = Some d"
proof -
  assume "d < 16"
  then have "d = 0 \<or> d = 1 \<or> d = 2 \<or> d = 3 \<or> d = 4 \<or> d = 5 \<or> d = 6 \<or> d = 7 \<or> d = 8 \<or> d = 9
    \<or> d = 10 \<or> d = 11 \<or> d = 12 \<or> d = 13 \<or> d = 14 \<or> d = 15" by arith
  then show ?thesis by (elim disjE; simp only:; code_simp)
qed

lemma go_digit_not_sign: "go_digit c = Some d \<Longrightarrow> c \<noteq> CHR ''+'' \<and> c \<noteq> CHR ''-''"
proof -
  have "go_digit CHR ''+'' = None" "go_digit CHR ''-'' = None" by code_simp+
  then show "go_digit c = Some d \<Longrightarrow> c \<noteq> CHR ''+'' \<and> c \<noteq> CHR ''-''" by auto
qed

lemma go_digit_not_ws: "go_digit c = Some d \<Longrightarrow> \<not> is_ws c"
proof -
  have "go_digit CHR '' '' = None" "go_digit CHR 0x09 = None" "go_digit CHR 0x0A = None" "go_digit CHR 0x0C = None"
    "go_digit CHR 0x0D = None" by code_simp+
  then show "go_digit c = Some d \<Longrightarrow> \<not> is_ws c" by (auto simp: is_ws_def)
qed

lemma ParseUint_dec: "ParseUint 10 (dec_string n) = Some n"
proof -
  have "go_digits 10 0 (dec_string n) = Some n"
    using go_digits_chars [of "rev (dec_digits n)" digit_char 10 0 "[]"] dec_digits_bound go_digit_dec
      dec_digits_value [of n]
    by (simp add: dec_string_digits foldl_conv_foldr mult.commute add.commute)
  then show ?thesis by (simp add: ParseUint_def)
qed

lemma ParseUint_hex: "ParseUint 16 (hex_string n) = Some n"
proof -
  have "go_digits 16 0 (hex_string n) = Some n"
    using go_digits_chars [of "rev (radix_digits 16 n)" "radix_char True" 16 0 "[]"] radix_digits_bound [of 16] go_digit_hex
      radix_digits_value [of 16 n]
    by (simp add: hex_string_def foldl_conv_foldr mult.commute add.commute)
  then show ?thesis using radix_digits_nonempty [of 16 n] by (simp add: ParseUint_def hex_string_def)
qed

lemma ParseInt_unsigned: "ParseUint base s = Some n \<Longrightarrow> n < 2 ^ 63 \<Longrightarrow> ParseInt base s = Some (int n)"
proof -
  assume p: "ParseUint base s = Some n" "n < 2 ^ 63"
  then obtain c r where s: "s = c # r" by (cases s) (auto simp: ParseUint_def)
  then obtain d where "go_digit c = Some d" using p(1) by (auto simp: ParseUint_def split: option.splits)
  then show ?thesis using p s go_digit_not_sign [of c d] by (simp add: ParseInt_def Let_def)
qed

lemma Atoi_dec: "n < 2 ^ 63 \<Longrightarrow> Atoi (dec_string n) = Some (int n)"
  by (rule ParseInt_unsigned [OF ParseUint_dec])

lemma ParseInt_hex: "n < 2 ^ 63 \<Longrightarrow> ParseInt 16 (hex_string n) = Some (int n)"
  by (rule ParseInt_unsigned [OF ParseUint_hex])

text \<open>Words without white space, separated and followed by white space, are the pieces of their line.\<close>

definition word_ok :: "string \<Rightarrow> bool" where
  "word_ok w \<longleftrightarrow> (\<forall>c\<in>set w. \<not> is_ws c)"

lemma ws_split_word: "word_ok w \<Longrightarrow> ws_split w = [w]"
  by (simp add: ws_split.simps [of w] word_ok_def Let_def)

lemma ws_split_Cons:
  assumes "word_ok w" "p \<noteq> []" "\<forall>c\<in>set p. is_ws c" "rest = [] \<or> \<not> is_ws (hd rest)"
  shows "ws_split (w @ p @ rest) = w # ws_split rest"
proof -
  obtain c p' where p: "p = c # p'" using assms(2) by (cases p) auto
  then have t: "takeWhile (\<lambda>c. \<not> is_ws c) (w @ p @ rest) = w" "dropWhile (\<lambda>c. \<not> is_ws c) (w @ p @ rest) = p @ rest"
    using assms(1,3) by (simp_all add: word_ok_def takeWhile_append dropWhile_append)
  have "dropWhile is_ws (p @ rest) = rest"
    using assms(3,4) by (cases rest) (simp_all add: dropWhile_append)
  then show ?thesis using p t by (subst ws_split.simps) (simp add: Let_def)
qed

lemma dec_string_word: "word_ok (dec_string n)"
  using dec_digits_bound [of _ n] go_digit_not_ws [OF go_digit_dec] by (auto simp: word_ok_def dec_string_digits)

lemma hex_string_word: "word_ok (hex_string n)"
  using radix_digits_bound [of 16 _ n] go_digit_not_ws [OF go_digit_hex] by (auto simp: word_ok_def hex_string_def)

lemma hex_string_not_Nil [simp]: "hex_string n \<noteq> []"
  using radix_digits_nonempty [of 16 n] by (simp add: hex_string_def)

text \<open>Where the parser succeeds it is the same number.\<close>

lemma go_digits_mono: "go_digits base acc s = Some n \<Longrightarrow> 0 < base \<Longrightarrow> acc \<le> n"
proof (induction s arbitrary: acc)
  case (Cons c s)
  then obtain d where d: "go_digits base (acc * base + d) s = Some n" by (auto split: option.splits if_splits)
  have "acc * 1 \<le> acc * base" using Cons.prems(2) by (intro mult_le_mono) auto
  then have "acc \<le> acc * base + d" by linarith
  then show ?case using Cons.IH [OF d Cons.prems(2)] by (rule le_trans)
qed simp

lemma go_scan_digits: "go_digits base acc s = Some n \<Longrightarrow> n < 2 ^ 64 \<Longrightarrow> 0 < base \<Longrightarrow> go_scan base acc s = Some n"
proof (induction s arbitrary: acc)
  case (Cons c s)
  then obtain d where d: "go_digit c = Some d" "d < base" "go_digits base (acc * base + d) s = Some n"
    by (auto split: option.splits if_splits)
  have "acc * base + d < 2 ^ 64" using go_digits_mono [OF d(3) Cons.prems(3)] Cons.prems(2) by simp
  then show ?case using d Cons by simp
qed simp

lemma ParseInt_value_Some:
  assumes "ParseInt base s = Some i" "0 < base"
  shows "ParseInt_value base s = i"
proof -
  let ?neg = "s \<noteq> [] \<and> hd s = CHR ''-''"
  let ?u = "if s \<noteq> [] \<and> (hd s = CHR ''+'' \<or> hd s = CHR ''-'') then tl s else s"
  obtain n where n: "?u \<noteq> []" "go_digits base 0 ?u = Some n"
    using assms(1) by (fastforce simp: ParseInt_def ParseUint_def Let_def split: option.splits if_splits)
  have i: "i = (if ?neg then - int n else int n)" "n \<le> 2 ^ 63" "\<not> ?neg \<Longrightarrow> n < 2 ^ 63"
    using assms(1) n by (auto simp: ParseInt_def ParseUint_def Let_def split: option.splits if_splits)
  have "go_scan base 0 ?u = Some n" using go_scan_digits [OF n(2) _ assms(2)] i(2) by simp
  then have "ParseInt_value base s = (if ?neg then - int (min n (2 ^ 63)) else int (min n (2 ^ 63 - 1)))"
    using n(1) unfolding ParseInt_value_def Let_def by simp
  then show ?thesis using i by (cases ?neg) (simp_all add: min_def)
qed

end
