(* ===== verification/Analyse.thy ===== *)
theory Analyse
  imports GoText
begin

text \<open>
  The analyser, \<open>analyse.go\<close>: it reads the resolved trace line by line, follows which logical
  execution unit (a thread or an interrupt, LEU) runs on which processor, and keeps for each a stack
  of the services it is in. The entries are shared by pointers and changed after they are stored, so
  they live in a heap and are named by their position there. A run-time panic is a fault value:
  an index out of range, a nil pointer or map, or a call of \<open>panic\<close>. Integers are 64 bits wide in the
  program and unbounded here.
\<close>

section \<open>State\<close>

datatype leu = LEU (leu_name: string) (leu_pid: int)

record ana_entry =
  e_type :: string
  e_cpu :: int
  e_curpid :: int
  e_pid1 :: int
  e_pid2 :: int
  e_packet :: string
  e_service :: string
  e_location :: string
  e_cycles :: int
  e_line :: int
  e_tempid :: int
  e_temps :: "(string \<times> int) list"
  e_peudur :: int
  e_peuirq :: int

record svc =
  sv_name :: string
  sv_entries :: "nat list"
  sv_packets :: "int list"

record leu_entry =
  le_entries :: "nat list"
  le_packets :: "int list"

record tempvar =
  tv_entry :: "nat option"
  tv_value :: int

record ana =
  heap :: "ana_entry list"
  cur_leu :: "int \<Rightarrow> leu option"
  stacks :: "int \<Rightarrow> (leu \<Rightarrow> svc list option) option"
  interrupted :: "leu list"
  peu_start :: "nat option"
  peu_entries :: "nat list"
  leus :: "leu \<Rightarrow> (string \<Rightarrow> leu_entry list option) option"
  temps :: "string \<Rightarrow> tempvar option"
  last_appended :: "nat option"
  next_tempid :: int
  pktextrnr :: int

definition ent :: "ana \<Rightarrow> nat \<Rightarrow> ana_entry" where
  "ent s i = heap s ! i"

definition upd_ent :: "nat \<Rightarrow> (ana_entry \<Rightarrow> ana_entry) \<Rightarrow> ana \<Rightarrow> ana" where
  "upd_ent i f s = s\<lparr>heap := (heap s)[i := f (ent s i)]\<rparr>"

definition alloc :: "ana_entry \<Rightarrow> ana \<Rightarrow> nat \<times> ana" where
  "alloc e s = (length (heap s), s\<lparr>heap := heap s @ [e]\<rparr>)"

section \<open>The service stacks\<close>

text \<open>A key that is missing gives the zero value.\<close>

definition GetCurrentLEU :: "int \<Rightarrow> ana \<Rightarrow> leu" where
  "GetCurrentLEU cpu s = (case cur_leu s cpu of None \<Rightarrow> LEU [] 0 | Some l \<Rightarrow> l)"

definition ensure_stacks :: "int \<Rightarrow> ana \<Rightarrow> ana" where
  "ensure_stacks cpu s =
     (case stacks s cpu of None \<Rightarrow> s\<lparr>stacks := (stacks s)(cpu \<mapsto> Map.empty)\<rparr> | Some _ \<Rightarrow> s)"

definition stack_of :: "int \<Rightarrow> ana \<Rightarrow> svc list" where
  "stack_of cpu s =
     (case stacks s cpu of
        None \<Rightarrow> []
      | Some m \<Rightarrow> (case m (GetCurrentLEU cpu s) of None \<Rightarrow> [] | Some st \<Rightarrow> st))"

definition put_stack :: "int \<Rightarrow> svc list \<Rightarrow> ana \<Rightarrow> ana outcome" where
  "put_stack cpu st s =
     (case stacks s cpu of
        None \<Rightarrow> Inl NullDeref
      | Some m \<Rightarrow> Inr (s\<lparr>stacks := (stacks s)(cpu \<mapsto> m(GetCurrentLEU cpu s \<mapsto> st))\<rparr>))"

definition PushEntry :: "nat \<Rightarrow> ana \<Rightarrow> ana outcome" where
  "PushEntry i s0 =
     (let cpu = e_cpu (ent s0 i); s = ensure_stacks cpu s0; st = stack_of cpu s in
      if st = [] then Inl OutOfBounds
      else let top = last st in
           bind_outcome (put_stack cpu (butlast st @ [top\<lparr>sv_entries := sv_entries top @ [i]\<rparr>]) s)
             (\<lambda>s'. Inr (s'\<lparr>last_appended := Some i\<rparr>)))"

definition PushService :: "nat \<Rightarrow> ana \<Rightarrow> (nat \<times> ana) outcome" where
  "PushService i s0 =
     (let cpu = e_cpu (ent s0 i); s = ensure_stacks cpu s0; n = length (stack_of cpu s) in
      bind_outcome (if 0 < n then PushEntry i s else Inr s) (\<lambda>s'. Inr (n, s'\<lparr>last_appended := Some i\<rparr>)))"

abbreviation push :: "nat \<Rightarrow> ana \<Rightarrow> ana outcome" where
  "push i s \<equiv> bind_outcome (PushService i s) (\<lambda>r. Inr (snd r))"

definition PushNewService :: "nat \<Rightarrow> string \<Rightarrow> ana \<Rightarrow> (nat \<times> ana) outcome" where
  "PushNewService i newService s0 =
     (let cpu = e_cpu (ent s0 i); s = ensure_stacks cpu s0; n = length (stack_of cpu s) in
      bind_outcome
        (if 0 < n \<and> \<not> contains (e_location (ent s i)) ''irq_exit''
         then (case alloc (ent s i) s of (j, s') \<Rightarrow> PushEntry j s') else Inr s)
        (\<lambda>s1. bind_outcome
           (put_stack cpu (stack_of cpu s1 @ [\<lparr>sv_name = newService, sv_entries = [], sv_packets = []\<rparr>]) s1)
           (\<lambda>s2. case alloc (ent s2 i) s2 of (k, s3) \<Rightarrow> PushService k s3)))"

definition PopService :: "nat \<Rightarrow> ana \<Rightarrow> (svc \<times> ana) outcome" where
  "PopService i s0 =
     (let cpu = e_cpu (ent s0 i); s = ensure_stacks cpu s0; st = stack_of cpu s in
      if st = [] then Inl OutOfBounds
      else bind_outcome (put_stack cpu (butlast st) s) (\<lambda>s'. Inr (last st, s')))"

section \<open>Physical execution units\<close>

text \<open>The match: the duration is that of the interrupt entry since the start.\<close>

definition peu_match :: "nat \<Rightarrow> ana \<Rightarrow> ana outcome" where
  "peu_match intwithcompl s =
     bind_outcome (nth_checked (peu_entries s) intwithcompl) (\<lambda>j.
       case peu_start s of
         None \<Rightarrow> Inl NullDeref
       | Some st \<Rightarrow>
           Inr ((upd_ent st (\<lambda>e. e\<lparr>e_peudur := e_cycles (ent s j) - e_cycles e, e_peuirq := e_pid1 (ent s j)\<rparr>) s)
             \<lparr>peu_start := None, peu_entries := []\<rparr>))"

primrec peu_scan :: "nat list \<Rightarrow> nat \<Rightarrow> nat \<Rightarrow> string \<Rightarrow> nat \<Rightarrow> ana \<Rightarrow> ana outcome" where
  "peu_scan [] index interruptWithIndex synchvar intwithcompl s = Inr s"
| "peu_scan (j # js) index interruptWithIndex synchvar intwithcompl s =
     (let e = ent s j in
      if e_type e = ''HIRQENTRY'' then peu_scan js (Suc index) index synchvar intwithcompl s
      else if e_type e = ''HIRQEXIT'' then peu_scan js (Suc index) 0 synchvar intwithcompl s
      else if take 5 (e_type e) = ''COMPL'' then
        (let iwc = (if interruptWithIndex \<noteq> 0 then interruptWithIndex else intwithcompl) in
         if synchvar = [] then peu_scan js (Suc index) interruptWithIndex (e_service e) iwc s
         else if synchvar = e_service e \<and> iwc \<noteq> 0 then
           bind_outcome (peu_match iwc s) (peu_scan js (Suc index) interruptWithIndex synchvar iwc)
         else peu_scan js (Suc index) interruptWithIndex synchvar iwc s)
      else if take 9 (e_type e) = ''WAITCOMPL'' then
        (if synchvar = [] then peu_scan js (Suc index) interruptWithIndex (e_service e) intwithcompl s
         else if synchvar = e_service e \<and> intwithcompl \<noteq> 0 then
           bind_outcome (peu_match intwithcompl s) (peu_scan js (Suc index) interruptWithIndex synchvar intwithcompl)
         else peu_scan js (Suc index) interruptWithIndex synchvar intwithcompl s)
      else peu_scan js (Suc index) interruptWithIndex synchvar intwithcompl s)"

definition AppendToPEU :: "nat \<Rightarrow> ana \<Rightarrow> ana outcome" where
  "AppendToPEU i s =
     (let e = ent s i in
      if e_cpu e = 1 then Inr s
      else if e_type e = ''PEUSTART'' then Inr (s\<lparr>peu_start := Some i, peu_entries := []\<rparr>)
      else if peu_start s = None then Inr s
      else let s' = s\<lparr>peu_entries := peu_entries s @ [i]\<rparr> in peu_scan (peu_entries s') 0 0 [] 0 s')"

text \<open>The last entry of the service that was on top when \<open>n\<close> services were on the stack.\<close>

definition append_top_to_PEU :: "nat \<Rightarrow> nat \<Rightarrow> ana \<Rightarrow> ana outcome" where
  "append_top_to_PEU n i s0 =
     (let cpu = e_cpu (ent s0 i); s = ensure_stacks cpu s0 in
      bind_outcome (nth_checked (stack_of cpu s) (n - 1)) (\<lambda>sv.
        if sv_entries sv = [] then Inl OutOfBounds else AppendToPEU (last (sv_entries sv)) s))"

text \<open>What the handlers of interrupts, peripherals and synchronisation do with an entry.\<close>

definition push_to_PEU :: "nat \<Rightarrow> ana \<Rightarrow> ana outcome" where
  "push_to_PEU i s =
     bind_outcome (PushService i s) (\<lambda>(n, s'). if 0 < n then append_top_to_PEU n i s' else Inr s')"

section \<open>The handlers\<close>

definition ensure_leu :: "leu \<Rightarrow> ana \<Rightarrow> ana" where
  "ensure_leu l s = (case leus s l of None \<Rightarrow> s\<lparr>leus := (leus s)(l \<mapsto> Map.empty)\<rparr> | Some _ \<Rightarrow> s)"

definition handleCTXSW :: "nat \<Rightarrow> ana \<Rightarrow> ana outcome" where
  "handleCTXSW i s =
     bind_outcome (push i s) (\<lambda>s1.
       let cpu = e_cpu (ent s1 i); l = LEU ''Thread'' (e_pid2 (ent s1 i)) in
       bind_outcome (push i (s1\<lparr>cur_leu := (cur_leu s1)(cpu \<mapsto> l)\<rparr>)) (\<lambda>s2. Inr (ensure_leu l s2)))"

text \<open>
  The keys of \<open>ServiceStack\<close> are the processors 0 and 1. The order in which the loop sees them does
  not matter: if neither is the new one the assignment is to a nil map.
\<close>

definition migrate_from :: "int \<Rightarrow> leu \<Rightarrow> ana \<Rightarrow> int list \<Rightarrow> int option" where
  "migrate_from newCPU l s cpus =
     find (\<lambda>cpu. cpu \<noteq> newCPU \<and> (case stacks s cpu of None \<Rightarrow> False | Some m \<Rightarrow> m l \<noteq> None)) cpus"

definition handleMIGRATE :: "nat \<Rightarrow> ana \<Rightarrow> ana outcome" where
  "handleMIGRATE i s =
     (let newCPU = e_pid2 (ent s i); l = LEU ''Thread'' (e_pid1 (ent s i)) in
      case migrate_from newCPU l s [0, 1] of
        None \<Rightarrow> Inr s
      | Some cpu \<Rightarrow>
          (case (stacks s newCPU, stacks s cpu) of
             (Some m', Some m) \<Rightarrow>
               Inr (s\<lparr>stacks := (stacks s)(newCPU \<mapsto> m'(l := m l), cpu \<mapsto> m(l := None))\<rparr>)
           | _ \<Rightarrow> Inl NullDeref))"

definition handleSRVENTRY :: "nat \<Rightarrow> ana \<Rightarrow> ana outcome" where
  "handleSRVENTRY i s =
     bind_outcome (PushNewService i (e_service (ent s i)) (upd_ent i (\<lambda>e. e\<lparr>e_packet := ''0''\<rparr>) s))
       (\<lambda>(n, s'). Inr s')"

definition PushServiceToLEU :: "nat \<Rightarrow> svc \<Rightarrow> ana \<Rightarrow> ana outcome" where
  "PushServiceToLEU i sv s =
     (let l = GetCurrentLEU (e_cpu (ent s i)) s in
      case leus s l of
        None \<Rightarrow> Inl NullDeref
      | Some m \<Rightarrow>
          let es = (case m (sv_name sv) of None \<Rightarrow> [] | Some es \<Rightarrow> es) in
          Inr (s\<lparr>leus := (leus s)(l \<mapsto>
            m(sv_name sv \<mapsto> es @ [\<lparr>le_entries = sv_entries sv, le_packets = sv_packets sv\<rparr>]))\<rparr>))"

definition handleSRVEXIT :: "nat \<Rightarrow> ana \<Rightarrow> (bool \<times> ana) outcome" where
  "handleSRVEXIT i s =
     bind_outcome (PushService i s) (\<lambda>(n, s1).
       if n = 0 then Inr (False, s1)
       else bind_outcome (PopService i s1) (\<lambda>(sv, s2).
         bind_outcome (PushServiceToLEU i sv (ensure_leu (GetCurrentLEU (e_cpu (ent s2 i)) s2) s2)) (\<lambda>s3.
           bind_outcome (push i s3) (\<lambda>s4. Inr (True, s4)))))"

definition handleHIRQEntry :: "nat \<Rightarrow> ana \<Rightarrow> ana outcome" where
  "handleHIRQEntry i s =
     bind_outcome (push i s) (\<lambda>s1.
       let cpu = e_cpu (ent s1 i); irq = e_pid1 (ent s1 i); l = LEU ''Hardware Interrupt'' irq;
           s2 = s1\<lparr>interrupted := interrupted s1 @ [GetCurrentLEU cpu s1], cur_leu := (cur_leu s1)(cpu \<mapsto> l)\<rparr>
       in bind_outcome (PushNewService i (''HIRQ-'' @ itoa irq) (ensure_leu l s2)) (\<lambda>(n, s3).
            if 0 < n then append_top_to_PEU n i s3 else Inr s3))"

definition handleHIRQExit :: "nat \<Rightarrow> ana \<Rightarrow> ana outcome" where
  "handleHIRQExit i s =
     bind_outcome (handleSRVEXIT i s) (\<lambda>(exited, s1).
       if \<not> exited then Inr s1
       else if interrupted s1 = [] then Inl OutOfBounds
       else push_to_PEU i
         (s1\<lparr>cur_leu := (cur_leu s1)(e_cpu (ent s1 i) \<mapsto> last (interrupted s1)),
             interrupted := butlast (interrupted s1)\<rparr>))"

definition handleLOOPSTART :: "nat \<Rightarrow> ana \<Rightarrow> ana outcome" where
  "handleLOOPSTART i s0 =
     (let cpu = e_cpu (ent s0 i); s = ensure_stacks cpu s0 in
      if stack_of cpu s = [] then Inr s
      else bind_outcome (PushNewService i (e_location (ent s i)) s) (\<lambda>(n, s'). Inr s'))"

text \<open>
  The handler is called for entries of its own type only, so the test that the last entry of the
  popped service has that type sees the entry that was just pushed.
\<close>

definition handleLOOPRSTART :: "nat \<Rightarrow> ana \<Rightarrow> ana outcome" where
  "handleLOOPRSTART i s0 =
     (let cpu = e_cpu (ent s0 i); cyc = e_cycles (ent s0 i); s = ensure_stacks cpu s0; st = stack_of cpu s in
      if st = [] then Inr s
      else if sv_entries (last st) = [] then Inl OutOfBounds
      else let k = last (sv_entries (last st)) in
        if e_type (ent s k) = ''LOOPSTART''
        then Inr (upd_ent k (\<lambda>e. e\<lparr>e_type := ''LOOPRSTART'', e_cycles := cyc\<rparr>) s)
        else bind_outcome (push i s) (\<lambda>s1. bind_outcome (PopService i s1) (\<lambda>(sv, s2).
          if sv_entries sv = [] then Inl OutOfBounds
          else if e_type (ent s2 (last (sv_entries sv))) \<noteq> ''LOOPRSTART'' then Inl BugOn
          else let f = hd (sv_entries sv); s3 = upd_ent f (\<lambda>e. e\<lparr>e_type := ''LOOPSTART''\<rparr>) s2 in
            bind_outcome (PushServiceToLEU i sv s3) (\<lambda>s4.
              case alloc ((ent s4 f)\<lparr>e_cycles := e_cycles (ent s4 i), e_type := ''LOOPRSTART''\<rparr>) s4 of
                (j, s5) \<Rightarrow>
                  bind_outcome (put_stack cpu (stack_of cpu s5 @ [sv\<lparr>sv_entries := [], sv_packets := []\<rparr>]) s5)
                    (push j)))))"

definition handleLOOPSTOP :: "nat \<Rightarrow> ana \<Rightarrow> ana outcome" where
  "handleLOOPSTOP i s0 =
     (let cpu = e_cpu (ent s0 i); s = ensure_stacks cpu s0 in
      if stack_of cpu s = [] then Inr s
      else bind_outcome (PopService i s) (\<lambda>(sv, s1).
        if sv_entries sv = [] then Inl OutOfBounds
        else let f = hd (sv_entries sv) in
          case alloc ((ent s1 f)\<lparr>e_type := ''LOOPRSTART'', e_cycles := e_cycles (ent s1 i)\<rparr>) s1 of
            (j, s2) \<Rightarrow>
              let sv' = sv\<lparr>sv_entries := sv_entries sv @ [j]\<rparr> in
              bind_outcome
                (if e_type (ent s2 f) = ''LOOPRSTART''
                 then PushServiceToLEU i sv' (upd_ent f (\<lambda>e. e\<lparr>e_type := ''LOOPSTART''\<rparr>) s2) else Inr s2)
                (\<lambda>s3. case alloc ((ent s3 i)\<lparr>e_type := ''LOOPSTOP''\<rparr>) s3 of (j2, s4) \<Rightarrow> push j2 s4)))"

definition softirqs :: "string \<Rightarrow> string option" where
  "softirqs = [''1'' \<mapsto> ''run_timer_softirq'', ''2'' \<mapsto> ''net_tx_action'', ''3'' \<mapsto> ''net_rx_action'']"

definition handleSRVQUEUE :: "nat \<Rightarrow> ana \<Rightarrow> ana outcome" where
  "handleSRVQUEUE i s =
     (if e_pid1 (ent s i) = 0
      then push i (case softirqs (e_service (ent s i)) of
                     None \<Rightarrow> s | Some v \<Rightarrow> upd_ent i (\<lambda>e. e\<lparr>e_service := v\<rparr>) s)
      else bind_outcome (PushNewService i (e_service (ent s i)) (upd_ent i (\<lambda>e. e\<lparr>e_packet := ''0''\<rparr>) s))
             (\<lambda>(n, s'). Inr s'))"

definition handlePEUSTART :: "nat \<Rightarrow> ana \<Rightarrow> ana outcome" where
  "handlePEUSTART = push_to_PEU"

definition sync_up :: "string \<Rightarrow> bool" where
  "sync_up t \<longleftrightarrow> t = ''SEMUP'' \<or> t = ''COMPL''"

definition handleSync :: "nat \<Rightarrow> ana \<Rightarrow> ana outcome" where
  "handleSync i s0 =
     (let e = ent s0 i; cpu = e_cpu e in
      case temps s0 (e_service e) of
        None \<Rightarrow> push_to_PEU i s0
      | Some tv \<Rightarrow>
          let s = ensure_stacks cpu s0; st = stack_of cpu s; d = (if sync_up (e_type e) then 1 else - 1 :: int) in
          bind_outcome
            (if st = [] then Inr s
             else case tv_entry tv of
               None \<Rightarrow> Inl NullDeref
             | Some k \<Rightarrow> Inr (upd_ent k (\<lambda>x. x\<lparr>e_temps := e_temps x @ [(sv_name (last st), d)]\<rparr>) s))
            (\<lambda>s1. bind_outcome
               (push_to_PEU i (upd_ent i (\<lambda>x. x\<lparr>e_type := e_type x @ [CHR 0x09] @ ''(TEMP)''\<rparr>) s1))
               (\<lambda>s2. Inr (s2\<lparr>temps := (temps s2)(e_service e :=
                  (if tv_value tv + d = 0 then None else Some (tv\<lparr>tv_value := tv_value tv + d\<rparr>)))\<rparr>))))"

definition handleTEMPSYNCH :: "nat \<Rightarrow> ana \<Rightarrow> ana outcome" where
  "handleTEMPSYNCH i s =
     bind_outcome
       (push i ((upd_ent i (\<lambda>e. e\<lparr>e_tempid := next_tempid s\<rparr>) s)\<lparr>next_tempid := next_tempid s + 1\<rparr>))
       (\<lambda>s1. Inr (s1\<lparr>temps := (temps s1)(e_service (ent s1 i) \<mapsto>
          \<lparr>tv_entry = last_appended s1, tv_value = 0\<rparr>)\<rparr>))"

text \<open>
  The loop at the end of the handler appends the packet to copies of the stack elements, which are
  dropped: it has no effect.
\<close>

definition handlePKTQUEUE :: "nat \<Rightarrow> ana \<Rightarrow> ana outcome" where
  "handlePKTQUEUE i s =
     bind_outcome
       (if e_type (ent s i) = ''PKTQUEUEN''
        then (case last_appended s of
                None \<Rightarrow> Inl NullDeref
              | Some k \<Rightarrow>
                  if e_type (ent s k) = ''PKTQUEUE''
                  then Inr ((upd_ent i (\<lambda>e. e\<lparr>e_type := ''PKTQUEUE''\<rparr>) (upd_ent k (\<lambda>e. e\<lparr>e_type := ''PKTQUEUEN''\<rparr>) s))
                              \<lparr>pktextrnr := pktextrnr s + 1\<rparr>)
                  else Inr (s\<lparr>pktextrnr := 0\<rparr>))
        else Inr (s\<lparr>pktextrnr := 0\<rparr>))
       (\<lambda>s1. push i (upd_ent i (\<lambda>e. e\<lparr>e_packet := itoa (ParseInt_value 16 (e_packet e))\<rparr>) s1))"

definition handleEvent :: "nat \<Rightarrow> ana \<Rightarrow> ana outcome" where
  "handleEvent i s =
     (let t = e_type (ent s i) in
      if t = ''CTXSW'' then handleCTXSW i s
      else if t = ''MIGRATE'' then handleMIGRATE i s
      else if t = ''HIRQENTRY'' then handleHIRQEntry i s
      else if t = ''HIRQEXIT'' then handleHIRQExit i s
      else if t = ''LOOPRSTART'' then handleLOOPRSTART i s
      else if t = ''LOOPSTART'' then handleLOOPSTART i s
      else if t = ''LOOPSTOP'' then handleLOOPSTOP i s
      else if t = ''PEUSTART'' then handlePEUSTART i s
      else if t \<in> {''COMPL'', ''SEMDOWN'', ''SEMUP'', ''WAITCOMPL''} then handleSync i s
      else if t \<in> {''PKTQUEUE'', ''PKTQUEUEN''} then handlePKTQUEUE i s
      else if t = ''SRVENTRY'' then handleSRVENTRY i s
      else if t = ''SRVEXIT'' then bind_outcome (handleSRVEXIT i s) (\<lambda>(b, s'). Inr s')
      else if t = ''SRVQUEUE'' then handleSRVQUEUE i s
      else if t = ''TEMPSYNCH'' then handleTEMPSYNCH i s
      else if t \<in> {''QUEUECOND'', ''STATECOND'', ''STATEQUEUE'', ''SLEEP'', ''TTWAKEUP'', ''WAKEUP''} then push i s
      else Inr s)"

section \<open>The run over the trace\<close>

record cpu_trace =
  ct_first :: bool
  ct_limbo :: bool
  ct_lastCycle :: int
  ct_cycles :: int
  ct_cyc :: int

record ana_run =
  ar_state :: ana
  ar_cpus :: "cpu_trace list"
  addr_map :: "string \<Rightarrow> int option"
  addr_map_synch :: "string \<Rightarrow> int option"
  ar_lineNumber :: int
  longestLocationString :: int
  ar_returned :: bool

definition delta :: "int \<Rightarrow> int \<Rightarrow> int" where
  "delta a b = (if b < a then (0xFFFFFFFF - a) + b else b - a)"

definition parse_or_panic :: "string \<Rightarrow> int outcome" where
  "parse_or_panic s = (case Atoi s of None \<Rightarrow> Inl BugOn | Some i \<Rightarrow> Inr i)"

definition reset_eod :: "ana_run \<Rightarrow> ana_run" where
  "reset_eod r = r\<lparr>
     ar_cpus := map (\<lambda>t. t\<lparr>ct_first := True, ct_limbo := True\<rparr>) (ar_cpus r),
     ar_state := (ar_state r)\<lparr>stacks := Map.empty, cur_leu := Map.empty, temps := Map.empty,
       peu_start := None, peu_entries := []\<rparr>\<rparr>"

text \<open>The cycle counter of a processor: the counts read from the trace, accumulated.\<close>

definition advance :: "int \<Rightarrow> cpu_trace \<Rightarrow> cpu_trace" where
  "advance c ts = ts\<lparr>ct_first := False, ct_cyc := c, ct_lastCycle := ct_cycles ts,
     ct_cycles := ct_cycles ts + delta (if ct_first ts then c else ct_cyc ts) c\<rparr>"

text \<open>The part of the loop body that is reached out of limbo: \<open>c\<close> is the processor.\<close>

definition run_entry :: "string list \<Rightarrow> nat \<Rightarrow> ana_run \<Rightarrow> ana_run outcome" where
  "run_entry entry c r =
     (case Atoi (entry ! 2) of
        None \<Rightarrow> Inr (r\<lparr>ar_returned := True\<rparr>)
      | Some currentPid \<Rightarrow>
          bind_outcome (parse_or_panic (entry ! 3)) (\<lambda>cyc.
          bind_outcome (parse_or_panic (entry ! 4)) (\<lambda>pid1.
          bind_outcome (parse_or_panic (entry ! 5)) (\<lambda>pid2.
            let ts = advance cyc (ar_cpus r ! c);
                e = \<lparr>e_type = entry ! 0, e_cpu = int c, e_curpid = currentPid, e_pid1 = pid1, e_pid2 = pid2,
                     e_packet = entry ! 6, e_service = entry ! 7, e_location = entry ! 8,
                     e_cycles = ct_cycles ts, e_line = ar_lineNumber r, e_tempid = 0, e_temps = [],
                     e_peudur = 0, e_peuirq = 0\<rparr>
            in case alloc e (ar_state r) of (i, s) \<Rightarrow>
              bind_outcome (handleEvent i s) (\<lambda>s'.
                Inr (r\<lparr>ar_cpus := (ar_cpus r)[c := ts], ar_state := s',
                       longestLocationString := max (longestLocationString r) (int (length (e_location e)))\<rparr>))))))"

definition run_line :: "string \<Rightarrow> ana_run \<Rightarrow> ana_run outcome" where
  "run_line s r0 =
     (if ar_returned r0 then Inr r0
      else let r = r0\<lparr>ar_lineNumber := ar_lineNumber r0 + 1\<rparr> in
      if length s < 3 then Inl OutOfBounds
      else if take 3 s = ''EOD'' then Inr (reset_eod r)
      else let entry = ws_split s in
      if entry ! 0 \<in> {''ID_QUEUE'', ''ID_SYNCH''} \<and> length entry < 8 then Inl OutOfBounds
      else if entry ! 0 = ''ID_QUEUE'' \<and> entry ! 7 \<noteq> ''0'' then
        bind_outcome (parse_or_panic (entry ! 4)) (\<lambda>pid1. Inr (r\<lparr>addr_map := (addr_map r)(entry ! 7 \<mapsto> pid1)\<rparr>))
      else if entry ! 0 = ''ID_SYNCH'' \<and> entry ! 7 \<noteq> ''0'' then
        bind_outcome (parse_or_panic (entry ! 4)) (\<lambda>pid1.
          Inr (r\<lparr>addr_map_synch := (addr_map_synch r)(entry ! 7 \<mapsto> pid1)\<rparr>))
      else if length entry < 9 then Inr r
      else bind_outcome (parse_or_panic (entry ! 1)) (\<lambda>cpu.
        if cpu < 0 \<or> int (length (ar_cpus r)) \<le> cpu then Inl OutOfBounds
        else let c = nat cpu; ts = ar_cpus r ! c in
          if ct_limbo ts \<and> entry ! 0 \<noteq> ''CTXSW'' then Inr r
          else run_entry entry c (r\<lparr>ar_cpus := (ar_cpus r)[c := ts\<lparr>ct_limbo := False\<rparr>]\<rparr>)))"

definition ana_zero :: ana where
  "ana_zero = \<lparr>heap = [], cur_leu = Map.empty, stacks = Map.empty, interrupted = [], peu_start = None,
     peu_entries = [], leus = Map.empty, temps = Map.empty, last_appended = None, next_tempid = 0, pktextrnr = 0\<rparr>"

definition run_start :: ana_run where
  "run_start = \<lparr>ar_state = ana_zero,
     ar_cpus = replicate 2 \<lparr>ct_first = True, ct_limbo = True, ct_lastCycle = 0, ct_cycles = 0, ct_cyc = 0\<rparr>,
     addr_map = Map.empty, addr_map_synch = Map.empty, ar_lineNumber = 0, longestLocationString = -1,
     ar_returned = False\<rparr>"

definition run :: "string list \<Rightarrow> ana_run outcome" where
  "run ls = fold_outcome run_line ls run_start"

text \<open>The zero value of an entry.\<close>

definition entry0 :: ana_entry where
  "entry0 = \<lparr>e_type = [], e_cpu = 0, e_curpid = 0, e_pid1 = 0, e_pid2 = 0, e_packet = [], e_service = [],
     e_location = [], e_cycles = 0, e_line = 0, e_tempid = 0, e_temps = [], e_peudur = 0, e_peuirq = 0\<rparr>"

end
