(* ===== verification/AnalyseSig.thy ===== *)
theory AnalyseSig
  imports Analyse
begin

text \<open>
  The second half of the analyser, \<open>createSignatures\<close> and \<open>storeSignatures\<close> of \<open>analyse.go\<close>: each
  recorded instance of a service becomes a signature, a sequence of events and the cycles spent
  between them, and equal sequences are collected in the profile of the service. The order in which Go
  runs through a map is an argument. The floating-point averages of \<open>storeSignatures\<close> are arguments of
  the text it writes.
\<close>

section \<open>Tables\<close>

definition state_ids :: "int \<Rightarrow> string option" where
  "state_ids = map_of [(0, ''definedindevicefile''), (1, ''kernel:workpending''), (2, ''kernel:reschedqdisk''),
     (3, ''kernel:stopqdisk''), (4, ''wl1251:readinterrupttype''), (5, ''wl1251:interrupttype''),
     (6, ''wl1251:interruptenabled''), (7, ''wl1251:numtxcomplete''), (8, ''kernel:ifforxmit''),
     (9, ''wl1251:sizeofnextrxfromnic''), (10, ''wl1251:triggernictx''), (11, ''bcmdhd:singleread''),
     (12, ''bcmdhd:dataavailable''), (13, ''bcmdhd:ctrlframe'')]"

definition synch_ids :: "int \<Rightarrow> string option" where
  "synch_ids = map_of [(0, ''temporary::completion''), (1, ''bcm4329::dpc''), (2, ''wl12xx:mcspirx''), (3, ''wl12xx:mcspitx'')]"

definition state_operations :: "int \<Rightarrow> string option" where
  "state_operations = map_of [(0, ''read''), (1, ''write'')]"

definition state_scopes :: "int \<Rightarrow> string option" where
  "state_scopes = map_of [(0, ''local''), (1, ''global'')]"

definition queue_ids :: "int \<Rightarrow> string option" where
  "queue_ids = map_of [(0, ''noloc''), (1, ''ip::backlog''), (2, ''bcm4329::driver::tx''), (3, ''wl1251::driver::tx''),
     (4, ''nic::rx''), (5, ''nic::tx''), (6, ''nic::Q''), (7, ''dma::readycmd1''), (8, ''dma::readycmd2''),
     (9, ''dma::readycmd3''), (10, ''dma::readycmd4''), (11, ''dma::readycmd5''), (12, ''dma::readycmd6''),
     (13, ''dma::readycmd7''), (14, ''dma::readycmd8''), (15, ''dma::readycmd9''), (16, ''dma::readycmd10''),
     (17, ''dma::readycmd11''), (18, ''dma::readycmd12''), (19, ''dma::readycmd13''), (20, ''dma::readycmd14''),
     (21, ''dma::readycmd15''), (22, ''dma::readycmd16''), (23, ''qdisc''), (24, ''SEPARATOR''), (25, ''softirq::hi''),
     (26, ''softirq::timer''), (27, ''softirq::tx''), (28, ''softirq::rx''), (29, ''softirq::block''),
     (30, ''softirq::block-iopoll''), (31, ''softirq::tasklet''), (32, ''softirq::sched''), (33, ''softirq::hrtimer''),
     (34, ''tasklet::scheduled''), (35, ''tasklet::scheduled-hi''), (36, ''hrtimer::scheduled''), (37, ''omap2mcspi''),
     (38, ''wl1251:hwwork''), (39, ''HIRQ''), (40, ''SEPARATOR''), (41, ''dma::spisizes''), (42, ''dma::spioperations'')]"

definition zero_str :: "string option \<Rightarrow> string" where
  "zero_str r = (case r of None \<Rightarrow> [] | Some s \<Rightarrow> s)"

definition GetQueueId :: "int \<Rightarrow> string" where
  "GetQueueId n = (case queue_ids n of Some q \<Rightarrow> q | None \<Rightarrow> ''UNKNOWN-QID'')"

definition GetQueueIdByString :: "string \<Rightarrow> string" where
  "GetQueueIdByString str =
     (case ParseInt 16 str of
        None \<Rightarrow> ''UNKNOWN-QID''
      | Some n \<Rightarrow> (case queue_ids n of Some q \<Rightarrow> q | None \<Rightarrow> ''UNKNOWN-QID''))"

definition GetQueueCond :: "ana_entry \<Rightarrow> string" where
  "GetQueueCond e = (if e_packet e = ''0'' then ''notempty'' else ''empty'')"

definition GetStateIdString :: "string \<Rightarrow> string outcome" where
  "GetStateIdString str =
     (case ParseInt 16 str of
        None \<Rightarrow> Inl BugOn
      | Some n \<Rightarrow> (case state_ids n of Some s \<Rightarrow> Inr s | None \<Rightarrow> Inl BugOn))"

definition GetStateOperation :: "ana_entry \<Rightarrow> string" where
  "GetStateOperation e = zero_str (state_operations (e_pid1 e))"

definition GetStateScopeStr :: "string \<Rightarrow> string" where
  "GetStateScopeStr str =
     (case Atoi str of
        None \<Rightarrow> ''UNKNOWN-SCOPE''
      | Some n \<Rightarrow> (case state_scopes n of Some s \<Rightarrow> s | None \<Rightarrow> ''UNKNOWN-SCOPE''))"

definition GetStateScope :: "int \<Rightarrow> string" where
  "GetStateScope n = (case state_scopes n of Some s \<Rightarrow> s | None \<Rightarrow> ''UNKNOWN-SCOPE'')"

section \<open>Signatures\<close>

record signature =
  s_events :: "string list"
  s_duration :: "int list"

record collection =
  c_events :: "string list"
  c_durations :: "int list list"

type_synonym profile = "string \<Rightarrow> (string \<Rightarrow> collection option) option"

fun sig_join :: "string list \<Rightarrow> string" where
  "sig_join [] = []"
| "sig_join [s] = s"
| "sig_join (s # ss) = s @ [CHR 0x0A] @ sig_join ss"

definition sig_Key :: "signature \<Rightarrow> string" where
  "sig_Key s = sig_join (s_events s)"

definition sig_Append :: "string \<Rightarrow> signature \<Rightarrow> signature" where
  "sig_Append str s = s\<lparr>s_events := s_events s @ [str]\<rparr>"

definition sig_AddDuration :: "int \<Rightarrow> signature \<Rightarrow> signature" where
  "sig_AddDuration d s = s\<lparr>s_duration := s_duration s @ [d]\<rparr>"

definition PutSignature :: "string \<Rightarrow> signature \<Rightarrow> profile \<Rightarrow> profile" where
  "PutSignature service sg p =
     (let m = (case p service of None \<Rightarrow> Map.empty | Some m \<Rightarrow> m) in
      p(service \<mapsto>
        (case m (sig_Key sg) of
           Some c \<Rightarrow> m(sig_Key sg \<mapsto> c\<lparr>c_durations := c_durations c @ [s_duration sg]\<rparr>)
         | None \<Rightarrow> m(sig_Key sg \<mapsto> \<lparr>c_events = s_events sg, c_durations = [s_duration sg]\<rparr>))))"

text \<open>The variables of the loop over the entries of an instance, with the heap and the profiles.\<close>

record sigst =
  g_toDeduct :: int
  g_starti :: int
  g_startii :: int
  g_lastEvent :: int
  g_sig :: signature
  g_didSleep :: bool
  g_prev :: string
  g_heap :: "ana_entry list"
  g_profiles :: profile

text \<open>The tables of the run that the loop uses.\<close>

record sigctx =
  x_addr_map :: "string \<Rightarrow> int option"
  x_addr_map_synch :: "string \<Rightarrow> int option"
  x_longest :: int
  x_pid :: int
  x_srvkey :: string

definition append_ev :: "string \<Rightarrow> sigst \<Rightarrow> sigst" where
  "append_ev str g = g\<lparr>g_sig := sig_Append str (g_sig g)\<rparr>"

definition add_dur :: "int \<Rightarrow> sigst \<Rightarrow> sigst" where
  "add_dur d g = g\<lparr>g_sig := sig_AddDuration d (g_sig g)\<rparr>"

text \<open>\<open>signature.AddDuration((entry.Cycles - lastEvent) - toDeduct); toDeduct = 0\<close>.\<close>

definition timed :: "ana_entry \<Rightarrow> sigst \<Rightarrow> sigst" where
  "timed e g = (add_dur ((e_cycles e - g_lastEvent g) - g_toDeduct g) g)\<lparr>g_toDeduct := 0\<rparr>"

definition at_event :: "ana_entry \<Rightarrow> sigst \<Rightarrow> sigst" where
  "at_event e g = g\<lparr>g_lastEvent := e_cycles e\<rparr>"

definition no_deduct :: "sigst \<Rightarrow> sigst" where
  "no_deduct g = g\<lparr>g_toDeduct := 0\<rparr>"

definition put_sig :: "sigctx \<Rightarrow> sigst \<Rightarrow> sigst" where
  "put_sig x g = g\<lparr>g_profiles := PutSignature (x_srvkey x) (g_sig g) (g_profiles g)\<rparr>"

definition padded :: "sigctx \<Rightarrow> ana_entry \<Rightarrow> string" where
  "padded x e = ljust (e_location e) (nat (x_longest x))"

abbreviation tab :: string where
  "tab \<equiv> [CHR 0x09]"

definition own_irq :: "sigctx \<Rightarrow> ana_entry \<Rightarrow> bool" where
  "own_irq x e \<longleftrightarrow> x_srvkey x = ''HIRQ-'' @ itoa (e_pid1 e)"

definition irqService :: string where
  "irqService = ''irq_enter''"

definition parse_hex_or_panic :: "string \<Rightarrow> int outcome" where
  "parse_hex_or_panic s = (case ParseInt 16 s of None \<Rightarrow> Inl BugOn | Some i \<Rightarrow> Inr i)"

section \<open>The events\<close>

text \<open>The bodies of the loop's conditionals, in the order of the source.\<close>

definition ev_loopstart_own :: "sigctx \<Rightarrow> ana_entry \<Rightarrow> sigst \<Rightarrow> sigst outcome" where
  "ev_loopstart_own x e g =
     (if e_type e = ''LOOPSTART'' \<and> e_location e = x_srvkey x then
        bind_outcome (parse_hex_or_panic (e_packet e)) (\<lambda>pktId.
        bind_outcome (parse_hex_or_panic (e_service e)) (\<lambda>srv.
          Inr (no_deduct (at_event e (append_ev (''0 LOOPSTART'' @ tab @ tab @ itoa (e_pid1 e) @ '' '' @ GetQueueId (e_pid2 e) @
            '' '' @ GetQueueId pktId @ '' '' @ itoa srv) g)))))
      else Inr g)"

definition is_start :: "sigctx \<Rightarrow> ana_entry \<Rightarrow> bool" where
  "is_start x e \<longleftrightarrow> e_type e = ''SRVENTRY'' \<and> e_service e = x_srvkey x \<or>
     e_type e = ''SRVQUEUE'' \<and> e_service e = x_srvkey x \<and> e_pid1 e = 1 \<or> e_type e = ''HIRQENTRY'' \<and> own_irq x e"

definition ev_start :: "sigctx \<Rightarrow> ana_entry \<Rightarrow> sigst \<Rightarrow> sigst" where
  "ev_start x e g = (if is_start x e then no_deduct (at_event e (append_ev ''0 START'' g)) else g)"

definition ev_loopstart :: "sigctx \<Rightarrow> ana_entry \<Rightarrow> sigst \<Rightarrow> sigst outcome" where
  "ev_loopstart x e g =
     (if e_type e = ''LOOPSTART'' \<and> e_location e \<noteq> x_srvkey x then
        bind_outcome (parse_hex_or_panic (e_packet e)) (\<lambda>pktId.
        bind_outcome (parse_hex_or_panic (e_service e)) (\<lambda>srv.
          Inr (at_event e (timed e (append_ev (padded x e @ '' LOOP'' @ tab @ tab @ e_location e @ '' '' @ itoa (e_pid1 e) @ '' '' @
            GetQueueId (e_pid2 e) @ '' '' @ GetQueueId pktId @ '' '' @ itoa srv) g)))))
      else Inr g)"

definition is_stop :: "sigctx \<Rightarrow> ana_entry \<Rightarrow> bool" where
  "is_stop x e \<longleftrightarrow> e_type e = ''SRVEXIT'' \<and> e_service e = x_srvkey x \<or> e_type e = ''HIRQEXIT'' \<and> own_irq x e"

definition ev_stop :: "sigctx \<Rightarrow> ana_entry \<Rightarrow> sigst \<Rightarrow> sigst" where
  "ev_stop x e g = (if is_stop x e then put_sig x (append_ev (''0 STOP'' @ [CHR 0x0A]) (timed e g)) else g)"

definition ev_restart :: "sigctx \<Rightarrow> ana_entry \<Rightarrow> sigst \<Rightarrow> sigst" where
  "ev_restart x e g =
     (if e_type e = ''LOOPRSTART'' then put_sig x (append_ev (''0 RESTART'' @ [CHR 0x0A]) (timed e g)) else g)"

fun user_string :: "(string \<times> int) list \<Rightarrow> string" where
  "user_string [] = []"
| "user_string [(n, v)] = itoa v @ '' '' @ n"
| "user_string ((n, v) # us) = itoa v @ '' '' @ n @ '' '' @ user_string us"

definition ev_tempsynch :: "sigctx \<Rightarrow> ana_entry \<Rightarrow> sigst \<Rightarrow> sigst" where
  "ev_tempsynch x e g =
     (if e_type e = ''TEMPSYNCH''
      then at_event e (append_ev (padded x e @ '' TEMPSYNCH'' @ tab @ user_string (e_temps e)) (timed e g)) else g)"

definition ev_sync :: "sigctx \<Rightarrow> ana_entry \<Rightarrow> sigst \<Rightarrow> sigst" where
  "ev_sync x e g =
     (if e_type e \<in> {''SEMUP'', ''COMPL'', ''SEMDOWN'', ''WAITCOMPL''} then
        append_ev (padded x e @ '' '' @ e_type e @ tab @ tab @
          (case x_addr_map_synch x (e_service e) of Some idx \<Rightarrow> zero_str (synch_ids idx) | None \<Rightarrow> e_service e))
          (at_event e (timed e g))
      else g)"

definition ev_temp :: "sigctx \<Rightarrow> ana_entry \<Rightarrow> sigst \<Rightarrow> sigst" where
  "ev_temp x e g =
     (if contains (e_type e) ''(TEMP)'' then append_ev (padded x e @ '' '' @ e_type e) (at_event e (timed e g)) else g)"

definition ev_pktextr :: "sigctx \<Rightarrow> ana_entry \<Rightarrow> sigst \<Rightarrow> sigst" where
  "ev_pktextr x e g =
     (if e_type e \<in> {''PKTEXTR'', ''PKTEXTRN''}
      then append_ev (padded x e @ '' '' @ e_type e @ tab @ e_packet e) (at_event e (timed e g)) else g)"

definition queue_operation :: "ana_entry \<Rightarrow> string" where
  "queue_operation e =
     (if e_pid1 e = 0 then (if e_type e = ''PKTQUEUEN'' then ''ENQUEUEN'' else ''ENQUEUE'')
      else (if e_type e = ''PKTQUEUEN'' then ''DEQUEUEN'' else ''DEQUEUE''))"

definition or_unknown :: "string option \<Rightarrow> string" where
  "or_unknown r = (case r of Some q \<Rightarrow> q | None \<Rightarrow> ''UNKNOWN'')"

text \<open>An address that is not in the map gives the queue with number 0 here.\<close>

definition queue_name :: "sigctx \<Rightarrow> ana_entry \<Rightarrow> string" where
  "queue_name x e =
     (if e_pid2 e \<noteq> 0 then GetQueueId (e_pid2 e)
      else if e_packet e \<noteq> ''0''
      then or_unknown (queue_ids (case x_addr_map x (e_packet e) of None \<Rightarrow> 0 | Some a \<Rightarrow> a))
      else ''UNKNOWN'')"

definition state_queue_name :: "sigctx \<Rightarrow> ana_entry \<Rightarrow> string" where
  "state_queue_name x e =
     (if e_pid2 e \<noteq> 0 then GetQueueId (e_pid2 e)
      else case x_addr_map x (e_packet e) of
        Some a \<Rightarrow> if e_packet e \<noteq> ''0'' then or_unknown (queue_ids a) else ''UNKNOWN''
      | None \<Rightarrow> ''UNKNOWN'')"

definition is_queue_op :: "sigctx \<Rightarrow> ana_entry \<Rightarrow> bool" where
  "is_queue_op x e \<longleftrightarrow> e_type e = ''PKTQUEUE'' \<or> e_type e = ''SRVQUEUE'' \<and> e_service e \<noteq> x_srvkey x \<or>
     e_type e = ''PKTQUEUEN'' \<or> e_type e = ''STATEQUEUE''"

text \<open>A dequeued service is blanked in the entry itself, at position \<open>i\<close> of the heap.\<close>

definition ev_queue :: "sigctx \<Rightarrow> nat \<Rightarrow> ana_entry \<Rightarrow> sigst \<Rightarrow> sigst" where
  "ev_queue x i e g =
     (if is_queue_op x e then
        (let oper = queue_operation e;
             e' = (if oper = ''DEQUEUE'' \<and> e_type e = ''SRVQUEUE'' then e\<lparr>e_service := ''0''\<rparr> else e);
             g' = (timed e g)\<lparr>g_heap := (g_heap g)[i := e']\<rparr>
         in at_event e (append_ev
              (padded x e @ '' '' @ oper @ tab @ tab @ e_type e @ '' '' @
               (if e_type e = ''SRVQUEUE'' then e_service e' @ '' '' @ queue_name x e
                else if e_type e = ''STATEQUEUE''
                then itoa (ParseInt_value 16 (e_packet e)) @ '' '' @ state_queue_name x e @ '' '' @ GetStateScopeStr (e_service e)
                else e_packet e @ '' '' @ queue_name x e)) g'))
      else g)"

definition ev_queuecond :: "sigctx \<Rightarrow> ana_entry \<Rightarrow> sigst \<Rightarrow> sigst" where
  "ev_queuecond x e g =
     (if e_type e = ''QUEUECOND''
      then append_ev (padded x e @ '' QUEUECOND'' @ tab @ GetQueueId (e_pid1 e) @ '' '' @ GetQueueId (e_pid2 e) @ '' '' @ GetQueueCond e)
        (at_event e (timed e g))
      else g)"

definition ev_threadcond :: "sigctx \<Rightarrow> ana_entry \<Rightarrow> sigst \<Rightarrow> sigst outcome" where
  "ev_threadcond x e g = (if e_type e = ''THREADCOND'' then Inl BugOn else Inr g)"

definition ev_statecond :: "sigctx \<Rightarrow> ana_entry \<Rightarrow> sigst \<Rightarrow> sigst outcome" where
  "ev_statecond x e g =
     (if e_type e = ''STATECOND'' then
        bind_outcome (GetStateIdString (e_service e)) (\<lambda>st.
          Inr (append_ev (padded x e @ '' STATECOND'' @ tab @ st @ '' '' @ GetStateOperation e @ '' '' @ GetStateScope (e_pid2 e) @
            '' '' @ itoa (ParseInt_value 16 (e_packet e))) (at_event e (timed e g))))
      else Inr g)"

definition ev_peustart :: "sigctx \<Rightarrow> ana_entry \<Rightarrow> sigst \<Rightarrow> sigst" where
  "ev_peustart x e g =
     (if e_type e = ''PEUSTART''
      then at_event e (append_ev (e_location e @ '' PEUSTART HIRQ-'' @ itoa (e_peuirq e)) (add_dur (e_peudur e) (timed e g)))
      else g)"

definition ev_call :: "sigctx \<Rightarrow> ana_entry \<Rightarrow> sigst \<Rightarrow> sigst" where
  "ev_call x e g =
     (if e_type e = ''SRVENTRY'' \<and> e_service e \<noteq> x_srvkey x \<and> e_service e \<noteq> irqService
      then timed e (append_ev (padded x e @ '' CALL'' @ tab @ tab @ e_service e) g) else g)"

definition ev_return :: "sigctx \<Rightarrow> ana_entry \<Rightarrow> sigst \<Rightarrow> sigst" where
  "ev_return x e g =
     (if e_type e = ''SRVEXIT'' \<and> e_service e \<noteq> x_srvkey x \<and> e_service e \<noteq> irqService
      then no_deduct (at_event e g) else g)"

definition ev_loopstop :: "sigctx \<Rightarrow> ana_entry \<Rightarrow> sigst \<Rightarrow> sigst" where
  "ev_loopstop x e g = (if e_type e = ''LOOPSTOP'' then no_deduct (at_event e g) else g)"

text \<open>No program fills \<open>leuNames\<close>, so the name of a process is never known.\<close>

definition ev_ttwakeup :: "sigctx \<Rightarrow> ana_entry \<Rightarrow> sigst \<Rightarrow> sigst" where
  "ev_ttwakeup x e g =
     (if e_type e = ''TTWAKEUP'' \<and> g_prev g \<noteq> ''SEMUP'' \<and> g_prev g \<noteq> ''COMPL''
      then append_ev (padded x e @ '' TTWAKEUP'' @ tab @ ''UNKNOWN-LEU(pid='' @ itoa (e_pid1 e) @ '') '' @ e_packet e)
        (at_event e (timed e g))
      else g)"

text \<open>The end of the loop body: sleeping, being switched out and in, and the previous entry.\<close>

definition ev_tail :: "sigctx \<Rightarrow> ana_entry \<Rightarrow> sigst \<Rightarrow> sigst" where
  "ev_tail x e g =
     (if e_type e = ''SLEEP'' then g\<lparr>g_didSleep := True\<rparr>
      else if e_type e = ''CTXSW'' \<and> e_pid1 e = x_pid x then
        (if g_didSleep g \<and> \<not> contains (g_prev g) ''SEMDOWN'' \<and> \<not> contains (g_prev g) ''WAITCOMPL''
         then timed e (append_ev (padded x e @ '' SLEEP'') g)
         else g\<lparr>g_starti := e_cycles e\<rparr>)\<lparr>g_prev := e_type e\<rparr>
      else if e_type e = ''CTXSW'' \<and> e_pid2 e = x_pid x \<and> \<not> g_didSleep g then
        g\<lparr>g_toDeduct := g_toDeduct g + (e_cycles e - g_starti g)\<rparr>
      else if e_type e = ''CTXSW'' \<and> e_pid2 e = x_pid x then
        (at_event e g)\<lparr>g_didSleep := False, g_prev := e_type e\<rparr>
      else g\<lparr>g_prev := e_type e\<rparr>)"

definition sig_step :: "sigctx \<Rightarrow> nat \<Rightarrow> sigst \<Rightarrow> sigst outcome" where
  "sig_step x i g =
     (let e = g_heap g ! i in
      if e_type e = ''SRVENTRY'' \<and> e_service e = irqService \<and> e_service e \<noteq> x_srvkey x
      then Inr (g\<lparr>g_starti := e_cycles e, g_toDeduct := g_toDeduct g + (e_cycles e - e_cycles e)\<rparr>)
      else if e_type e = ''HIRQENTRY'' \<and> \<not> own_irq x e then Inr (g\<lparr>g_startii := e_cycles e\<rparr>)
      else if e_type e = ''HIRQEXIT'' \<and> \<not> own_irq x e
      then Inr (g\<lparr>g_toDeduct := g_toDeduct g + (e_cycles e - g_startii g)\<rparr>)
      else bind_outcome (ev_loopstart_own x e g) (\<lambda>g.
           bind_outcome (ev_loopstart x e (ev_start x e g)) (\<lambda>g.
           bind_outcome (ev_threadcond x e (ev_queuecond x e (ev_queue x i e (ev_pktextr x e (ev_temp x e (ev_sync x e
             (ev_tempsynch x e (ev_restart x e (ev_stop x e g))))))))) (\<lambda>g.
           bind_outcome (ev_statecond x e g) (\<lambda>g.
             Inr (ev_tail x e (ev_ttwakeup x e (ev_loopstop x e (ev_return x e (ev_call x e (ev_peustart x e g))))))))))) "

text \<open>One instance: the variables start anew, the heap and the profiles are kept.\<close>

definition sig_vars :: "ana_entry list \<Rightarrow> profile \<Rightarrow> sigst" where
  "sig_vars h p =
     \<lparr>g_toDeduct = 0, g_starti = 0, g_startii = 0, g_lastEvent = 0, g_sig = \<lparr>s_events = [], s_duration = []\<rparr>,
      g_didSleep = False, g_prev = [], g_heap = h, g_profiles = p\<rparr>"

definition sig_instance :: "sigctx \<Rightarrow> leu_entry \<Rightarrow> ana_entry list \<times> profile \<Rightarrow> (ana_entry list \<times> profile) outcome" where
  "sig_instance x inst hp =
     bind_outcome (fold_outcome (sig_step x) (le_entries inst) (sig_vars (fst hp) (snd hp)))
       (\<lambda>g. Inr (g_heap g, g_profiles g))"

definition createSignatures :: "(leu \<times> string) list \<Rightarrow> ana_run \<Rightarrow> (ana_entry list \<times> profile) outcome" where
  "createSignatures keys r =
     fold_outcome (\<lambda>(l, f) hp.
       fold_outcome (sig_instance \<lparr>x_addr_map = addr_map r, x_addr_map_synch = addr_map_synch r,
           x_longest = longestLocationString r, x_pid = leu_pid l, x_srvkey = f\<rparr>)
         (case leus (ar_state r) l of None \<Rightarrow> [] | Some m \<Rightarrow> (case m f of None \<Rightarrow> [] | Some is \<Rightarrow> is)) hp)
       keys (heap (ar_state r), Map.empty)"

section \<open>The signature files\<close>

text \<open>
  The text of a signature: \<open>avg\<close> and \<open>sd\<close> are the averages and deviations by position, cut to
  integers. The second component lists the positions read.
\<close>

fun sig_parts :: "(nat \<Rightarrow> int) \<Rightarrow> (nat \<Rightarrow> int) \<Rightarrow> string list \<Rightarrow> nat \<Rightarrow> string \<times> nat list" where
  "sig_parts avg sd [] delayInd = ([], [])"
| "sig_parts avg sd (part # parts) delayInd =
     (let peu = contains part ''PEUSTART'';
          d = (if peu then Suc delayInd else delayInd);
          more = (parts \<noteq> []);
          (rest, used) = sig_parts avg sd parts (Suc d)
      in (part @ (if peu then '' '' @ itoa (avg delayInd) @ '' '' @ itoa (sd delayInd) else []) @ [CHR 0x0A] @
          (if more then ''x                                PROCESS'' @ tab @ tab @ itoa (avg d) @ '' '' @ itoa (sd d) @ [CHR 0x0A] else []) @ rest,
          (if peu then [delayInd] else []) @ (if more then [d] else []) @ used))"

definition sig_file :: "string \<Rightarrow> int \<Rightarrow> int \<Rightarrow> int \<Rightarrow> (nat \<Rightarrow> int) \<Rightarrow> (nat \<Rightarrow> int) \<Rightarrow> string list \<Rightarrow> string" where
  "sig_file serviceName percent cnt tot avg sd events =
     ''SIGSTART'' @ [CHR 0x0A] @ ''NAME '' @ serviceName @ [CHR 0x0A] @ ''PEU cpu'' @ [CHR 0x0A] @
     ''RESOURCES cycles normal'' @ [CHR 0x0A] @
     ''FRACTION '' @ itoa percent @ ''%  '' @ itoa cnt @ '' '' @ itoa tot @ [CHR 0x0A, CHR 0x0A] @
     fst (sig_parts avg sd events 0) @ ''SIGEND'' @ [CHR 0x0A, CHR 0x0A]"

definition signature_count :: "string list \<Rightarrow> (string \<Rightarrow> collection option) \<Rightarrow> nat" where
  "signature_count ks p = sum_list (map (\<lambda>k. case p k of None \<Rightarrow> 0 | Some c \<Rightarrow> length (c_durations c)) ks)"

section \<open>Events and durations stay aligned\<close>

definition balance :: "sigst \<Rightarrow> int" where
  "balance g = int (length (s_events (g_sig g))) - int (length (s_duration (g_sig g)))"

named_theorems balance_simps

lemma balance_prims [balance_simps]:
  "balance (append_ev s g) = balance g + 1" "balance (add_dur d g) = balance g - 1" "balance (timed e g) = balance g - 1"
  "balance (at_event e g) = balance g" "balance (no_deduct g) = balance g" "balance (put_sig x g) = balance g"
  by (simp_all add: balance_def append_ev_def add_dur_def timed_def at_event_def no_deduct_def put_sig_def
      sig_Append_def sig_AddDuration_def)

lemma balance_fields [balance_simps]:
  "balance (g\<lparr>g_toDeduct := d\<rparr>) = balance g" "balance (g\<lparr>g_starti := d\<rparr>) = balance g"
  "balance (g\<lparr>g_startii := d\<rparr>) = balance g" "balance (g\<lparr>g_didSleep := b\<rparr>) = balance g"
  "balance (g\<lparr>g_prev := s\<rparr>) = balance g" "balance (g\<lparr>g_heap := h\<rparr>) = balance g"
  by (simp_all add: balance_def)

text \<open>An entry that starts the service adds an event only; the start of a peripheral adds two durations.\<close>

definition starts :: "sigctx \<Rightarrow> ana_entry \<Rightarrow> int" where
  "starts x e = (if is_start x e \<or> e_type e = ''LOOPSTART'' \<and> e_location e = x_srvkey x then 1 else 0)"

definition peus :: "ana_entry \<Rightarrow> int" where
  "peus e = (if e_type e = ''PEUSTART'' then 1 else 0)"

lemma balance_evs [balance_simps]:
  "balance (ev_stop x e g) = balance g" "balance (ev_restart x e g) = balance g" "balance (ev_tempsynch x e g) = balance g"
  "balance (ev_sync x e g) = balance g" "balance (ev_temp x e g) = balance g" "balance (ev_pktextr x e g) = balance g"
  "balance (ev_queuecond x e g) = balance g" "balance (ev_call x e g) = balance g" "balance (ev_return x e g) = balance g"
  "balance (ev_loopstop x e g) = balance g" "balance (ev_ttwakeup x e g) = balance g" "balance (ev_tail x e g) = balance g"
  "balance (ev_queue x i e g) = balance g" "balance (ev_peustart x e g) = balance g - peus e"
  "balance (ev_start x e g) = balance g + (if is_start x e then 1 else 0)"
  by (simp_all add: ev_stop_def ev_restart_def ev_tempsynch_def ev_sync_def ev_temp_def ev_pktextr_def ev_queuecond_def
      ev_call_def ev_return_def ev_loopstop_def ev_ttwakeup_def ev_tail_def ev_queue_def ev_peustart_def ev_start_def
      peus_def Let_def balance_simps)

lemma balance_partial:
  "ev_loopstart_own x e g = Inr g' \<Longrightarrow> balance g' = balance g + (if e_type e = ''LOOPSTART'' \<and> e_location e = x_srvkey x then 1 else 0)"
  "ev_loopstart x e g = Inr g' \<Longrightarrow> balance g' = balance g"
  "ev_threadcond x e g = Inr g' \<Longrightarrow> balance g' = balance g"
  "ev_statecond x e g = Inr g' \<Longrightarrow> balance g' = balance g"
  by (auto simp: ev_loopstart_own_def ev_loopstart_def ev_threadcond_def ev_statecond_def bind_outcome_eq_Inr balance_simps
      split: if_splits)

lemma sig_step_balance:
  assumes "sig_step x i g = Inr g'"
  shows "balance g' = balance g + starts x (g_heap g ! i) - peus (g_heap g ! i)"
proof -
  let ?e = "g_heap g ! i"
  have excl: "\<not> (is_start x ?e \<and> e_type ?e = ''LOOPSTART'')" by (auto simp: is_start_def)
  show ?thesis
  proof (cases "e_type ?e = ''SRVENTRY'' \<and> e_service ?e = irqService \<and> e_service ?e \<noteq> x_srvkey x \<or>
      e_type ?e = ''HIRQENTRY'' \<and> \<not> own_irq x ?e \<or> e_type ?e = ''HIRQEXIT'' \<and> \<not> own_irq x ?e")
    case True
    then have "starts x ?e = 0" "peus ?e = 0" by (auto simp: starts_def peus_def is_start_def)
    then show ?thesis using assms True by (auto simp: sig_step_def Let_def balance_simps split: if_splits)
  next
    case False
    then obtain g1 g2 g3 g4 where g: "ev_loopstart_own x ?e g = Inr g1" "ev_loopstart x ?e (ev_start x ?e g1) = Inr g2"
        "ev_threadcond x ?e (ev_queuecond x ?e (ev_queue x i ?e (ev_pktextr x ?e (ev_temp x ?e (ev_sync x ?e
             (ev_tempsynch x ?e (ev_restart x ?e (ev_stop x ?e g2)))))))) = Inr g3"
        "ev_statecond x ?e g3 = Inr g4"
        "g' = ev_tail x ?e (ev_ttwakeup x ?e (ev_loopstop x ?e (ev_return x ?e (ev_call x ?e (ev_peustart x ?e g4)))))"
      using assms by (auto simp: sig_step_def Let_def bind_outcome_eq_Inr)
    show ?thesis using balance_partial(1) [OF g(1)] balance_partial(2) [OF g(2)] balance_partial(3) [OF g(3)]
        balance_partial(4) [OF g(4)] g(5) excl by (auto simp: balance_simps starts_def)
  qed
qed

named_theorems heap_simps

lemma heap_prims [heap_simps]:
  "g_heap (append_ev s g) = g_heap g" "g_heap (add_dur d g) = g_heap g" "g_heap (timed e g) = g_heap g"
  "g_heap (at_event e g) = g_heap g" "g_heap (no_deduct g) = g_heap g" "g_heap (put_sig x g) = g_heap g"
  by (simp_all add: append_ev_def add_dur_def timed_def at_event_def no_deduct_def put_sig_def)

lemma heap_evs [heap_simps]:
  "g_heap (ev_stop x e g) = g_heap g" "g_heap (ev_restart x e g) = g_heap g" "g_heap (ev_tempsynch x e g) = g_heap g"
  "g_heap (ev_sync x e g) = g_heap g" "g_heap (ev_temp x e g) = g_heap g" "g_heap (ev_pktextr x e g) = g_heap g"
  "g_heap (ev_queuecond x e g) = g_heap g" "g_heap (ev_call x e g) = g_heap g" "g_heap (ev_return x e g) = g_heap g"
  "g_heap (ev_loopstop x e g) = g_heap g" "g_heap (ev_ttwakeup x e g) = g_heap g" "g_heap (ev_tail x e g) = g_heap g"
  "g_heap (ev_peustart x e g) = g_heap g" "g_heap (ev_start x e g) = g_heap g"
  by (simp_all add: ev_stop_def ev_restart_def ev_tempsynch_def ev_sync_def ev_temp_def ev_pktextr_def ev_queuecond_def
      ev_call_def ev_return_def ev_loopstop_def ev_ttwakeup_def ev_tail_def ev_peustart_def ev_start_def heap_simps)

lemma heap_partial:
  "ev_loopstart_own x e g = Inr g' \<Longrightarrow> g_heap g' = g_heap g" "ev_loopstart x e g = Inr g' \<Longrightarrow> g_heap g' = g_heap g"
  "ev_threadcond x e g = Inr g' \<Longrightarrow> g_heap g' = g_heap g" "ev_statecond x e g = Inr g' \<Longrightarrow> g_heap g' = g_heap g"
  by (auto simp: ev_loopstart_own_def ev_loopstart_def ev_threadcond_def ev_statecond_def bind_outcome_eq_Inr heap_simps
      split: if_splits)

lemma heap_queue: "\<exists>e'. g_heap (ev_queue x i e g) = (g_heap g)[i := e'] \<or> g_heap (ev_queue x i e g) = g_heap g"
  by (auto simp: ev_queue_def Let_def heap_simps)

lemma sig_step_heap:
  assumes "sig_step x i g = Inr g'" "j \<noteq> i"
  shows "g_heap g' ! j = g_heap g ! j"
proof -
  let ?e = "g_heap g ! i"
  show ?thesis
  proof (cases "e_type ?e = ''SRVENTRY'' \<and> e_service ?e = irqService \<and> e_service ?e \<noteq> x_srvkey x \<or>
      e_type ?e = ''HIRQENTRY'' \<and> \<not> own_irq x ?e \<or> e_type ?e = ''HIRQEXIT'' \<and> \<not> own_irq x ?e")
    case True
    then show ?thesis using assms by (auto simp: sig_step_def Let_def split: if_splits)
  next
    case False
    let ?before = "\<lambda>g. ev_pktextr x ?e (ev_temp x ?e (ev_sync x ?e (ev_tempsynch x ?e (ev_restart x ?e (ev_stop x ?e g)))))"
    obtain g1 g2 g3 g4 where g: "ev_loopstart_own x ?e g = Inr g1" "ev_loopstart x ?e (ev_start x ?e g1) = Inr g2"
        "ev_threadcond x ?e (ev_queuecond x ?e (ev_queue x i ?e (?before g2))) = Inr g3"
        "ev_statecond x ?e g3 = Inr g4"
        "g' = ev_tail x ?e (ev_ttwakeup x ?e (ev_loopstop x ?e (ev_return x ?e (ev_call x ?e (ev_peustart x ?e g4)))))"
      using assms False by (auto simp: sig_step_def Let_def bind_outcome_eq_Inr)
    have "g_heap (?before g2) = g_heap g" using heap_partial(1) [OF g(1)] heap_partial(2) [OF g(2)] by (simp add: heap_simps)
    moreover have "g_heap g' = g_heap (ev_queue x i ?e (?before g2))"
      using heap_partial(3) [OF g(3)] heap_partial(4) [OF g(4)] g(5) by (simp add: heap_simps)
    ultimately show ?thesis using heap_queue [of x i ?e "?before g2"] assms(2) by auto
  qed
qed

lemma sig_run_balance:
  "fold_outcome (sig_step x) ids g = Inr g' \<Longrightarrow> distinct ids \<Longrightarrow>
   balance g' = balance g + (\<Sum>i\<leftarrow>ids. starts x (g_heap g ! i)) - (\<Sum>i\<leftarrow>ids. peus (g_heap g ! i))"
proof (induction ids arbitrary: g)
  case (Cons i ids)
  then obtain g1 where g1: "sig_step x i g = Inr g1" "fold_outcome (sig_step x) ids g1 = Inr g'"
    by (auto simp: bind_outcome_eq_Inr)
  have "g_heap g1 ! j = g_heap g ! j" if "j \<in> set ids" for j
    using that Cons.prems(2) sig_step_heap [OF g1(1), of j] by auto
  then have "(\<Sum>i\<leftarrow>ids. starts x (g_heap g1 ! i)) = (\<Sum>i\<leftarrow>ids. starts x (g_heap g ! i))"
    "(\<Sum>i\<leftarrow>ids. peus (g_heap g1 ! i)) = (\<Sum>i\<leftarrow>ids. peus (g_heap g ! i))" by (simp_all cong: map_cong)
  then show ?case using Cons.IH [OF g1(2)] Cons.prems(2) sig_step_balance [OF g1(1)] by simp
qed simp

lemma sig_parts_used:
  "evs \<noteq> [] \<Longrightarrow> snd (sig_parts avg sd evs d) =
     [d..<d + (length evs - 1) + length (filter (\<lambda>ev. contains ev ''PEUSTART'') evs)]"
proof (induction evs arbitrary: d)
  case (Cons p evs)
  let ?peu = "contains p ''PEUSTART''"
  obtain rest used where r: "sig_parts avg sd evs (Suc (if ?peu then Suc d else d)) = (rest, used)" by fastforce
  show ?case
  proof (cases "evs = []")
    case True
    then show ?thesis using r by auto
  next
    case False
    let ?n = "length (filter (\<lambda>ev. contains ev ''PEUSTART'') evs)"
    have used: "used = [Suc (if ?peu then Suc d else d)..<Suc (if ?peu then Suc d else d) + (length evs - 1) + ?n]"
      using Cons.IH [OF False, of "Suc (if ?peu then Suc d else d)"] r by simp
    have ev: "Suc (length evs - 1) = length evs" "0 < length evs" using False by simp_all
    show ?thesis
    proof (cases ?peu)
      case True
      have "[d..<d + length evs + Suc ?n] = d # Suc d # [Suc (Suc d)..<d + length evs + Suc ?n]"
        using upt_conv_Cons [of d "d + length evs + Suc ?n"] upt_conv_Cons [of "Suc d" "d + length evs + Suc ?n"] ev(2) by simp
      then show ?thesis using True False r used ev by (auto simp: Let_def)
    next
      case no: False
      have "[d..<d + length evs + ?n] = d # [Suc d..<d + length evs + ?n]" using ev(2) by (intro upt_conv_Cons) linarith
      then show ?thesis using no False r used ev by (auto simp: Let_def)
    qed
  qed
qed simp

text \<open>
  Alignment of a signature file (C12): for an instance in which exactly one entry starts the service,
  and in which the events that mention \<open>PEUSTART\<close> are as many as the entries of that type, the file
  reads every duration of the signature exactly once and in order, none is missing and none is left
  over.
\<close>

theorem signature_aligned:
  assumes "fold_outcome (sig_step x) ids (sig_vars h p) = Inr g" "distinct ids"
    and "(\<Sum>i\<leftarrow>ids. starts x (h ! i)) = 1"
    and "int (length (filter (\<lambda>ev. contains ev ''PEUSTART'') (s_events (g_sig g)))) = (\<Sum>i\<leftarrow>ids. peus (h ! i))"
  shows "snd (sig_parts avg sd (s_events (g_sig g)) 0) = [0..<length (s_duration (g_sig g))]"
proof -
  let ?evs = "s_events (g_sig g)" and ?n = "length (filter (\<lambda>ev. contains ev ''PEUSTART'') (s_events (g_sig g)))"
  have "balance g = 1 - int ?n"
    using sig_run_balance [OF assms(1,2)] assms(3,4) by (simp add: sig_vars_def balance_def)
  then have len: "int (length ?evs) + int ?n = 1 + int (length (s_duration (g_sig g)))" by (simp add: balance_def)
  have "?evs \<noteq> []"
  proof
    assume "?evs = []"
    then show False using len by simp
  qed
  moreover from this have "length ?evs - 1 + ?n = length (s_duration (g_sig g))" using len by (cases ?evs) auto
  ultimately show ?thesis using sig_parts_used [of ?evs avg sd 0] by simp
qed

definition sig_ctx1 :: sigctx where
  "sig_ctx1 = \<lparr>x_addr_map = Map.empty, x_addr_map_synch = Map.empty, x_longest = 4, x_pid = 7, x_srvkey = ''f''\<rparr>"

definition sig_heap1 :: "ana_entry list" where
  "sig_heap1 = [entry0\<lparr>e_type := ''SRVENTRY'', e_service := ''f'', e_cycles := 10\<rparr>,
     entry0\<lparr>e_type := ''SEMUP'', e_service := ''s'', e_location := ''loc'', e_cycles := 15\<rparr>,
     entry0\<lparr>e_type := ''SRVEXIT'', e_service := ''f'', e_cycles := 27\<rparr>]"

theorem signature_aligned_witness:
  "\<exists>g. fold_outcome (sig_step sig_ctx1) [0, 1, 2] (sig_vars sig_heap1 Map.empty) = Inr g \<and> s_duration (g_sig g) = [5, 12] \<and>
     snd (sig_parts (\<lambda>_. 0) (\<lambda>_. 0) (s_events (g_sig g)) 0) = [0, 1]"
proof -
  have "case fold_outcome (sig_step sig_ctx1) [0, 1, 2] (sig_vars sig_heap1 Map.empty) of
      Inl _ \<Rightarrow> False
    | Inr g \<Rightarrow> s_duration (g_sig g) = [5, 12] \<and> filter (\<lambda>ev. contains ev ''PEUSTART'') (s_events (g_sig g)) = []"
    by code_simp
  then obtain g where g: "fold_outcome (sig_step sig_ctx1) [0, 1, 2] (sig_vars sig_heap1 Map.empty) = Inr g"
      "s_duration (g_sig g) = [5, 12]" "filter (\<lambda>ev. contains ev ''PEUSTART'') (s_events (g_sig g)) = []"
    by (auto split: sum.splits)
  have "snd (sig_parts (\<lambda>_. 0) (\<lambda>_. 0) (s_events (g_sig g)) 0) = [0..<length (s_duration (g_sig g))]"
    by (rule signature_aligned [OF g(1)])
      (simp_all add: g(3) starts_def peus_def is_start_def sig_heap1_def sig_ctx1_def entry0_def)
  then show ?thesis using g by (simp add: upt_rec)
qed

end
