(* ===== verification/AnalyseView.thy ===== *)
theory AnalyseView
  imports Analyse
begin

text \<open>
  A view of the analyser's state in which the frames of the service stacks and the recorded instances
  hold the entries themselves instead of pointers, and the operations of the view that the stack
  operations implement.
\<close>

section \<open>The view\<close>

type_synonym vframe = "string \<times> ana_entry list"

record view =
  v_leu :: "int \<Rightarrow> leu option"
  v_stk :: "int \<Rightarrow> leu \<Rightarrow> vframe list"
  v_int :: "leu list"
  v_done :: "leu \<Rightarrow> string \<Rightarrow> ana_entry list list"

definition frames :: "ana_entry list \<Rightarrow> svc list option \<Rightarrow> vframe list" where
  "frames h st = (case st of None \<Rightarrow> [] | Some ss \<Rightarrow> map (\<lambda>sv. (sv_name sv, map ((!) h) (sv_entries sv))) ss)"

definition instances :: "ana_entry list \<Rightarrow> leu_entry list option \<Rightarrow> ana_entry list list" where
  "instances h es = (case es of None \<Rightarrow> [] | Some ls \<Rightarrow> map (\<lambda>x. map ((!) h) (le_entries x)) ls)"

definition get2 :: "('a \<Rightarrow> ('b \<Rightarrow> 'c option) option) \<Rightarrow> 'a \<Rightarrow> 'b \<Rightarrow> 'c option" where
  "get2 m a b = (case m a of None \<Rightarrow> None | Some n \<Rightarrow> n b)"

definition view_of :: "ana \<Rightarrow> view" where
  "view_of s = \<lparr>
     v_leu = cur_leu s,
     v_stk = (\<lambda>cpu l. frames (heap s) (get2 (stacks s) cpu l)),
     v_int = interrupted s,
     v_done = (\<lambda>l f. instances (heap s) (get2 (leus s) l f))\<rparr>"

definition v_cur :: "int \<Rightarrow> view \<Rightarrow> leu" where
  "v_cur cpu v = (case v_leu v cpu of None \<Rightarrow> LEU [] 0 | Some l \<Rightarrow> l)"

definition v_top :: "int \<Rightarrow> view \<Rightarrow> vframe list" where
  "v_top cpu v = v_stk v cpu (v_cur cpu v)"

definition v_put :: "int \<Rightarrow> vframe list \<Rightarrow> view \<Rightarrow> view" where
  "v_put cpu st v = v\<lparr>v_stk := (v_stk v)(cpu := (v_stk v cpu)(v_cur cpu v := st))\<rparr>"

text \<open>An entry is noted in the service on top, if there is one.\<close>

definition note_top :: "ana_entry list \<Rightarrow> vframe list \<Rightarrow> vframe list" where
  "note_top es st = (if st = [] then [] else butlast st @ [(fst (last st), snd (last st) @ es)])"

definition v_note :: "ana_entry \<Rightarrow> view \<Rightarrow> view" where
  "v_note e v = v_put (e_cpu e) (note_top [e] (v_top (e_cpu e) v)) v"

definition v_enter :: "ana_entry \<Rightarrow> string \<Rightarrow> view \<Rightarrow> view" where
  "v_enter e f v =
     (let v' = (if contains (e_location e) ''irq_exit'' then v else v_note e v) in
      v_put (e_cpu e) (v_top (e_cpu e) v' @ [(f, [e])]) v')"

definition v_record :: "leu \<Rightarrow> vframe \<Rightarrow> view \<Rightarrow> view" where
  "v_record l fr v = v\<lparr>v_done := (v_done v)(l := (v_done v l)(fst fr := v_done v l (fst fr) @ [snd fr]))\<rparr>"

definition v_exit :: "ana_entry \<Rightarrow> view \<Rightarrow> view" where
  "v_exit e v =
     (let cpu = e_cpu e; st = v_top cpu (v_note e v) in
      if st = [] then v
      else v_note e (v_record (v_cur cpu v) (last st) (v_put cpu (butlast st) v)))"

section \<open>Well-formed states\<close>

definition ids_ok :: "ana \<Rightarrow> bool" where
  "ids_ok s \<longleftrightarrow>
     (\<forall>cpu l st sv i. get2 (stacks s) cpu l = Some st \<longrightarrow> sv \<in> set st \<longrightarrow> i \<in> set (sv_entries sv) \<longrightarrow>
        i < length (heap s)) \<and>
     (\<forall>l f es x i. get2 (leus s) l f = Some es \<longrightarrow> x \<in> set es \<longrightarrow> i \<in> set (le_entries x) \<longrightarrow>
        i < length (heap s))"

lemma get2_upd:
  "m a = Some n \<Longrightarrow> get2 (m(a \<mapsto> n(b := x))) = (get2 m)(a := (get2 m a)(b := x))"
  by (auto simp: get2_def fun_eq_iff)

lemma get2_new: "m a = None \<Longrightarrow> get2 (m(a \<mapsto> Map.empty)) = get2 m"
  by (auto simp: get2_def fun_eq_iff)

lemma frames_append:
  assumes "\<And>st sv i. x = Some st \<Longrightarrow> sv \<in> set st \<Longrightarrow> i \<in> set (sv_entries sv) \<Longrightarrow> i < length h"
  shows "frames (h @ h') x = frames h x"
  using assms by (cases x) (auto simp: frames_def nth_append)

lemma instances_append:
  assumes "\<And>st sv i. x = Some st \<Longrightarrow> sv \<in> set st \<Longrightarrow> i \<in> set (le_entries sv) \<Longrightarrow> i < length h"
  shows "instances (h @ h') x = instances h x"
  using assms by (cases x) (auto simp: instances_def nth_append)

lemma view_of_heap_append:
  assumes "ids_ok s" shows "view_of (s\<lparr>heap := heap s @ h\<rparr>) = view_of s"
proof -
  have "frames (heap s @ h) (get2 (stacks s) cpu l) = frames (heap s) (get2 (stacks s) cpu l)" for cpu l
    using assms by (intro frames_append) (auto simp: ids_ok_def)
  moreover have "instances (heap s @ h) (get2 (leus s) l f) = instances (heap s) (get2 (leus s) l f)" for l f
    using assms by (intro instances_append) (auto simp: ids_ok_def)
  ultimately show ?thesis by (simp add: view_of_def)
qed

lemma ids_ok_heap_append: "ids_ok s \<Longrightarrow> ids_ok (s\<lparr>heap := heap s @ h\<rparr>)"
  by (fastforce simp: ids_ok_def)

lemma ids_ok_cong:
  "length (heap s') = length (heap s) \<Longrightarrow> get2 (stacks s') = get2 (stacks s) \<Longrightarrow> get2 (leus s') = get2 (leus s) \<Longrightarrow>
   ids_ok s' = ids_ok s"
  by (simp add: ids_ok_def)

section \<open>The stack operations keep to the view\<close>

lemma view_sel [simp]:
  "v_leu (view_of s) = cur_leu s" "v_int (view_of s) = interrupted s"
  "v_cur cpu (view_of s) = GetCurrentLEU cpu s"
  by (simp_all add: view_of_def v_cur_def GetCurrentLEU_def)

lemma view_of_cong:
  "heap s' = heap s \<Longrightarrow> get2 (stacks s') = get2 (stacks s) \<Longrightarrow> get2 (leus s') = get2 (leus s) \<Longrightarrow>
   cur_leu s' = cur_leu s \<Longrightarrow> interrupted s' = interrupted s \<Longrightarrow> view_of s' = view_of s"
  by (simp add: view_of_def)

lemma ensure_stacks_simps [simp]:
  "heap (ensure_stacks cpu s) = heap s" "cur_leu (ensure_stacks cpu s) = cur_leu s"
  "leus (ensure_stacks cpu s) = leus s" "interrupted (ensure_stacks cpu s) = interrupted s"
  "peu_start (ensure_stacks cpu s) = peu_start s" "temps (ensure_stacks cpu s) = temps s" "ent (ensure_stacks cpu s) i = ent s i"
  "GetCurrentLEU c (ensure_stacks cpu s) = GetCurrentLEU c s"
  by (auto simp: ensure_stacks_def ent_def GetCurrentLEU_def split: option.split)

lemma ensure_stacks_get2 [simp]: "get2 (stacks (ensure_stacks cpu s)) = get2 (stacks s)"
  by (auto simp: ensure_stacks_def get2_new split: option.split)

lemma ensure_stacks_view [simp]: "view_of (ensure_stacks cpu s) = view_of s"
  by (intro view_of_cong) simp_all

lemma ids_ok_ensure [simp]: "ids_ok (ensure_stacks cpu s) = ids_ok s"
  by (intro ids_ok_cong) simp_all

lemma ensured: "\<exists>m. stacks (ensure_stacks cpu s) cpu = Some m"
  by (auto simp: ensure_stacks_def split: option.split)

lemma stack_of_get2: "stack_of cpu s = (case get2 (stacks s) cpu (GetCurrentLEU cpu s) of None \<Rightarrow> [] | Some st \<Rightarrow> st)"
  by (auto simp: stack_of_def get2_def split: option.split)

lemma stack_of_ensure [simp]: "stack_of c (ensure_stacks cpu s) = stack_of c s"
  by (simp add: stack_of_get2)

lemma stack_of_view: "v_top cpu (view_of s) = frames (heap s) (Some (stack_of cpu s))"
  by (auto simp: v_top_def view_of_def stack_of_get2 frames_def v_cur_def GetCurrentLEU_def split: option.split)

lemma put_stack_ok:
  assumes "stacks s cpu = Some m"
  shows "put_stack cpu st s = Inr (s\<lparr>stacks := (stacks s)(cpu \<mapsto> m(GetCurrentLEU cpu s \<mapsto> st))\<rparr>)"
  using assms by (simp add: put_stack_def)

lemma put_stack_view:
  assumes "stacks s cpu = Some m"
  shows "view_of (s\<lparr>stacks := (stacks s)(cpu \<mapsto> m(GetCurrentLEU cpu s \<mapsto> st))\<rparr>) =
    v_put cpu (frames (heap s) (Some st)) (view_of s)"
proof -
  have "v_put cpu fr (view_of s) = (view_of s)\<lparr>v_stk := (v_stk (view_of s))(cpu :=
      (v_stk (view_of s) cpu)(GetCurrentLEU cpu s := fr))\<rparr>" for fr
    by (simp add: v_put_def)
  then show ?thesis using assms by (auto simp: view_of_def get2_upd fun_eq_iff)
qed

lemma put_stack_ids:
  assumes "ids_ok s" "stacks s cpu = Some m" "\<And>sv i. sv \<in> set st \<Longrightarrow> i \<in> set (sv_entries sv) \<Longrightarrow> i < length (heap s)"
  shows "ids_ok (s\<lparr>stacks := (stacks s)(cpu \<mapsto> m(GetCurrentLEU cpu s \<mapsto> st))\<rparr>)"
  using assms unfolding ids_ok_def by (auto simp: get2_upd split: if_splits)

lemma stack_of_ids:
  assumes "ids_ok s" "sv \<in> set (stack_of cpu s)" "i \<in> set (sv_entries sv)"
  shows "i < length (heap s)"
  using assms by (cases "get2 (stacks s) cpu (GetCurrentLEU cpu s)") (auto simp: ids_ok_def stack_of_get2)

text \<open>How an operation leaves the state: it may add entries to the heap, never change or drop one.\<close>

definition grows :: "ana \<Rightarrow> ana \<Rightarrow> bool" where
  "grows s s' \<longleftrightarrow> ids_ok s' \<and> (\<exists>h. heap s' = heap s @ h) \<and> peu_start s' = peu_start s \<and> temps s' = temps s"

lemma grows_trans: "grows s s' \<Longrightarrow> grows s' s'' \<Longrightarrow> grows s s''"
  by (auto simp: grows_def)

lemma grows_ids: "grows s s' \<Longrightarrow> ids_ok s'"
  by (simp add: grows_def)

lemma grows_peu: "grows s s' \<Longrightarrow> peu_start s' = peu_start s \<and> temps s' = temps s"
  by (simp add: grows_def)

lemma grows_ent: "grows s s' \<Longrightarrow> i < length (heap s) \<Longrightarrow> ent s' i = ent s i \<and> i < length (heap s')"
  by (auto simp: grows_def ent_def nth_append)

lemma grows_same: "ids_ok s \<Longrightarrow> heap s' = heap s \<Longrightarrow> get2 (stacks s') = get2 (stacks s) \<Longrightarrow>
  get2 (leus s') = get2 (leus s) \<Longrightarrow> peu_start s' = peu_start s \<Longrightarrow> temps s' = temps s \<Longrightarrow> grows s s'"
  unfolding grows_def using ids_ok_cong [of s' s] by simp

lemma alloc_grows:
  assumes "ids_ok s" "alloc e s = (i, s')"
  shows "grows s s'" "view_of s' = view_of s" "ent s' i = e" "i < length (heap s')" "i = length (heap s)"
  using assms by (auto simp: alloc_def grows_def ids_ok_heap_append view_of_heap_append ent_def)

lemma frames_butlast_last:
  "st \<noteq> [] \<Longrightarrow> frames h (Some (butlast st @ [(last st)\<lparr>sv_entries := sv_entries (last st) @ [i]\<rparr>])) =
     note_top [h ! i] (frames h (Some st))"
  by (auto simp: frames_def note_top_def map_butlast last_map)

lemma PushEntry_does:
  assumes s: "ids_ok s" "i < length (heap s)" "stack_of (e_cpu (ent s i)) s \<noteq> []"
  shows "\<exists>s'. PushEntry i s = Inr s' \<and> grows s s' \<and> heap s' = heap s \<and> view_of s' = v_note (ent s i) (view_of s)"
proof -
  let ?cpu = "e_cpu (ent s i)" and ?s = "ensure_stacks (e_cpu (ent s i)) s"
  let ?st = "stack_of ?cpu s"
  let ?st' = "butlast ?st @ [(last ?st)\<lparr>sv_entries := sv_entries (last ?st) @ [i]\<rparr>]"
  obtain m where m: "stacks ?s ?cpu = Some m" using ensured by blast
  let ?s1 = "?s\<lparr>stacks := (stacks ?s)(?cpu \<mapsto> m(GetCurrentLEU ?cpu ?s \<mapsto> ?st'))\<rparr>"
  have run: "PushEntry i s = Inr (?s1\<lparr>last_appended := Some i\<rparr>)"
    using s(3) put_stack_ok [OF m] by (simp add: PushEntry_def Let_def)
  have in_st: "j < length (heap ?s)" if "sv \<in> set ?st'" "j \<in> set (sv_entries sv)" for sv j
    using that s(2) stack_of_ids [OF s(1), of _ ?cpu] stack_of_ids [OF s(1) last_in_set [OF s(3)]]
    by (auto dest: in_set_butlastD)
  have ids: "ids_ok ?s1" using s(1) by (intro put_stack_ids [OF _ m in_st]) simp_all
  have "view_of ?s1 = v_note (ent s i) (view_of s)"
    using put_stack_view [OF m, of ?st'] frames_butlast_last [OF s(3), of "heap s" i]
    by (simp add: v_note_def stack_of_view ent_def)
  then have "view_of (?s1\<lparr>last_appended := Some i\<rparr>) = v_note (ent s i) (view_of s)"
    by (subst view_of_cong [of _ ?s1]) simp_all
  moreover have "grows s (?s1\<lparr>last_appended := Some i\<rparr>)"
    using ids ids_ok_cong [of "?s1\<lparr>last_appended := Some i\<rparr>" ?s1] by (simp add: grows_def)
  ultimately show ?thesis using run by simp
qed

lemma v_put_same [simp]: "v_put cpu (v_top cpu v) v = v"
  by (simp add: v_put_def v_top_def)

lemma v_note_empty: "v_top (e_cpu e) v = [] \<Longrightarrow> v_note e v = v"
  using v_put_same [of "e_cpu e" v] by (simp add: v_note_def note_top_def)

lemma v_top_length: "length (v_top cpu (view_of s)) = length (stack_of cpu s)"
  by (simp add: stack_of_view frames_def)

lemma PushService_does:
  assumes s: "ids_ok s" "i < length (heap s)"
  shows "\<exists>s'. PushService i s = Inr (length (v_top (e_cpu (ent s i)) (view_of s)), s') \<and> grows s s' \<and>
    heap s' = heap s \<and> view_of s' = v_note (ent s i) (view_of s)"
proof (cases "stack_of (e_cpu (ent s i)) s = []")
  case True
  let ?s = "ensure_stacks (e_cpu (ent s i)) s\<lparr>last_appended := Some i\<rparr>"
  have "PushService i s = Inr (0, ?s)" using True by (simp add: PushService_def Let_def)
  moreover have "view_of ?s = view_of s" by (rule view_of_cong) simp_all
  moreover have "grows s ?s" using s(1) by (intro grows_same) simp_all
  moreover have "v_top (e_cpu (ent s i)) (view_of s) = []" using True by (simp add: stack_of_view frames_def)
  ultimately show ?thesis using v_note_empty by simp
next
  case False
  let ?s = "ensure_stacks (e_cpu (ent s i)) s"
  obtain s' where s': "PushEntry i ?s = Inr s'" "grows ?s s'" "heap s' = heap ?s" "view_of s' = v_note (ent s i) (view_of s)"
    using PushEntry_does [of ?s i] s False by auto
  have 1: "PushService i s = Inr (length (stack_of (e_cpu (ent s i)) s), s'\<lparr>last_appended := Some i\<rparr>)"
    using False s'(1) by (simp add: PushService_def Let_def)
  have 2: "view_of (s'\<lparr>last_appended := Some i\<rparr>) = view_of s'" by (rule view_of_cong) simp_all
  have "grows s ?s" using s(1) by (intro grows_same) simp_all
  moreover have "grows s' (s'\<lparr>last_appended := Some i\<rparr>)" using grows_ids [OF s'(2)] by (intro grows_same) simp_all
  ultimately have "grows s (s'\<lparr>last_appended := Some i\<rparr>)" using s'(2) grows_trans by blast
  then show ?thesis using 1 2 s' by (simp add: v_top_length)
qed

lemma v_top_note: "v_top (e_cpu e) (v_note e v) = note_top [e] (v_top (e_cpu e) v)"
  by (simp add: v_note_def v_top_def v_put_def v_cur_def)

lemma PushNewService_does:
  assumes s: "ids_ok s" "i < length (heap s)"
  shows "\<exists>n s'. PushNewService i f s = Inr (n, s') \<and> grows s s' \<and> view_of s' = v_enter (ent s i) f (view_of s) \<and>
    n = length (v_top (e_cpu (ent s i)) (view_of s'))"
proof -
  let ?e = "ent s i" and ?s = "ensure_stacks (e_cpu (ent s i)) s"
  let ?cpu = "e_cpu ?e" and ?quiet = "contains (e_location (ent s i)) ''irq_exit''"
  let ?v = "if ?quiet then view_of s else v_note ?e (view_of s)"
  have g0: "grows s ?s" using s(1) by (intro grows_same) simp_all
  obtain s1 where s1: "(if 0 < length (stack_of ?cpu ?s) \<and> \<not> ?quiet
      then (case alloc ?e ?s of (j, s') \<Rightarrow> PushEntry j s') else Inr ?s) = Inr s1" "grows s s1" "view_of s1 = ?v"
  proof (cases "0 < length (stack_of ?cpu ?s) \<and> \<not> ?quiet")
    case True
    obtain j s' where j: "alloc ?e ?s = (j, s')" by (cases "alloc ?e ?s")
    have ids: "ids_ok ?s" using s(1) by simp
    note a = alloc_grows [OF ids j]
    have "length (stack_of ?cpu s') = length (stack_of ?cpu s)" using a(2) v_top_length [of ?cpu] by (metis ensure_stacks_view)
    then have "stack_of (e_cpu (ent s' j)) s' \<noteq> []" using True a(3) by auto
    then obtain s1 where "PushEntry j s' = Inr s1" "grows s' s1" "view_of s1 = v_note ?e (view_of s)"
      using PushEntry_does [OF grows_ids [OF a(1)] a(4)] a(2,3) by auto
    then show ?thesis using that [of s1] True j a(1) g0 grows_trans by auto
  next
    case False
    then have "?v = view_of s" using v_note_empty [of ?e "view_of s"] by (auto simp: stack_of_view frames_def)
    then show ?thesis using that [of ?s] False g0 by auto
  qed
  obtain m where m: "stacks s1 ?cpu = Some m"
  proof (cases "stacks s1 ?cpu")
    case None
    have "stacks ?s ?cpu \<noteq> None" using ensured by simp
    then show ?thesis using s1(1) None by (auto simp: alloc_def PushEntry_def ensure_stacks_def put_stack_def Let_def split: if_splits option.splits)
  qed simp
  let ?st = "stack_of ?cpu s1 @ [\<lparr>sv_name = f, sv_entries = [], sv_packets = []\<rparr>]"
  let ?s2 = "s1\<lparr>stacks := (stacks s1)(?cpu \<mapsto> m(GetCurrentLEU ?cpu s1 \<mapsto> ?st))\<rparr>"
  note ok1 = grows_ids [OF s1(2)]
  have ids2: "ids_ok ?s2" using stack_of_ids [OF ok1, of _ ?cpu] by (intro put_stack_ids [OF ok1 m]) auto
  have v2: "view_of ?s2 = v_put ?cpu (v_top ?cpu ?v @ [(f, [])]) ?v"
    using put_stack_view [OF m, of ?st] s1(3) stack_of_view [of ?cpu s1] by (simp add: frames_def)
  have g2: "grows s ?s2" using s1(2) ids2 by (auto simp: grows_def)
  have e2: "ent ?s2 i = ?e" using grows_ent [OF g2 s(2)] by simp
  obtain k s3 where k: "alloc ?e ?s2 = (k, s3)" by (cases "alloc ?e ?s2")
  note a = alloc_grows [OF ids2 k]
  obtain n s4 where s4: "PushService k s3 = Inr (n, s4)" "grows s3 s4" "view_of s4 = v_note ?e (view_of s3)"
      "n = length (v_top ?cpu (view_of s4))"
    using PushService_does [OF grows_ids [OF a(1)] a(4)] a(3) by (auto simp: v_top_note note_top_def)
  have "PushNewService i f s = Inr (n, s4)"
    using s1(1) k s4(1) e2 put_stack_ok [OF m, of ?st] by (simp add: PushNewService_def Let_def split del: if_split cong: if_cong)
  moreover have "grows s s4" using g2 a(1) s4(2) grows_trans by blast
  moreover have "view_of s4 = v_enter ?e f (view_of s)"
    using s4(3) a(2) v2 by (simp add: v_enter_def v_note_def Let_def v_put_def v_top_def v_cur_def note_top_def)
  ultimately show ?thesis using s4(4) by blast
qed

lemma PopService_does:
  assumes s: "ids_ok s" "i < length (heap s)" "v_top (e_cpu (ent s i)) (view_of s) \<noteq> []"
  shows "\<exists>sv s'. PopService i s = Inr (sv, s') \<and> grows s s' \<and> heap s' = heap s \<and>
    (sv_name sv, map (ent s) (sv_entries sv)) = last (v_top (e_cpu (ent s i)) (view_of s)) \<and>
    (\<forall>j\<in>set (sv_entries sv). j < length (heap s)) \<and>
    view_of s' = v_put (e_cpu (ent s i)) (butlast (v_top (e_cpu (ent s i)) (view_of s))) (view_of s)"
proof -
  let ?cpu = "e_cpu (ent s i)" and ?s = "ensure_stacks (e_cpu (ent s i)) s"
  let ?st = "stack_of ?cpu s"
  have ne: "?st \<noteq> []" using s(3) v_top_length [of ?cpu s] by auto
  obtain m where m: "stacks ?s ?cpu = Some m" using ensured by blast
  let ?s1 = "?s\<lparr>stacks := (stacks ?s)(?cpu \<mapsto> m(GetCurrentLEU ?cpu ?s \<mapsto> butlast ?st))\<rparr>"
  have "PopService i s = Inr (last ?st, ?s1)"
    using ne put_stack_ok [OF m] by (simp add: PopService_def Let_def)
  moreover have "ids_ok ?s1" using s(1) stack_of_ids [OF s(1), of _ ?cpu]
    by (intro put_stack_ids [OF _ m]) (auto dest: in_set_butlastD)
  moreover have "view_of ?s1 = v_put ?cpu (butlast (v_top ?cpu (view_of s))) (view_of s)"
    using put_stack_view [OF m, of "butlast ?st"] by (simp add: stack_of_view frames_def map_butlast)
  moreover have "(sv_name (last ?st), map (ent s) (sv_entries (last ?st))) = last (v_top ?cpu (view_of s))"
    using ne by (simp add: stack_of_view frames_def last_map ent_def [abs_def])
  moreover have "\<forall>j\<in>set (sv_entries (last ?st)). j < length (heap s)"
    using stack_of_ids [OF s(1) last_in_set [OF ne]] by blast
  ultimately show ?thesis by (auto simp: grows_def)
qed

lemma ensure_leu_simps [simp]:
  "heap (ensure_leu l s) = heap s" "stacks (ensure_leu l s) = stacks s" "cur_leu (ensure_leu l s) = cur_leu s"
  "interrupted (ensure_leu l s) = interrupted s" "peu_start (ensure_leu l s) = peu_start s"
  "temps (ensure_leu l s) = temps s" "get2 (leus (ensure_leu l s)) = get2 (leus s)"
  "GetCurrentLEU c (ensure_leu l s) = GetCurrentLEU c s" "ent (ensure_leu l s) i = ent s i"
  by (auto simp: ensure_leu_def get2_new GetCurrentLEU_def ent_def split: option.split)

lemma ensure_leu_view [simp]: "view_of (ensure_leu l s) = view_of s"
  by (intro view_of_cong) simp_all

lemma ensure_leu_grows: "ids_ok s \<Longrightarrow> grows s (ensure_leu l s)"
  by (intro grows_same) simp_all

lemma ensured_leu: "\<exists>m. leus (ensure_leu l s) l = Some m"
  by (auto simp: ensure_leu_def split: option.split)

lemma PushServiceToLEU_does:
  assumes s: "ids_ok s" "leus s (GetCurrentLEU (e_cpu (ent s i)) s) = Some m"
    and sv: "\<forall>j\<in>set (sv_entries sv). j < length (heap s)"
  shows "\<exists>s'. PushServiceToLEU i sv s = Inr s' \<and> grows s s' \<and> heap s' = heap s \<and>
    view_of s' = v_record (GetCurrentLEU (e_cpu (ent s i)) s) (sv_name sv, map (ent s) (sv_entries sv)) (view_of s)"
proof -
  let ?l = "GetCurrentLEU (e_cpu (ent s i)) s"
  let ?es = "(case m (sv_name sv) of None \<Rightarrow> [] | Some es \<Rightarrow> es) @ [\<lparr>le_entries = sv_entries sv, le_packets = sv_packets sv\<rparr>]"
  let ?s = "s\<lparr>leus := (leus s)(?l \<mapsto> m(sv_name sv \<mapsto> ?es))\<rparr>"
  have m: "get2 (leus s) ?l (sv_name sv) = m (sv_name sv)" using s(2) by (simp add: get2_def)
  note up = get2_upd [where m = "leus s" and a = ?l and n = m, OF s(2)]
  have inst: "instances (heap s) (Some ?es) = instances (heap s) (m (sv_name sv)) @ [map (ent s) (sv_entries sv)]"
    by (cases "m (sv_name sv)") (simp_all add: instances_def ent_def)
  have run: "PushServiceToLEU i sv s = Inr ?s" using s(2) by (simp add: PushServiceToLEU_def Let_def)
  have old: "j < length (heap s)" if "m (sv_name sv) = Some es" "x \<in> set es" "j \<in> set (le_entries x)" for es x j
    using s(1) that m unfolding ids_ok_def by metis
  have new: "j < length (heap s)" if "x \<in> set ?es" "j \<in> set (le_entries x)" for x j
    using that old sv by (cases "m (sv_name sv)") auto
  have "ids_ok ?s" unfolding ids_ok_def
  proof (intro conjI allI impI)
    fix l f es x j assume *: "get2 (leus ?s) l f = Some es" "x \<in> set es" "j \<in> set (le_entries x)"
    show "j < length (heap ?s)"
    proof (cases "l = ?l \<and> f = sv_name sv")
      case True then show ?thesis using * new up by simp
    next
      case False
      then have "get2 (leus s) l f = Some es" using *(1) up by (auto split: if_splits)
      then show ?thesis using s(1) *(2,3) unfolding ids_ok_def by simp
    qed
  qed (use s(1) in \<open>auto simp: ids_ok_def\<close>)
  moreover have "view_of ?s = v_record ?l (sv_name sv, map (ent s) (sv_entries sv)) (view_of s)"
    using inst m by (auto simp: view_of_def v_record_def up fun_eq_iff)
  ultimately show ?thesis using run by (auto simp: grows_def)
qed

end
