(* ===== verification/AnalyseSpec.thy ===== *)
theory AnalyseSpec
  imports AnalyseView
begin

text \<open>
  What the analyser promises for calls, returns, interrupts and context switches: one operation of the
  view for each handler, and the reconstruction of the call tree.
\<close>

section \<open>The handlers keep to the view\<close>

definition v_irq :: "ana_entry \<Rightarrow> leu" where
  "v_irq e = LEU ''Hardware Interrupt'' (e_pid1 e)"

definition v_switch :: "int \<Rightarrow> leu \<Rightarrow> view \<Rightarrow> view" where
  "v_switch cpu l v = v\<lparr>v_leu := (v_leu v)(cpu \<mapsto> l)\<rparr>"

definition noted_types :: "string set" where
  "noted_types = {''QUEUECOND'', ''STATECOND'', ''STATEQUEUE'', ''SLEEP'', ''TTWAKEUP'', ''WAKEUP'',
     ''COMPL'', ''SEMDOWN'', ''SEMUP'', ''WAITCOMPL''}"

definition v_event :: "ana_entry \<Rightarrow> view \<Rightarrow> view" where
  "v_event e v =
     (let cpu = e_cpu e in
      if e_type e = ''CTXSW'' then v_note e (v_switch cpu (LEU ''Thread'' (e_pid2 e)) (v_note e v))
      else if e_type e = ''SRVENTRY'' then v_enter (e\<lparr>e_packet := ''0''\<rparr>) (e_service e) v
      else if e_type e = ''SRVEXIT'' then v_exit e v
      else if e_type e = ''HIRQENTRY'' then
        v_enter e (''HIRQ-'' @ itoa (e_pid1 e)) (v_switch cpu (v_irq e) ((v_note e v)\<lparr>v_int := v_int v @ [v_cur cpu v]\<rparr>))
      else if e_type e = ''HIRQEXIT'' then
        (if v_top cpu v = [] then v
         else v_note e (v_switch cpu (last (v_int v)) ((v_exit e v)\<lparr>v_int := butlast (v_int v)\<rparr>)))
      else v_note e v)"

text \<open>One trace entry: it is allocated and handled.\<close>

definition feed :: "ana_entry \<Rightarrow> ana \<Rightarrow> ana outcome" where
  "feed e s = (case alloc e s of (i, s') \<Rightarrow> handleEvent i s')"

definition viewed_types :: "string set" where
  "viewed_types = noted_types \<union> {''CTXSW'', ''SRVENTRY'', ''SRVEXIT'', ''HIRQENTRY'', ''HIRQEXIT''}"

text \<open>No peripheral unit is timed and no temporary variable is watched.\<close>

definition calm :: "ana \<Rightarrow> bool" where
  "calm s \<longleftrightarrow> ids_ok s \<and> peu_start s = None \<and> temps s = Map.empty"

lemma calm_grows: "calm s \<Longrightarrow> grows s s' \<Longrightarrow> calm s'"
  by (auto simp: calm_def grows_def)

lemma AppendToPEU_idle: "peu_start s = None \<Longrightarrow> e_type (ent s i) \<noteq> ''PEUSTART'' \<Longrightarrow> AppendToPEU i s = Inr s"
  by (simp add: AppendToPEU_def Let_def)

lemma append_top_idle:
  assumes s: "calm s" and n: "n = length (v_top (e_cpu (ent s i)) (view_of s))" "0 < n"
    and top: "snd (last (v_top (e_cpu (ent s i)) (view_of s))) = es @ [e]" "e_type e \<noteq> ''PEUSTART''"
  shows "append_top_to_PEU n i s = Inr (ensure_stacks (e_cpu (ent s i)) s)"
proof -
  let ?st = "stack_of (e_cpu (ent s i)) s"
  have ne: "?st \<noteq> []" "length ?st = n" using n v_top_length [of "e_cpu (ent s i)" s] by auto
  have "map (ent s) (sv_entries (last ?st)) = es @ [e]"
    using top(1) ne(1) by (simp add: stack_of_view frames_def last_map ent_def [abs_def])
  moreover from this have last: "sv_entries (last ?st) \<noteq> []" by auto
  ultimately have "ent s (last (sv_entries (last ?st))) = e" using last_map [OF last, of "ent s"] by simp
  have "nth_checked ?st (n - 1) = Inr (last ?st)" using ne n(2) by (simp add: last_conv_nth)
  with \<open>ent s (last (sv_entries (last ?st))) = e\<close> show ?thesis using last top(2) s AppendToPEU_idle
    by (simp add: append_top_to_PEU_def Let_def calm_def)
qed

lemma note_top_last: "st \<noteq> [] \<Longrightarrow> note_top es st \<noteq> [] \<and> snd (last (note_top es st)) = snd (last st) @ es \<and>
  length (note_top es st) = length st"
  by (simp add: note_top_def)

lemma push_to_PEU_does:
  assumes s: "calm s" "i < length (heap s)" "e_type (ent s i) \<noteq> ''PEUSTART''"
  shows "\<exists>s'. push_to_PEU i s = Inr s' \<and> grows s s' \<and> view_of s' = v_note (ent s i) (view_of s)"
proof -
  let ?e = "ent s i" and ?cpu = "e_cpu (ent s i)"
  have ids: "ids_ok s" using s(1) by (simp add: calm_def)
  obtain s1 where s1: "PushService i s = Inr (length (v_top ?cpu (view_of s)), s1)" "grows s s1" "heap s1 = heap s"
      "view_of s1 = v_note ?e (view_of s)"
    using PushService_does [OF ids s(2)] by blast
  have e1: "ent s1 i = ?e" using s1(3) by (simp add: ent_def)
  show ?thesis
  proof (cases "v_top ?cpu (view_of s) = []")
    case True then show ?thesis using s1 by (simp add: push_to_PEU_def)
  next
    case False
    note top = v_top_note [of ?e "view_of s"] note_top_last [OF False, of "[?e]"]
    have "append_top_to_PEU (length (v_top ?cpu (view_of s))) i s1 = Inr (ensure_stacks ?cpu s1)"
      using append_top_idle [of s1 _ i _ ?e] calm_grows [OF s(1) s1(2)] top s1(4) e1 s(3) False by auto
    moreover have "grows s (ensure_stacks ?cpu s1)"
      using s1(2) grows_same [of s1 "ensure_stacks ?cpu s1"] grows_ids [OF s1(2)] grows_trans by simp
    ultimately show ?thesis using s1 False by (simp add: push_to_PEU_def)
  qed
qed

lemma switch_view: "view_of (s\<lparr>cur_leu := (cur_leu s)(cpu \<mapsto> l)\<rparr>) = v_switch cpu l (view_of s)"
  by (simp add: view_of_def v_switch_def)

lemma CTXSW_does:
  assumes s: "ids_ok s" "i < length (heap s)"
  shows "\<exists>s'. handleCTXSW i s = Inr s' \<and> grows s s' \<and> view_of s' =
    v_note (ent s i) (v_switch (e_cpu (ent s i)) (LEU ''Thread'' (e_pid2 (ent s i))) (v_note (ent s i) (view_of s)))"
proof -
  let ?e = "ent s i" and ?cpu = "e_cpu (ent s i)"
  let ?l = "LEU ''Thread'' (e_pid2 (ent s i))"
  obtain n s1 where s1: "PushService i s = Inr (n, s1)" "grows s s1" "heap s1 = heap s" "view_of s1 = v_note ?e (view_of s)"
    using PushService_does [OF s] by blast
  have e1: "ent s1 i = ?e" "i < length (heap s1)" using s1(3) s(2) by (simp_all add: ent_def)
  let ?s2 = "s1\<lparr>cur_leu := (cur_leu s1)(?cpu \<mapsto> ?l)\<rparr>"
  have g2: "grows s1 ?s2" using grows_ids [OF s1(2)] by (intro grows_same) simp_all
  have e2: "ent ?s2 i = ?e" using e1 by (simp add: ent_def)
  obtain n3 s3 where s3: "PushService i ?s2 = Inr (n3, s3)" "grows ?s2 s3" "view_of s3 = v_note ?e (view_of ?s2)"
    using PushService_does [OF grows_ids [OF g2], of i] e1 e2 by auto
  have "handleCTXSW i s = Inr (ensure_leu ?l s3)" using s1(1) s3(1) e1 by (simp add: handleCTXSW_def Let_def)
  moreover have "grows s (ensure_leu ?l s3)"
    using s1(2) g2 s3(2) ensure_leu_grows [OF grows_ids [OF s3(2)]] grows_trans by blast
  ultimately show ?thesis using s3(3) s1(4) switch_view [of s1] by simp
qed

lemma SRVEXIT_does:
  assumes s: "ids_ok s" "i < length (heap s)"
  shows "\<exists>s'. handleSRVEXIT i s = Inr (v_top (e_cpu (ent s i)) (view_of s) \<noteq> [], s') \<and> grows s s' \<and>
    heap s' = heap s \<and> view_of s' = v_exit (ent s i) (view_of s)"
proof -
  let ?e = "ent s i" and ?cpu = "e_cpu (ent s i)"
  obtain s1 where s1: "PushService i s = Inr (length (v_top ?cpu (view_of s)), s1)" "grows s s1" "heap s1 = heap s"
      "view_of s1 = v_note ?e (view_of s)"
    using PushService_does [OF s] by blast
  have e1: "ent s1 = ent s" "i < length (heap s1)" using s1(3) s(2) by (simp_all add: ent_def [abs_def])
  show ?thesis
  proof (cases "v_top ?cpu (view_of s) = []")
    case True
    then have "v_exit ?e (view_of s) = view_of s" by (simp add: v_exit_def v_note_empty Let_def)
    then show ?thesis using True s1 v_note_empty [OF True] by (simp add: handleSRVEXIT_def)
  next
    case False
    let ?top = "v_top ?cpu (view_of s1)"
    have ne: "?top \<noteq> []" using False s1(4) v_top_note [of ?e] note_top_last by simp
    obtain sv s2 where s2: "PopService i s1 = Inr (sv, s2)" "grows s1 s2" "heap s2 = heap s1"
        "(sv_name sv, map (ent s) (sv_entries sv)) = last ?top" "\<forall>j\<in>set (sv_entries sv). j < length (heap s1)"
        "view_of s2 = v_put ?cpu (butlast ?top) (view_of s1)"
      using PopService_does [OF grows_ids [OF s1(2)] e1(2)] ne e1 by auto
    let ?l = "GetCurrentLEU ?cpu s2" and ?s3 = "ensure_leu (GetCurrentLEU ?cpu s2) s2"
    have e2: "ent s2 = ent s" using s2(3) e1 by (simp add: ent_def [abs_def])
    then have e3: "ent ?s3 = ent s" by (simp add: fun_eq_iff)
    have g3: "grows s2 ?s3" by (rule ensure_leu_grows [OF grows_ids [OF s2(2)]])
    obtain m where m: "leus ?s3 (GetCurrentLEU (e_cpu (ent ?s3 i)) ?s3) = Some m" using ensured_leu e3 by auto
    obtain s4 where s4: "PushServiceToLEU i sv ?s3 = Inr s4" "grows ?s3 s4" "heap s4 = heap ?s3"
        "view_of s4 = v_record ?l (last ?top) (view_of s2)"
      using PushServiceToLEU_does [OF grows_ids [OF g3] m, of sv] s2 e3 by auto
    have e4: "ent s4 i = ?e" "i < length (heap s4)" using s4(3) s2(3) e1(2) e2 by (auto simp: ent_def fun_eq_iff)
    obtain n s5 where s5: "PushService i s4 = Inr (n, s5)" "grows s4 s5" "heap s5 = heap s4" "view_of s5 = v_note ?e (view_of s4)"
      using PushService_does [OF grows_ids [OF s4(2)] e4(2)] e4(1) by auto
    have "?l = v_cur ?cpu (view_of s)" using s2(6) s1(4) view_sel(3) [of ?cpu s2] by (simp add: v_put_def v_note_def v_cur_def)
    then have "view_of s5 = v_exit ?e (view_of s)"
      using s5(4) s4(4) s2(6) s1(4) ne by (simp add: v_exit_def Let_def v_note_def v_put_def v_cur_def)
    moreover have "handleSRVEXIT i s = Inr (True, s5)"
      using s1(1) s2(1) s4(1) s5(1) False e2 by (simp add: handleSRVEXIT_def)
    moreover have "grows s s5" using s1(2) s2(2) g3 s4(2) s5(2) grows_trans by blast
    moreover have "heap s5 = heap s" using s5(3) s4(3) s2(3) s1(3) by simp
    ultimately show ?thesis using False by simp
  qed
qed

lemma v_note_simps [simp]:
  "v_leu (v_note e v) = v_leu v" "v_int (v_note e v) = v_int v" "v_done (v_note e v) = v_done v"
  "v_cur cpu (v_note e v) = v_cur cpu v"
  by (simp_all add: v_note_def v_put_def v_cur_def)

lemma v_enter_top: "v_top (e_cpu e) (v_enter e f v) = v_top (e_cpu e) (if contains (e_location e) ''irq_exit'' then v else v_note e v) @ [(f, [e])]"
  by (simp add: v_enter_def v_top_def v_put_def v_cur_def Let_def)

lemma HIRQEntry_does:
  assumes s: "calm s" "i < length (heap s)" "e_type (ent s i) = ''HIRQENTRY''"
  shows "\<exists>s'. handleHIRQEntry i s = Inr s' \<and> grows s s' \<and> view_of s' = v_event (ent s i) (view_of s)"
proof -
  let ?e = "ent s i" and ?cpu = "e_cpu (ent s i)" and ?f = "''HIRQ-'' @ itoa (e_pid1 (ent s i))"
  obtain n s1 where s1: "PushService i s = Inr (n, s1)" "grows s s1" "heap s1 = heap s" "view_of s1 = v_note ?e (view_of s)"
    using PushService_does [OF _ s(2)] s(1) unfolding calm_def by blast
  have e1: "ent s1 i = ?e" "i < length (heap s1)" using s1(3) s(2) by (simp_all add: ent_def)
  let ?s2 = "s1\<lparr>interrupted := interrupted s1 @ [GetCurrentLEU ?cpu s1], cur_leu := (cur_leu s1)(?cpu \<mapsto> v_irq ?e)\<rparr>"
  let ?s3 = "ensure_leu (v_irq ?e) ?s2"
  have "grows s1 ?s2" using grows_ids [OF s1(2)] by (intro grows_same) simp_all
  then have g2: "grows s ?s2" by (rule grows_trans [OF s1(2)])
  have g3: "grows s ?s3" by (rule grows_trans [OF g2 ensure_leu_grows [OF grows_ids [OF g2]]])
  have e3: "ent ?s3 i = ?e" "i < length (heap ?s3)" using e1 by (simp_all add: ent_def)
  have same: "interrupted s1 = interrupted s" "GetCurrentLEU ?cpu s1 = GetCurrentLEU ?cpu s"
    using s1(4) view_sel(2,3) v_note_simps by metis+
  have "view_of ?s2 = v_switch ?cpu (v_irq ?e) ((view_of s1)\<lparr>v_int := interrupted s1 @ [GetCurrentLEU ?cpu s1]\<rparr>)"
    by (simp add: view_of_def v_switch_def)
  then have v3: "view_of ?s3 = v_switch ?cpu (v_irq ?e) ((v_note ?e (view_of s))\<lparr>v_int := interrupted s @ [GetCurrentLEU ?cpu s]\<rparr>)"
    unfolding same s1(4) ensure_leu_view by simp
  obtain n4 s4 where s4: "PushNewService i ?f ?s3 = Inr (n4, s4)" "grows ?s3 s4" "view_of s4 = v_enter ?e ?f (view_of ?s3)"
      "n4 = length (v_top ?cpu (view_of s4))"
    using PushNewService_does [OF grows_ids [OF g3] e3(2), of ?f] e3(1) by auto
  have e4: "ent s4 i = ?e" using grows_ent [OF s4(2) e3(2)] e3(1) by simp
  have g4: "grows s s4" using g3 s4(2) grows_trans by blast
  have top: "v_top ?cpu (view_of s4) \<noteq> []" "last (v_top ?cpu (view_of s4)) = (?f, [?e])"
    using s4(3) v_enter_top [of ?e] by simp_all
  have "append_top_to_PEU n4 i s4 = Inr (ensure_stacks ?cpu s4)"
    using append_top_idle [of s4 n4 i "[]" ?e] calm_grows [OF s(1) g4] top s4(4) e4 s(3) by auto
  then have "handleHIRQEntry i s = Inr (ensure_stacks ?cpu s4)"
    using s1(1) s4(1,4) top(1) e1 by (simp add: handleHIRQEntry_def Let_def v_irq_def)
  moreover have "grows s (ensure_stacks ?cpu s4)"
    using g4 grows_same [of s4 "ensure_stacks ?cpu s4"] grows_ids [OF g4] grows_trans by simp
  ultimately show ?thesis using s4(3) v3 s(3) by (simp add: v_event_def Let_def)
qed

lemma HIRQExit_does:
  assumes s: "calm s" "i < length (heap s)" "e_type (ent s i) = ''HIRQEXIT''"
    and int: "v_top (e_cpu (ent s i)) (view_of s) = [] \<or> interrupted s \<noteq> []"
  shows "\<exists>s'. handleHIRQExit i s = Inr s' \<and> grows s s' \<and> view_of s' = v_event (ent s i) (view_of s)"
proof -
  let ?e = "ent s i" and ?cpu = "e_cpu (ent s i)"
  obtain s1 where s1: "handleSRVEXIT i s = Inr (v_top ?cpu (view_of s) \<noteq> [], s1)" "grows s s1" "heap s1 = heap s"
      "view_of s1 = v_exit ?e (view_of s)"
    using SRVEXIT_does [OF _ s(2)] s(1) unfolding calm_def by blast
  have int1: "interrupted s1 = interrupted s"
    using s1(4) view_sel(2) [of s1] view_sel(2) [of s]
    by (simp add: v_exit_def v_record_def v_put_def Let_def split: if_splits)
  have e1: "ent s1 i = ?e" "i < length (heap s1)" using s1(3) s(2) by (simp_all add: ent_def)
  show ?thesis
  proof (cases "v_top ?cpu (view_of s) = []")
    case True
    then have "v_exit ?e (view_of s) = view_of s" by (simp add: v_exit_def v_note_empty Let_def)
    then show ?thesis using True s1 s(3) by (simp add: handleHIRQExit_def v_event_def Let_def)
  next
    case False
    let ?s2 = "s1\<lparr>cur_leu := (cur_leu s1)(?cpu \<mapsto> last (interrupted s1)), interrupted := butlast (interrupted s1)\<rparr>"
    have g2: "grows s ?s2" using s1(2) grows_same [of s1 ?s2] grows_ids [OF s1(2)] grows_trans by simp
    have e2: "ent ?s2 i = ?e" "i < length (heap ?s2)" using e1 by (simp_all add: ent_def)
    have v2: "view_of ?s2 = v_switch ?cpu (last (interrupted s)) ((v_exit ?e (view_of s))\<lparr>v_int := butlast (interrupted s)\<rparr>)"
      unfolding s1(4) [symmetric] int1 [symmetric] by (simp add: view_of_def v_switch_def)
    obtain s3 where "push_to_PEU i ?s2 = Inr s3" "grows ?s2 s3" "view_of s3 = v_note ?e (view_of ?s2)"
      using push_to_PEU_does [OF calm_grows [OF s(1) g2] e2(2)] e2(1) s(3) by auto
    moreover from this have "handleHIRQExit i s = Inr s3"
      using s1(1) False int int1 e1 by (simp add: handleHIRQExit_def)
    ultimately show ?thesis using g2 grows_trans v2 False s(3) by (auto simp: v_event_def Let_def)
  qed
qed

lemma upd_fresh: "alloc e s = (i, s') \<Longrightarrow> alloc (f e) s = (i, upd_ent i f s')"
  by (auto simp: alloc_def upd_ent_def ent_def)

lemma feed_does:
  assumes s: "calm s" "e_type e \<in> viewed_types"
    and int: "e_type e = ''HIRQEXIT'' \<Longrightarrow> v_top (e_cpu e) (view_of s) = [] \<or> interrupted s \<noteq> []"
  shows "\<exists>s'. feed e s = Inr s' \<and> grows s s' \<and> view_of s' = v_event e (view_of s)"
proof -
  obtain i s1 where i: "alloc e s = (i, s1)" by (cases "alloc e s")
  have ids: "ids_ok s" using s(1) by (simp add: calm_def)
  note a = alloc_grows [OF ids i]
  note calm1 = calm_grows [OF s(1) a(1)] and ids1 = grows_ids [OF a(1)]
  have feed: "feed e s = handleEvent i s1" by (simp add: feed_def i)
  have thesis: ?thesis if "\<exists>s'. handleEvent i s1 = Inr s' \<and> grows s1 s' \<and> view_of s' = v_event e (view_of s)"
    using that feed grows_trans [OF a(1)] by auto
  have "e_type e \<in> noted_types \<or> e_type e = ''CTXSW'' \<or> e_type e = ''SRVENTRY'' \<or> e_type e = ''SRVEXIT'' \<or>
      e_type e = ''HIRQENTRY'' \<or> e_type e = ''HIRQEXIT''"
    using s(2) by (auto simp: viewed_types_def)
  then consider (noted) "e_type e \<in> noted_types" | (ctx) "e_type e = ''CTXSW''" | (ent) "e_type e = ''SRVENTRY''"
    | (exit) "e_type e = ''SRVEXIT''" | (irq) "e_type e = ''HIRQENTRY''" | (irqx) "e_type e = ''HIRQEXIT''"
    by blast
  then show ?thesis
  proof cases
    case noted
    then have ev: "v_event e (view_of s) = v_note e (view_of s)" by (auto simp: noted_types_def v_event_def)
    have temps: "temps s1 = Map.empty" using calm1 by (simp add: calm_def)
    show ?thesis
    proof (cases "e_type e \<in> {''COMPL'', ''SEMDOWN'', ''SEMUP'', ''WAITCOMPL''}")
      case True
      then have "handleEvent i s1 = push_to_PEU i s1" "e_type e \<noteq> ''PEUSTART''"
        using a(3) temps by (auto simp: handleEvent_def handleSync_def)
      then show ?thesis using push_to_PEU_does [OF calm1 a(4)] thesis a(2,3) ev by simp
    next
      case False
      then have "handleEvent i s1 = push i s1" using noted a(3) by (auto simp: handleEvent_def noted_types_def)
      then show ?thesis using PushService_does [OF ids1 a(4)] thesis a(2,3) ev by auto
    qed
  next
    case ctx
    then show ?thesis using CTXSW_does [OF ids1 a(4)] thesis a(2,3) by (simp add: handleEvent_def v_event_def)
  next
    case ent
    note b = alloc_grows [OF ids upd_fresh [OF i, of "\<lambda>e. e\<lparr>e_packet := ''0''\<rparr>"]]
    let ?s = "upd_ent i (\<lambda>e. e\<lparr>e_packet := ''0''\<rparr>) s1"
    obtain n s2 where s2: "PushNewService i (e_service e) ?s = Inr (n, s2)" "grows ?s s2"
        "view_of s2 = v_enter (e\<lparr>e_packet := ''0''\<rparr>) (e_service e) (view_of s)"
      using PushNewService_does [OF grows_ids [OF b(1)] b(4), of "e_service e"] b(2,3) by auto
    then have "feed e s = Inr s2" using feed ent a(3) by (simp add: handleEvent_def handleSRVENTRY_def)
    then show ?thesis using s2 grows_trans [OF b(1)] ent by (simp add: v_event_def)
  next
    case exit
    then show ?thesis using SRVEXIT_does [OF ids1 a(4)] thesis a(2,3) by (auto simp: handleEvent_def v_event_def)
  next
    case irq
    then show ?thesis using HIRQEntry_does [OF calm1 a(4)] thesis a(2,3) by (simp add: handleEvent_def)
  next
    case irqx
    have "interrupted s1 = interrupted s" using a(2) view_sel(2) by metis
    then show ?thesis using irqx HIRQExit_does [OF calm1 a(4)] int thesis a(2,3) by (simp add: handleEvent_def)
  qed
qed

section \<open>Call trees\<close>

text \<open>
  What runs in a context between two points of the same depth: noted events, calls with what they
  contain, and interrupts with what they contain.
\<close>

datatype tree = Note ana_entry | Call ana_entry "tree list" ana_entry | Irq ana_entry "tree list" ana_entry

primrec events :: "tree \<Rightarrow> ana_entry list" where
  "events (Note e) = [e]"
| "events (Call a ts b) = a # concat (map events ts) @ [b]"
| "events (Irq a ts b) = a # concat (map events ts) @ [b]"

text \<open>The entry of a service as its own instance has it; and what an enclosing service sees.\<close>

definition entered :: "ana_entry \<Rightarrow> ana_entry" where
  "entered a = a\<lparr>e_packet := ''0''\<rparr>"

primrec marks :: "tree \<Rightarrow> ana_entry list" where
  "marks (Note e) = [e]"
| "marks (Call a ts b) = (if contains (e_location a) ''irq_exit'' then [] else [entered a]) @ [b]"
| "marks (Irq a ts b) = [a, b]"

text \<open>The service instances, in the order in which they end, with the unit they belong to.\<close>

primrec completed :: "tree \<Rightarrow> leu \<Rightarrow> (leu \<times> vframe) list" where
  "completed (Note e) l = []"
| "completed (Call a ts b) l =
     concat (map (\<lambda>t. completed t l) ts) @ [(l, (e_service a, entered a # concat (map marks ts) @ [b]))]"
| "completed (Irq a ts b) l =
     concat (map (\<lambda>t. completed t (v_irq a)) ts) @
       [(v_irq a, (''HIRQ-'' @ itoa (e_pid1 a), a # concat (map marks ts) @ [b]))]"

text \<open>The events are on one processor, and a line does not interrupt its own handler.\<close>

fun tree_ok :: "tree \<Rightarrow> int \<Rightarrow> int set \<Rightarrow> bool" where
  "tree_ok (Note e) cpu act \<longleftrightarrow> e_cpu e = cpu \<and> e_type e \<in> noted_types"
| "tree_ok (Call a ts b) cpu act \<longleftrightarrow>
     e_cpu a = cpu \<and> e_cpu b = cpu \<and> e_type a = ''SRVENTRY'' \<and> e_type b = ''SRVEXIT'' \<and>
     (\<forall>t\<in>set ts. tree_ok t cpu act)"
| "tree_ok (Irq a ts b) cpu act \<longleftrightarrow>
     e_cpu a = cpu \<and> e_cpu b = cpu \<and> e_type a = ''HIRQENTRY'' \<and> e_type b = ''HIRQEXIT'' \<and> e_pid1 a \<notin> act \<and>
     (\<forall>t\<in>set ts. tree_ok t cpu (insert (e_pid1 a) act))"

definition recs :: "(leu \<times> vframe) list \<Rightarrow> view \<Rightarrow> view" where
  "recs = fold (\<lambda>(l, fr). v_record l fr)"

definition after :: "tree list \<Rightarrow> int \<Rightarrow> view \<Rightarrow> view" where
  "after ts cpu v = recs (concat (map (\<lambda>t. completed t (v_cur cpu v)) ts))
     (v_put cpu (note_top (concat (map marks ts)) (v_top cpu v)) v)"

definition irqs_quiet :: "int \<Rightarrow> int set \<Rightarrow> view \<Rightarrow> bool" where
  "irqs_quiet cpu act v \<longleftrightarrow> (\<forall>n. n \<notin> act \<longrightarrow> v_stk v cpu (LEU ''Hardware Interrupt'' n) = []) \<and>
     (\<forall>n. v_leu v cpu = Some (LEU ''Hardware Interrupt'' n) \<longrightarrow> n \<in> act)"

lemma note_top_simps [simp]:
  "note_top [] st = st" "note_top es [] = []" "note_top es (st @ [(f, xs)]) = st @ [(f, xs @ es)]"
  "note_top es [(f, xs)] = [(f, xs @ es)]"
  "note_top ys (note_top xs st) = note_top (xs @ ys) st"
  by (auto simp: note_top_def)

lemma recs_simps [simp]:
  "recs [] v = v" "recs (C @ D) v = recs D (recs C v)" "recs [(l, fr)] v = v_record l fr v"
  by (simp_all add: recs_def)

lemma v_record_simps [simp]:
  "v_leu (v_record l fr v) = v_leu v" "v_int (v_record l fr v) = v_int v" "v_stk (v_record l fr v) = v_stk v"
  by (simp_all add: v_record_def)

lemma recs_sel [simp]:
  "v_leu (recs C v) = v_leu v" "v_int (recs C v) = v_int v" "v_stk (recs C v) = v_stk v"
  by (induction C arbitrary: v) (auto simp: recs_def)

lemma recs_cur [simp]: "v_cur cpu (recs C v) = v_cur cpu v" "v_top cpu (recs C v) = v_top cpu v"
  "v_cur cpu (v_record l fr v) = v_cur cpu v" "v_top cpu (v_record l fr v) = v_top cpu v"
  by (simp_all add: v_cur_def v_top_def)

lemma v_put_sel [simp]:
  "v_leu (v_put cpu x v) = v_leu v" "v_int (v_put cpu x v) = v_int v" "v_cur c (v_put cpu x v) = v_cur c v"
  "v_top cpu (v_put cpu x v) = x" "v_put cpu x (v_put cpu y v) = v_put cpu x v"
  by (simp_all add: v_put_def v_cur_def v_top_def)

lemma v_put_record: "v_put cpu x (v_record l fr v) = v_record l fr (v_put cpu x v)"
  by (simp add: v_put_def v_record_def v_cur_def)

lemma v_put_recs [simp]: "v_put cpu x (recs C v) = recs C (v_put cpu x v)"
proof (induction C arbitrary: v)
  case (Cons c C)
  then show ?case by (cases c) (simp add: recs_def v_put_record)
qed (simp add: recs_def)

lemma v_note_put: "v_note e v = v_put (e_cpu e) (note_top [e] (v_top (e_cpu e) v)) v"
  by (simp add: v_note_def)

lemma after_Cons: "after (t # ts) cpu v = after ts cpu (after [t] cpu v)"
proof -
  have "after ts cpu (after [t] cpu v) = recs (concat (map (\<lambda>t. completed t (v_cur cpu v)) ts))
     (recs (completed t (v_cur cpu v)) (v_put cpu (note_top (marks t @ concat (map marks ts)) (v_top cpu v)) v))"
    unfolding after_def by simp
  then show ?thesis unfolding after_def by simp
qed

lemma after_sel [simp]:
  "v_leu (after ts cpu v) = v_leu v" "v_int (after ts cpu v) = v_int v"
  "v_cur c (after ts cpu v) = v_cur c v"
  "v_top cpu (after ts cpu v) = note_top (concat (map marks ts)) (v_top cpu v)"
  by (simp_all add: after_def)

lemma after_stk: "l \<noteq> v_cur cpu v \<Longrightarrow> v_stk (after ts cpu v) cpu l = v_stk v cpu l"
  by (simp add: after_def v_put_def)

lemma after_quiet: "irqs_quiet cpu act v \<Longrightarrow> irqs_quiet cpu act (after ts cpu v)"
  unfolding irqs_quiet_def
  by (auto simp: after_def v_put_def v_top_def)

definition reconstructs :: "tree list \<Rightarrow> int \<Rightarrow> int set \<Rightarrow> bool" where
  "reconstructs ts cpu act \<longleftrightarrow>
     (\<forall>s. calm s \<longrightarrow> irqs_quiet cpu act (view_of s) \<longrightarrow> cur_leu s cpu \<noteq> None \<longrightarrow>
       (\<exists>s'. fold_outcome feed (concat (map events ts)) s = Inr s' \<and> grows s s' \<and>
         view_of s' = after ts cpu (view_of s)))"

lemma reconstructsD:
  assumes "reconstructs ts cpu act" "calm s" "irqs_quiet cpu act (view_of s)" "cur_leu s cpu \<noteq> None"
  obtains s' where "fold_outcome feed (concat (map events ts)) s = Inr s'" "grows s s'"
    "view_of s' = after ts cpu (view_of s)"
  using assms unfolding reconstructs_def by blast

lemma cur_leu_view: "view_of s' = v \<Longrightarrow> cur_leu s' = v_leu v"
  using view_sel(1) [of s'] by simp

lemma grows_refl: "ids_ok s \<Longrightarrow> grows s s"
  by (simp add: grows_def)

lemma reconstructs_list:
  assumes "\<And>t. t \<in> set ts \<Longrightarrow> reconstructs [t] cpu act" shows "reconstructs ts cpu act"
  using assms
proof (induction ts)
  case Nil
  then show ?case by (auto simp: reconstructs_def after_def calm_def intro: grows_refl)
next
  case (Cons t ts)
  show ?case unfolding reconstructs_def
  proof (intro allI impI)
    fix s assume s: "calm s" "irqs_quiet cpu act (view_of s)" "cur_leu s cpu \<noteq> None"
    obtain s1 where s1: "fold_outcome feed (events t) s = Inr s1" "grows s s1" "view_of s1 = after [t] cpu (view_of s)"
      using reconstructsD [OF Cons.prems [of t] s] by auto
    have "reconstructs ts cpu act" using Cons by auto
    moreover have "irqs_quiet cpu act (view_of s1)" "cur_leu s1 cpu \<noteq> None"
      using s1(3) after_quiet [OF s(2), of "[t]"] cur_leu_view [OF s1(3)] s(3) by simp_all
    ultimately obtain s2 where s2: "fold_outcome feed (concat (map events ts)) s1 = Inr s2" "grows s1 s2"
        "view_of s2 = after ts cpu (view_of s1)"
      using reconstructsD [OF _ calm_grows [OF s(1) s1(2)]] by blast
    show "\<exists>s'. fold_outcome feed (concat (map events (t # ts))) s = Inr s' \<and> grows s s' \<and>
        view_of s' = after (t # ts) cpu (view_of s)"
      using s1 s2 grows_trans [OF s1(2) s2(2)] by (simp add: fold_outcome_append after_Cons [of t ts])
  qed
qed

lemma call_closed:
  assumes "e_cpu a = cpu" "e_cpu b = cpu" "e_type a = ''SRVENTRY''" "e_type b = ''SRVEXIT''"
  shows "v_event b (after ts cpu (v_event a v)) = after [Call a ts b] cpu v"
proof -
  let ?m = "if contains (e_location a) ''irq_exit'' then [] else [entered a]"
  let ?M = "concat (map marks ts)" and ?C = "concat (map (\<lambda>t. completed t (v_cur cpu v)) ts)"
  let ?T = "note_top ?m (v_top cpu v)"
  have 1: "v_event a v = v_put cpu (?T @ [(e_service a, [entered a])]) v"
    using assms(1,3) by (simp add: v_event_def v_enter_def entered_def v_note_put Let_def)
  have 2: "after ts cpu (v_event a v) = recs ?C (v_put cpu (?T @ [(e_service a, entered a # ?M)]) v)"
    unfolding 1 by (simp add: after_def)
  show ?thesis unfolding 2 using assms(2,4)
    by (simp add: v_event_def v_exit_def v_note_put Let_def after_def v_put_record)
qed

lemma v_record_int: "(v_record l fr w)\<lparr>v_int := x\<rparr> = v_record l fr (w\<lparr>v_int := x\<rparr>)"
  by (cases w) (simp add: v_record_def)

lemma v_record_switch: "v_switch cpu k (v_record l fr w) = v_record l fr (v_switch cpu k w)"
  by (cases w) (simp add: v_record_def v_switch_def)

lemma recs_int: "(recs D w)\<lparr>v_int := x\<rparr> = recs D (w\<lparr>v_int := x\<rparr>)"
  by (induction D arbitrary: w) (auto simp: recs_def v_record_int)

lemma recs_switch: "v_switch cpu l (recs D w) = recs D (v_switch cpu l w)"
  by (induction D arbitrary: w) (auto simp: recs_def v_record_switch)

lemma irq_closed:
  assumes e: "e_cpu a = cpu" "e_cpu b = cpu" "e_type a = ''HIRQENTRY''" "e_type b = ''HIRQEXIT''"
    and v: "irqs_quiet cpu act v" "e_pid1 a \<notin> act" "v_leu v cpu = Some l"
  shows "v_event b (after ts cpu (v_event a v)) = after [Irq a ts b] cpu v"
    and "irqs_quiet cpu (insert (e_pid1 a) act) (v_event a v)"
    and "v_leu (v_event a v) cpu = Some (v_irq a)" and "v_int (v_event a v) = v_int v @ [l]"
proof -
  let ?F = "''HIRQ-'' @ itoa (e_pid1 a)" and ?I = "v_irq a"
  let ?M = "concat (map marks ts)" and ?C = "concat (map (\<lambda>t. completed t ?I) ts)"
  let ?T = "note_top [a] (v_top cpu v)"
  have l: "v_cur cpu v = l" "l \<noteq> ?I" using v by (auto simp: v_cur_def v_irq_def irqs_quiet_def)
  define w where "w = v_switch cpu ?I ((v_put cpu ?T v)\<lparr>v_int := v_int v @ [l]\<rparr>)"
  have w: "v_leu w = (v_leu v)(cpu \<mapsto> ?I)" "v_int w = v_int v @ [l]" "v_cur cpu w = ?I" "v_top cpu w = []"
    using v(1,2) l by (auto simp: w_def v_switch_def v_cur_def v_top_def v_put_def irqs_quiet_def v_irq_def)
  have w_stk: "v_stk w = (v_stk v)(cpu := (v_stk v cpu)(l := ?T))" using l by (simp add: w_def v_switch_def v_put_def)
  have put_w: "v_put cpu [] w = w" using v_put_same [of cpu w] w(4) by simp
  have 1: "v_event a v = v_put cpu [(?F, [a])] w"
    using e(1,3) l w(4) by (simp add: v_event_def v_enter_def v_note_put Let_def w_def)
  show "v_leu (v_event a v) cpu = Some (v_irq a)" "v_int (v_event a v) = v_int v @ [l]" unfolding 1 by (simp_all add: w)
  show "irqs_quiet cpu (insert (e_pid1 a) act) (v_event a v)"
    unfolding 1 using v(1,3) w(1,3) w_stk by (auto simp: irqs_quiet_def v_put_def v_irq_def)
  have 2: "after ts cpu (v_event a v) = recs ?C (v_put cpu [(?F, a # ?M)] w)"
    unfolding 1 by (simp add: after_def w)
  have 3: "v_exit b (after ts cpu (v_event a v)) = v_record ?I (?F, a # ?M @ [b]) (recs ?C w)"
    unfolding 2 using e(2) put_w w(3,4) by (simp add: v_exit_def v_note_put Let_def v_put_record)
  have rest: "v_switch cpu l ((recs D w)\<lparr>v_int := v_int v\<rparr>) = recs D (v_put cpu ?T v)" for D
  proof -
    have "v_switch cpu l (w\<lparr>v_int := v_int v\<rparr>) = v_put cpu ?T v"
      using v(3) by (simp add: w_def v_switch_def v_put_def fun_upd_idem)
    then show ?thesis by (simp add: recs_int recs_switch)
  qed
  have "v_event b (after ts cpu (v_event a v)) =
      v_note b (v_switch cpu l ((v_exit b (after ts cpu (v_event a v)))\<lparr>v_int := v_int v\<rparr>))"
    unfolding 2 using e(2,4) w(2) by (simp add: v_event_def Let_def)
  also have "\<dots> = v_note b (recs (?C @ [(?I, (?F, a # ?M @ [b]))]) (v_put cpu ?T v))"
    unfolding 3 rest [symmetric] by simp
  finally show "v_event b (after ts cpu (v_event a v)) = after [Irq a ts b] cpu v"
    using e(2) by (simp add: v_note_put after_def v_put_record)
qed

lemma viewed: "''SRVENTRY'' \<in> viewed_types" "''SRVEXIT'' \<in> viewed_types" "''HIRQENTRY'' \<in> viewed_types"
  "''HIRQEXIT'' \<in> viewed_types" "noted_types \<subseteq> viewed_types"
  unfolding viewed_types_def by (simp, simp, simp, simp, rule Un_upper1)

lemma tree_reconstructs: "tree_ok t cpu act \<Longrightarrow> reconstructs [t] cpu act"
proof (induction t arbitrary: act)
  case (Note e)
  then have e: "e_cpu e = cpu" "e_type e \<in> viewed_types" "e_type e \<noteq> ''HIRQEXIT''" "v_event e v = v_note e v" for v
    using viewed(5) by (auto simp: noted_types_def v_event_def)
  show ?case unfolding reconstructs_def
  proof (intro allI impI)
    fix s assume "calm s"
    then obtain s' where "feed e s = Inr s'" "grows s s'" "view_of s' = v_note e (view_of s)"
      using feed_does [of s e] e by auto
    then show "\<exists>s'. fold_outcome feed (concat (map events [Note e])) s = Inr s' \<and> grows s s' \<and>
        view_of s' = after [Note e] cpu (view_of s)"
      using e(1) by (simp add: after_def v_note_put)
  qed
next
  case (Call a ts b)
  then have e: "e_cpu a = cpu" "e_cpu b = cpu" "e_type a = ''SRVENTRY''" "e_type b = ''SRVEXIT''" by auto
  have ts: "reconstructs ts cpu act"
  proof (rule reconstructs_list)
    fix t assume t: "t \<in> set ts"
    then show "reconstructs [t] cpu act" using Call.IH [OF t] Call.prems by simp
  qed
  show ?case unfolding reconstructs_def
  proof (intro allI impI)
    fix s assume s: "calm s" "irqs_quiet cpu act (view_of s)" "cur_leu s cpu \<noteq> None"
    obtain s1 where s1: "feed a s = Inr s1" "grows s s1" "view_of s1 = v_event a (view_of s)"
      using feed_does [OF s(1), of a] e viewed by auto
    have leu: "cur_leu s1 = cur_leu s" using cur_leu_view [OF s1(3)] e by (simp add: v_event_def v_enter_def v_note_put Let_def)
    have "irqs_quiet cpu act (view_of s1)"
      using s(2) e(1,3) leu s(3) unfolding s1(3)
      by (auto simp: irqs_quiet_def v_event_def v_enter_def v_note_put Let_def v_put_def v_cur_def split: option.splits)
    then obtain s2 where s2: "fold_outcome feed (concat (map events ts)) s1 = Inr s2" "grows s1 s2"
        "view_of s2 = after ts cpu (view_of s1)"
      using reconstructsD [OF ts calm_grows [OF s(1) s1(2)]] leu s(3) by auto
    obtain s3 where s3: "feed b s2 = Inr s3" "grows s2 s3" "view_of s3 = v_event b (view_of s2)"
      using feed_does [OF calm_grows [OF calm_grows [OF s(1) s1(2)] s2(2)], of b] e viewed by auto
    show "\<exists>s'. fold_outcome feed (concat (map events [Call a ts b])) s = Inr s' \<and> grows s s' \<and>
        view_of s' = after [Call a ts b] cpu (view_of s)"
      using s1 s2 s3 call_closed [OF e, of ts] grows_trans [OF s1(2) grows_trans [OF s2(2) s3(2)]]
      by (simp add: fold_outcome_append)
  qed
next
  case (Irq a ts b)
  then have e: "e_cpu a = cpu" "e_cpu b = cpu" "e_type a = ''HIRQENTRY''" "e_type b = ''HIRQEXIT''" "e_pid1 a \<notin> act" by auto
  have ts: "reconstructs ts cpu (insert (e_pid1 a) act)"
  proof (rule reconstructs_list)
    fix t assume t: "t \<in> set ts"
    then show "reconstructs [t] cpu (insert (e_pid1 a) act)" using Irq.IH [OF t] Irq.prems by simp
  qed
  show ?case unfolding reconstructs_def
  proof (intro allI impI)
    fix s assume s: "calm s" "irqs_quiet cpu act (view_of s)" "cur_leu s cpu \<noteq> None"
    then obtain l where l: "v_leu (view_of s) cpu = Some l" by auto
    note closed = irq_closed [OF e(1-4) s(2) e(5) l]
    obtain s1 where s1: "feed a s = Inr s1" "grows s s1" "view_of s1 = v_event a (view_of s)"
      using feed_does [OF s(1), of a] e viewed by auto
    obtain s2 where s2: "fold_outcome feed (concat (map events ts)) s1 = Inr s2" "grows s1 s2"
        "view_of s2 = after ts cpu (view_of s1)"
      using reconstructsD [OF ts calm_grows [OF s(1) s1(2)]] closed(2,3) s1(3) cur_leu_view [OF s1(3)] by auto
    have "interrupted s2 = interrupted s @ [l]" using s2(3) s1(3) closed(4) view_sel(2) [of s2] by simp
    then have "interrupted s2 \<noteq> []" by simp
    then obtain s3 where s3: "feed b s2 = Inr s3" "grows s2 s3" "view_of s3 = v_event b (view_of s2)"
      using feed_does [OF calm_grows [OF calm_grows [OF s(1) s1(2)] s2(2)], of b] e viewed by auto
    show "\<exists>s'. fold_outcome feed (concat (map events [Irq a ts b])) s = Inr s' \<and> grows s s' \<and>
        view_of s' = after [Irq a ts b] cpu (view_of s)"
      using s1 s2 s3 closed(1) [of ts] grows_trans [OF s1(2) grows_trans [OF s2(2) s3(2)]]
      by (simp add: fold_outcome_append)
  qed
qed

section \<open>Properties\<close>

text \<open>An interrupt that ends with a service on its stack has begun.\<close>

primrec exits_ok :: "ana_entry list \<Rightarrow> view \<Rightarrow> bool" where
  "exits_ok [] v \<longleftrightarrow> True"
| "exits_ok (e # es) v \<longleftrightarrow>
     (e_type e = ''HIRQEXIT'' \<longrightarrow> v_top (e_cpu e) v = [] \<or> v_int v \<noteq> []) \<and> exits_ok es (v_event e v)"

lemma feeds_do:
  "calm s \<Longrightarrow> \<forall>e\<in>set es. e_type e \<in> viewed_types \<Longrightarrow> exits_ok es (view_of s) \<Longrightarrow>
   \<exists>s'. fold_outcome feed es s = Inr s' \<and> grows s s' \<and> view_of s' = fold v_event es (view_of s)"
proof (induction es arbitrary: s)
  case Nil
  then show ?case by (simp add: grows_refl calm_def)
next
  case (Cons e es)
  obtain s1 where s1: "feed e s = Inr s1" "grows s s1" "view_of s1 = v_event e (view_of s)"
    using feed_does [OF Cons.prems(1), of e] Cons.prems(2,3) by auto
  obtain s2 where "fold_outcome feed es s1 = Inr s2" "grows s1 s2" "view_of s2 = fold v_event es (view_of s1)"
    using Cons.IH [OF calm_grows [OF Cons.prems(1) s1(2)]] Cons.prems(2,3) s1(3) by auto
  then show ?case using s1 grows_trans [OF s1(2)] by auto
qed

text \<open>
  Refinement (C10): from every state in which no peripheral is timed and no temporary variable watched,
  any sequence of context switches, service entries and exits, interrupt entries and exits and events
  that are only noted is handled without a panic, and does on the heap of shared entries what
  \<open>v_event\<close> says of the view, if each interrupt that ends with a service on its stack has begun.
\<close>

theorem analyser_refines:
  assumes "calm s" "\<forall>e\<in>set es. e_type e \<in> viewed_types" "exits_ok es (view_of s)"
  shows "\<exists>s'. fold_outcome feed es s = Inr s' \<and> calm s' \<and> view_of s' = fold v_event es (view_of s)"
  using feeds_do [OF assms] calm_grows [OF assms(1)] by blast

lemma calm_zero: "stacks s = Map.empty \<Longrightarrow> leus s = Map.empty \<Longrightarrow> peu_start s = None \<Longrightarrow> temps s = Map.empty \<Longrightarrow> calm s"
  by (simp add: calm_def ids_ok_def get2_def)

theorem analyser_refines_witness:
  "\<exists>s'. fold_outcome feed [entry0\<lparr>e_type := ''SRVENTRY'', e_service := ''f''\<rparr>, entry0\<lparr>e_type := ''HIRQENTRY'', e_pid1 := 3\<rparr>,
       entry0\<lparr>e_type := ''HIRQEXIT'', e_pid1 := 3\<rparr>] ana_zero = Inr s' \<and> calm s' \<and>
     view_of s' = fold v_event [entry0\<lparr>e_type := ''SRVENTRY'', e_service := ''f''\<rparr>, entry0\<lparr>e_type := ''HIRQENTRY'', e_pid1 := 3\<rparr>,
       entry0\<lparr>e_type := ''HIRQEXIT'', e_pid1 := 3\<rparr>] (view_of ana_zero)"
proof (rule analyser_refines)
  show "calm ana_zero" by (simp add: calm_zero ana_zero_def)
  show "exits_ok [entry0\<lparr>e_type := ''SRVENTRY'', e_service := ''f''\<rparr>, entry0\<lparr>e_type := ''HIRQENTRY'', e_pid1 := 3\<rparr>,
       entry0\<lparr>e_type := ''HIRQEXIT'', e_pid1 := 3\<rparr>] (view_of ana_zero)"
    by (simp add: entry0_def v_event_def v_switch_def v_enter_def v_note_put Let_def)
qed (simp add: entry0_def viewed)

lemma recs_done: "v_done (recs C v) l f = v_done v l f @ map (snd \<circ> snd) (filter (\<lambda>c. fst c = l \<and> fst (snd c) = f) C)"
proof (induction C arbitrary: v)
  case (Cons c C)
  then show ?case by (cases c) (auto simp: recs_def v_record_def)
qed (simp add: recs_def)

lemma trees_run:
  assumes "calm s" "cur_leu s cpu = Some l" "irqs_quiet cpu act (view_of s)" "\<forall>t\<in>set ts. tree_ok t cpu act"
  shows "\<exists>s'. fold_outcome feed (concat (map events ts)) s = Inr s' \<and>
    cur_leu s' = cur_leu s \<and> interrupted s' = interrupted s \<and>
    v_top cpu (view_of s') = note_top (concat (map marks ts)) (v_top cpu (view_of s)) \<and>
    (\<forall>k f. v_done (view_of s') k f = v_done (view_of s) k f @
       map (snd \<circ> snd) (filter (\<lambda>c. fst c = k \<and> fst (snd c) = f) (concat (map (\<lambda>t. completed t l) ts))))"
proof -
  have r: "reconstructs ts cpu act"
    by (rule reconstructs_list, rule tree_reconstructs) (use assms(4) in simp)
  obtain s' where s': "fold_outcome feed (concat (map events ts)) s = Inr s'" "view_of s' = after ts cpu (view_of s)"
    by (rule reconstructsD [OF r assms(1,3)]) (use assms(2) in auto)
  have "v_cur cpu (view_of s) = l" using assms(2) by (simp add: GetCurrentLEU_def)
  then have "v_done (view_of s') k f = v_done (view_of s) k f @
      map (snd \<circ> snd) (filter (\<lambda>c. fst c = k \<and> fst (snd c) = f) (concat (map (\<lambda>t. completed t l) ts)))" for k f
    unfolding s'(2) after_def recs_done by (simp add: v_put_def)
  moreover have "cur_leu s' = cur_leu s" "interrupted s' = interrupted s"
    using view_sel(1,2) [of s'] view_sel(1,2) [of s] s'(2) by simp_all
  ultimately show ?thesis using s' by simp
qed

text \<open>
  Reconstruction of the call tree (C9): whatever calls, interrupts and other events run nested in a
  context on one processor, the analyser handles them without a panic, and afterwards the context
  and the interrupted contexts are what they were, the instances of each service of each unit have
  grown by exactly those that ended, in that order, each with its own entries and the marks of the
  calls and interrupts in it, and the enclosing service has the marks of what it called.
\<close>

theorem call_tree_reconstructed:
  assumes "calm s" "cur_leu s cpu = Some l" "irqs_quiet cpu act (view_of s)" "\<forall>t\<in>set ts. tree_ok t cpu act"
  shows "\<exists>s'. fold_outcome feed (concat (map events ts)) s = Inr s' \<and>
    cur_leu s' = cur_leu s \<and> interrupted s' = interrupted s \<and>
    v_top cpu (view_of s') = note_top (concat (map marks ts)) (v_top cpu (view_of s)) \<and>
    (\<forall>k f. v_done (view_of s') k f = v_done (view_of s) k f @
       map (snd \<circ> snd) (filter (\<lambda>c. fst c = k \<and> fst (snd c) = f) (concat (map (\<lambda>t. completed t l) ts))))"
  by (rule trees_run [OF assms])

definition tree1 :: tree where
  "tree1 = Call (entry0\<lparr>e_type := ''SRVENTRY'', e_service := ''f''\<rparr>)
     [Irq (entry0\<lparr>e_type := ''HIRQENTRY'', e_pid1 := 5\<rparr>)
        [Call (entry0\<lparr>e_type := ''SRVENTRY'', e_service := ''g''\<rparr>) [] (entry0\<lparr>e_type := ''SRVEXIT'', e_service := ''g''\<rparr>)]
        (entry0\<lparr>e_type := ''HIRQEXIT'', e_pid1 := 5\<rparr>),
      Note (entry0\<lparr>e_type := ''SEMUP''\<rparr>)]
     (entry0\<lparr>e_type := ''SRVEXIT'', e_service := ''f''\<rparr>)"

definition ana1 :: ana where
  "ana1 = ana_zero\<lparr>cur_leu := [0 \<mapsto> LEU ''Thread'' 7]\<rparr>"

theorem call_tree_reconstructed_witness:
  "\<exists>s'. fold_outcome feed (events tree1) ana1 = Inr s' \<and>
     v_done (view_of s') (LEU ''Hardware Interrupt'' 5) ''g'' =
       [[entry0\<lparr>e_type := ''SRVENTRY'', e_service := ''g'', e_packet := ''0''\<rparr>,
         entry0\<lparr>e_type := ''SRVEXIT'', e_service := ''g''\<rparr>]] \<and>
     length (v_done (view_of s') (LEU ''Thread'' 7) ''f'' ! 0) = 5"
proof -
  have "calm ana1" by (simp add: calm_zero ana1_def ana_zero_def)
  moreover have "cur_leu ana1 0 = Some (LEU ''Thread'' 7)" by (simp add: ana1_def)
  moreover have "irqs_quiet 0 {} (view_of ana1)"
    by (simp add: irqs_quiet_def view_of_def ana1_def ana_zero_def get2_def frames_def)
  moreover have "\<forall>t\<in>set [tree1]. tree_ok t 0 {}" by (simp add: tree1_def entry0_def noted_types_def)
  ultimately obtain s' where s': "fold_outcome feed (concat (map events [tree1])) ana1 = Inr s'"
    "\<forall>k f. v_done (view_of s') k f = v_done (view_of ana1) k f @
       map (snd \<circ> snd) (filter (\<lambda>c. fst c = k \<and> fst (snd c) = f) (concat (map (\<lambda>t. completed t (LEU ''Thread'' 7)) [tree1])))"
    using call_tree_reconstructed by blast
  have none: "v_done (view_of ana1) k f = []" for k f by (simp add: view_of_def ana1_def ana_zero_def get2_def instances_def)
  have "v_done (view_of s') (LEU ''Hardware Interrupt'' 5) ''g'' =
      [[entry0\<lparr>e_type := ''SRVENTRY'', e_service := ''g'', e_packet := ''0''\<rparr>, entry0\<lparr>e_type := ''SRVEXIT'', e_service := ''g''\<rparr>]]"
    using s'(2) none by (simp add: tree1_def entry0_def v_irq_def entered_def)
  moreover have "length (v_done (view_of s') (LEU ''Thread'' 7) ''f'' ! 0) = 5"
    using s'(2) none by (simp add: tree1_def entry0_def v_irq_def entered_def)
  ultimately show ?thesis using s'(1) by simp
qed


end
