(* ===== verification/AnalyseTime.thy ===== *)
theory AnalyseTime
  imports AnalyseSig AnalyseSpec
begin

text \<open>
  The two halves of the analyser together: the instance that is recorded for a call, as the
  reconstruction of the call tree gives it, becomes a signature whose durations add up to the time the
  service itself ran.
\<close>

section \<open>Time that is accounted for\<close>

text \<open>What the durations add up to if the next event is at time \<open>t\<close>.\<close>

definition spent :: "int \<Rightarrow> sigst \<Rightarrow> int" where
  "spent t g = sum_list (s_duration (g_sig g)) + (t - g_lastEvent g) - g_toDeduct g"

lemmas sig_prims = append_ev_def add_dur_def timed_def at_event_def no_deduct_def put_sig_def sig_Append_def sig_AddDuration_def

lemmas sig_evs = ev_loopstart_own_def ev_loopstart_def ev_stop_def ev_restart_def ev_tempsynch_def ev_sync_def ev_temp_def
  ev_pktextr_def ev_queuecond_def ev_threadcond_def ev_statecond_def ev_call_def ev_return_def ev_loopstop_def ev_ttwakeup_def
  ev_tail_def ev_queue_def ev_peustart_def ev_start_def is_start_def is_stop_def is_queue_op_def

text \<open>Noted entries do not change it, if the state a condition names is known.\<close>

definition note_ok :: "ana_entry \<Rightarrow> bool" where
  "note_ok e \<longleftrightarrow> e_type e \<in> noted_types \<and> (e_type e = ''STATECOND'' \<longrightarrow> (\<exists>st. GetStateIdString (e_service e) = Inr st))"

lemma note_step:
  assumes "note_ok e" "g_heap g ! i = e"
  shows "\<exists>g'. sig_step x i g = Inr g' \<and> g_heap g' = g_heap g \<and> g_profiles g' = g_profiles g \<and> (\<forall>t. spent t g' = spent t g)"
proof -
  have "e_type e = ''QUEUECOND'' \<or> e_type e = ''STATECOND'' \<or> e_type e = ''STATEQUEUE'' \<or> e_type e = ''SLEEP'' \<or>
    e_type e = ''TTWAKEUP'' \<or> e_type e = ''WAKEUP'' \<or> e_type e = ''COMPL'' \<or> e_type e = ''SEMDOWN'' \<or>
    e_type e = ''SEMUP'' \<or> e_type e = ''WAITCOMPL''"
    using assms(1) by (simp add: note_ok_def noted_types_def)
  then show ?thesis using assms
    by (elim disjE) (auto simp: note_ok_def sig_step_def sig_evs sig_prims spent_def Let_def)
qed

lemma irq_steps:
  assumes "g_heap g ! i = a" "g_heap g ! j = b" "e_type a = ''HIRQENTRY''" "e_type b = ''HIRQEXIT''" "\<not> own_irq x a" "\<not> own_irq x b"
  shows "\<exists>g'. fold_outcome (sig_step x) [i, j] g = Inr g' \<and> g_heap g' = g_heap g \<and> g_profiles g' = g_profiles g \<and>
    (\<forall>t. spent t g' = spent t g - (e_cycles b - e_cycles a))"
  using assms by (simp add: sig_step_def Let_def spent_def)

lemma call_steps:
  assumes "g_heap g ! i = a" "g_heap g ! j = b" "e_type a = ''SRVENTRY''" "e_type b = ''SRVEXIT''"
    and "e_service a \<notin> {x_srvkey x, irqService}" "e_service b \<notin> {x_srvkey x, irqService}"
  shows "\<exists>g'. fold_outcome (sig_step x) [i, j] g = Inr g' \<and> g_heap g' = g_heap g \<and> g_profiles g' = g_profiles g \<and>
    (\<forall>t. spent t g' = spent t g - (e_cycles b - e_cycles a))"
  using assms by (simp add: sig_step_def Let_def spent_def sig_evs sig_prims)

lemma start_step:
  assumes "g_heap g ! i = a" "is_start x a" "e_type a \<noteq> ''SRVQUEUE''"
  shows "\<exists>g'. sig_step x i g = Inr g' \<and> g_heap g' = g_heap g \<and> g_profiles g' = g_profiles g \<and>
    (\<forall>t. spent t g' = sum_list (s_duration (g_sig g)) + (t - e_cycles a))"
proof -
  have "e_type a = ''SRVENTRY'' \<and> e_service a = x_srvkey x \<or> e_type a = ''HIRQENTRY'' \<and> own_irq x a"
    using assms(2,3) by (auto simp: is_start_def)
  then show ?thesis using assms(1)
    by (elim disjE conjE) (simp_all add: sig_step_def Let_def spent_def sig_evs sig_prims)
qed

lemma stop_step:
  assumes "g_heap g ! i = b" "is_stop x b"
  shows "\<exists>g'. sig_step x i g = Inr g' \<and> g_heap g' = g_heap g \<and>
    sum_list (s_duration (g_sig g')) = spent (e_cycles b) g \<and>
    g_profiles g' = PutSignature (x_srvkey x) (g_sig g') (g_profiles g)"
proof -
  have "e_type b = ''SRVEXIT'' \<and> e_service b = x_srvkey x \<or> e_type b = ''HIRQEXIT'' \<and> own_irq x b"
    using assms(2) by (auto simp: is_stop_def)
  then show ?thesis using assms(1)
    by (elim disjE conjE) (simp_all add: sig_step_def Let_def spent_def sig_evs sig_prims)
qed

section \<open>Instances\<close>

text \<open>What a service contains: noted entries, calls of other services and interrupts of other lines.\<close>

definition part_ok :: "sigctx \<Rightarrow> tree \<Rightarrow> bool" where
  "part_ok x t =
     (case t of
        Note e \<Rightarrow> note_ok e
      | Call a ts b \<Rightarrow> e_type a = ''SRVENTRY'' \<and> e_type b = ''SRVEXIT'' \<and> e_service a \<notin> {x_srvkey x, irqService} \<and>
          e_service b \<notin> {x_srvkey x, irqService} \<and> \<not> contains (e_location a) ''irq_exit''
      | Irq a ts b \<Rightarrow> e_type a = ''HIRQENTRY'' \<and> e_type b = ''HIRQEXIT'' \<and> \<not> own_irq x a \<and> \<not> own_irq x b)"

definition span :: "tree \<Rightarrow> int" where
  "span t = (case t of Note e \<Rightarrow> 0 | Call a ts b \<Rightarrow> e_cycles b - e_cycles a | Irq a ts b \<Rightarrow> e_cycles b - e_cycles a)"

lemma part_steps:
  assumes "part_ok x t" "map ((!) (g_heap g)) ids = marks t"
  shows "\<exists>g'. fold_outcome (sig_step x) ids g = Inr g' \<and> g_heap g' = g_heap g \<and> g_profiles g' = g_profiles g \<and> (\<forall>u. spent u g' = spent u g - span t)"
proof (cases t)
  case (Note e)
  then obtain i where "ids = [i]" "g_heap g ! i = e" using assms(2) by (cases ids) auto
  then show ?thesis using note_step [of e g i x] assms(1) Note by (auto simp: part_ok_def span_def)
next
  case (Call a ts b)
  then obtain i j where ij: "ids = [i, j]" "g_heap g ! i = entered a" "g_heap g ! j = b"
    using assms by (auto simp: part_ok_def Cons_eq_map_conv map_eq_Cons_conv)
  then show ?thesis using call_steps [of g i "entered a" j b x] assms(1) Call
    by (simp add: part_ok_def span_def entered_def)
next
  case (Irq a ts b)
  then obtain i j where "ids = [i, j]" "g_heap g ! i = a" "g_heap g ! j = b"
    using assms by (auto simp: map_eq_Cons_conv)
  then show ?thesis using irq_steps [of g i a j b x] assms(1) Irq by (simp add: part_ok_def span_def)
qed

lemma parts_steps:
  "\<forall>t\<in>set ts. part_ok x t \<Longrightarrow> map ((!) (g_heap g)) ids = concat (map marks ts) \<Longrightarrow>
   \<exists>g'. fold_outcome (sig_step x) ids g = Inr g' \<and> g_heap g' = g_heap g \<and> g_profiles g' = g_profiles g \<and>
     (\<forall>u. spent u g' = spent u g - sum_list (map span ts))"
proof (induction ts arbitrary: ids g)
  case (Cons t ts)
  then obtain ks js where ids: "ids = ks @ js" "map ((!) (g_heap g)) ks = marks t" "map ((!) (g_heap g)) js = concat (map marks ts)"
    by (auto simp: map_eq_append_conv)
  obtain g1 where g1: "fold_outcome (sig_step x) ks g = Inr g1" "g_heap g1 = g_heap g" "g_profiles g1 = g_profiles g" "\<forall>u. spent u g1 = spent u g - span t"
    using part_steps [OF _ ids(2), of x] Cons.prems(1) by auto
  obtain g2 where "fold_outcome (sig_step x) js g1 = Inr g2" "g_heap g2 = g_heap g1" "g_profiles g2 = g_profiles g1"
      "\<forall>u. spent u g2 = spent u g1 - sum_list (map span ts)"
    using Cons.IH [of g1 js] Cons.prems(1) ids(3) g1(2) by auto
  then show ?case using g1 ids(1) by (simp add: fold_outcome_append)
qed simp

lemma instance_time:
  assumes "\<forall>t\<in>set ts. part_ok x t" "map ((!) h) ids = a # concat (map marks ts) @ [b]"
    and "is_start x a" "e_type a \<noteq> ''SRVQUEUE''" "is_stop x b"
  shows "\<exists>g. fold_outcome (sig_step x) ids (sig_vars h p) = Inr g \<and> g_heap g = h \<and>
    g_profiles g = PutSignature (x_srvkey x) (g_sig g) p \<and>
    sum_list (s_duration (g_sig g)) = (e_cycles b - e_cycles a) - sum_list (map span ts)"
proof -
  obtain i js k where ids: "ids = i # js @ [k]" "h ! i = a" "map ((!) h) js = concat (map marks ts)" "h ! k = b"
    using assms(2) by (auto simp: map_eq_Cons_conv map_eq_append_conv)
  have h: "g_heap (sig_vars h p) = h" "g_profiles (sig_vars h p) = p" "s_duration (g_sig (sig_vars h p)) = []" by (simp_all add: sig_vars_def)
  obtain g1 where g1: "sig_step x i (sig_vars h p) = Inr g1" "g_heap g1 = h" "g_profiles g1 = p" "\<forall>t. spent t g1 = t - e_cycles a"
    using start_step [of "sig_vars h p" i a x] assms(3,4) ids(2) h by auto
  obtain g2 where g2: "fold_outcome (sig_step x) js g1 = Inr g2" "g_heap g2 = h" "g_profiles g2 = p"
      "\<forall>u. spent u g2 = u - e_cycles a - sum_list (map span ts)"
    using parts_steps [OF assms(1), of g1 js] ids(3) g1 by auto
  obtain g3 where "sig_step x k g2 = Inr g3" "g_heap g3 = h" "sum_list (s_duration (g_sig g3)) = spent (e_cycles b) g2"
      "g_profiles g3 = PutSignature (x_srvkey x) (g_sig g3) (g_profiles g2)"
    using stop_step [of g2 k b x] assms(5) ids(4) g2(2) by auto
  then show ?thesis using g1(1) g2(1,3,4) ids(1) by (auto simp: fold_outcome_append)
qed

lemma instances_last:
  assumes "instances h r = ys @ [es]"
  shows "\<exists>ls inst. r = Some (ls @ [inst]) \<and> map ((!) h) (le_entries inst) = es"
  using assms by (cases r) (auto simp: instances_def map_eq_append_conv)

text \<open>
  Self time (C8): a service that is called in a running context, with any noted events, calls of other
  services and interrupts in it, is recorded as an instance of its unit, and the signature made from
  that instance is put into the profile with durations that add up to the cycles from entry to exit,
  less those spent in the calls and in the interrupts.
\<close>

theorem signature_self_time:
  assumes "calm s" "cur_leu s cpu = Some l" "irqs_quiet cpu act (view_of s)" "tree_ok (Call a ts b) cpu act"
    and "e_service b = e_service a" "x_srvkey x = e_service a" "\<forall>t\<in>set ts. part_ok x t"
  shows "\<exists>s' m ls inst sg. fold_outcome feed (events (Call a ts b)) s = Inr s' \<and>
    leus s' l = Some m \<and> m (e_service a) = Some (ls @ [inst]) \<and>
    sig_instance x inst (heap s', p) = Inr (heap s', PutSignature (e_service a) sg p) \<and>
    sum_list (s_duration sg) = (e_cycles b - e_cycles a) - sum_list (map span ts)"
proof -
  obtain s' where s': "fold_outcome feed (events (Call a ts b)) s = Inr s'"
      "\<forall>k f. v_done (view_of s') k f = v_done (view_of s) k f @
       map (snd \<circ> snd) (filter (\<lambda>c. fst c = k \<and> fst (snd c) = f) (completed (Call a ts b) l))"
    using trees_run [OF assms(1-3), of "[Call a ts b]"] assms(4) by auto
  then obtain ys where "v_done (view_of s') l (e_service a) = ys @ [entered a # concat (map marks ts) @ [b]]" by simp
  then have "instances (heap s') (get2 (leus s') l (e_service a)) = ys @ [entered a # concat (map marks ts) @ [b]]"
    by (simp add: view_of_def)
  from instances_last [OF this] obtain ls inst where inst: "get2 (leus s') l (e_service a) = Some (ls @ [inst])"
      "map ((!) (heap s')) (le_entries inst) = entered a # concat (map marks ts) @ [b]"
    by (elim exE conjE)
  then obtain m where m: "leus s' l = Some m" "m (e_service a) = Some (ls @ [inst])"
    by (auto simp: get2_def split: option.splits)
  have "is_start x (entered a)" "e_type (entered a) \<noteq> ''SRVQUEUE''" "is_stop x b" "e_cycles (entered a) = e_cycles a"
    using assms(4-6) by (simp_all add: is_start_def is_stop_def entered_def)
  then obtain g where "fold_outcome (sig_step x) (le_entries inst) (sig_vars (heap s') p) = Inr g" "g_heap g = heap s'"
      "g_profiles g = PutSignature (e_service a) (g_sig g) p"
      "sum_list (s_duration (g_sig g)) = (e_cycles b - e_cycles a) - sum_list (map span ts)"
    using instance_time [OF assms(7) inst(2), of p] assms(6) by auto
  then have "sig_instance x inst (heap s', p) = Inr (heap s', PutSignature (e_service a) (g_sig g) p) \<and>
      sum_list (s_duration (g_sig g)) = (e_cycles b - e_cycles a) - sum_list (map span ts)"
    by (simp add: sig_instance_def)
  then show ?thesis using s'(1) m by blast
qed

definition call1 :: tree where
  "call1 = Call (entry0\<lparr>e_type := ''SRVENTRY'', e_service := ''f'', e_cycles := 10\<rparr>)
     [Irq (entry0\<lparr>e_type := ''HIRQENTRY'', e_pid1 := 5, e_cycles := 12\<rparr>) [] (entry0\<lparr>e_type := ''HIRQEXIT'', e_pid1 := 5, e_cycles := 20\<rparr>),
      Call (entry0\<lparr>e_type := ''SRVENTRY'', e_service := ''g'', e_cycles := 30\<rparr>) []
        (entry0\<lparr>e_type := ''SRVEXIT'', e_service := ''g'', e_cycles := 70\<rparr>)]
     (entry0\<lparr>e_type := ''SRVEXIT'', e_service := ''f'', e_cycles := 100\<rparr>)"

theorem signature_self_time_witness:
  "\<exists>s' m ls inst sg. fold_outcome feed (events call1) ana1 = Inr s' \<and>
    leus s' (LEU ''Thread'' 7) = Some m \<and> m ''f'' = Some (ls @ [inst]) \<and>
    sig_instance sig_ctx1 inst (heap s', Map.empty) = Inr (heap s', PutSignature ''f'' sg Map.empty) \<and>
    sum_list (s_duration sg) = 42"
proof -
  let ?a = "entry0\<lparr>e_type := ''SRVENTRY'', e_service := ''f'', e_cycles := 10\<rparr>"
  let ?b = "entry0\<lparr>e_type := ''SRVEXIT'', e_service := ''f'', e_cycles := 100\<rparr>"
  let ?ts = "[Irq (entry0\<lparr>e_type := ''HIRQENTRY'', e_pid1 := 5, e_cycles := 12\<rparr>) [] (entry0\<lparr>e_type := ''HIRQEXIT'', e_pid1 := 5, e_cycles := 20\<rparr>),
      Call (entry0\<lparr>e_type := ''SRVENTRY'', e_service := ''g'', e_cycles := 30\<rparr>) []
        (entry0\<lparr>e_type := ''SRVEXIT'', e_service := ''g'', e_cycles := 70\<rparr>)]"
  have 1: "calm ana1" by (simp add: calm_zero ana1_def ana_zero_def)
  have 2: "cur_leu ana1 0 = Some (LEU ''Thread'' 7)" by (simp add: ana1_def)
  have 3: "irqs_quiet 0 {} (view_of ana1)"
    by (simp add: irqs_quiet_def view_of_def ana1_def ana_zero_def get2_def frames_def)
  have 4: "tree_ok (Call ?a ?ts ?b) 0 {}" by (simp add: entry0_def)
  have 5: "\<forall>t\<in>set ?ts. part_ok sig_ctx1 t"
    by (simp add: part_ok_def own_irq_def sig_ctx1_def irqService_def entry0_def)
  have "\<exists>s' m ls inst sg. fold_outcome feed (events (Call ?a ?ts ?b)) ana1 = Inr s' \<and>
    leus s' (LEU ''Thread'' 7) = Some m \<and> m (e_service ?a) = Some (ls @ [inst]) \<and>
    sig_instance sig_ctx1 inst (heap s', Map.empty) = Inr (heap s', PutSignature (e_service ?a) sg Map.empty) \<and>
    sum_list (s_duration sg) = (e_cycles ?b - e_cycles ?a) - sum_list (map span ?ts)"
    by (rule signature_self_time [OF 1 2 3 4 _ _ 5]) (simp_all add: sig_ctx1_def entry0_def)
  then show ?thesis by (simp add: call1_def span_def entry0_def)
qed

end
