(* ===== verification/AnalyseTypes.thy ===== *)
theory AnalyseTypes
  imports AnalyseView
begin

text \<open>
  The types of the analyser's state: every pointer is to an entry that exists, every frame of a
  service stack starts with an entry of its processor, and the units that are or were current are
  known. Every handler keeps this, and on a well-typed state a panic has one of few reasons.
\<close>

section \<open>Well-typed states\<close>

definition hcpus :: "ana \<Rightarrow> int list" where
  "hcpus s = map e_cpu (heap s)"

definition fr_ok :: "int list \<Rightarrow> int \<Rightarrow> svc \<Rightarrow> bool" where
  "fr_ok cs cpu sv \<longleftrightarrow> sv_entries sv \<noteq> [] \<and> (\<forall>i\<in>set (sv_entries sv). i < length cs) \<and> cs ! hd (sv_entries sv) = cpu"

definition ana_ok :: "ana \<Rightarrow> bool" where
  "ana_ok s \<longleftrightarrow>
     (\<forall>cpu l st. get2 (stacks s) cpu l = Some st \<longrightarrow> list_all (fr_ok (hcpus s) cpu) st)
     \<and> (\<forall>l f es. get2 (leus s) l f = Some es \<longrightarrow> (\<forall>x\<in>set es. \<forall>i\<in>set (le_entries x). i < length (heap s)))
     \<and> pred_option (\<lambda>i. i < length (heap s)) (peu_start s) \<and> (\<forall>i\<in>set (peu_entries s). i < length (heap s))
     \<and> (\<forall>x tv. temps s x = Some tv \<longrightarrow> (\<exists>k<length (heap s). tv_entry tv = Some k))
     \<and> pred_option (\<lambda>i. i < length (heap s)) (last_appended s)"

definition units_ok :: "ana \<Rightarrow> bool" where
  "units_ok s \<longleftrightarrow> (\<forall>cpu l. cur_leu s cpu = Some l \<longrightarrow> leus s l \<noteq> None) \<and> (\<forall>l\<in>set (interrupted s). leus s l \<noteq> None)"

text \<open>What operations on the stacks and units leave as it is, and what every handler does.\<close>

definition near :: "ana \<Rightarrow> ana \<Rightarrow> bool" where
  "near s s' \<longleftrightarrow> (\<exists>h. heap s' = heap s @ h) \<and> dom (leus s) \<subseteq> dom (leus s') \<and> cur_leu s' = cur_leu s
     \<and> interrupted s' = interrupted s \<and> temps s' = temps s \<and> peu_start s' = peu_start s \<and> peu_entries s' = peu_entries s
     \<and> (last_appended s \<noteq> None \<longrightarrow> last_appended s' \<noteq> None)"

definition ext :: "ana \<Rightarrow> ana \<Rightarrow> bool" where
  "ext s s' \<longleftrightarrow> (\<exists>cs. hcpus s' = hcpus s @ cs) \<and> dom (cur_leu s) \<subseteq> dom (cur_leu s') \<and> dom (leus s) \<subseteq> dom (leus s')
     \<and> (last_appended s \<noteq> None \<longrightarrow> last_appended s' \<noteq> None)"

lemma near_refl [simp]: "near s s"
  by (simp add: near_def)

lemma near_trans: "near s s' \<Longrightarrow> near s' s'' \<Longrightarrow> near s s''"
  by (fastforce simp: near_def)

lemma near_ext: "near s s' \<Longrightarrow> ext s s'"
  by (auto simp: near_def ext_def hcpus_def)

lemma ext_trans: "ext s s' \<Longrightarrow> ext s' s'' \<Longrightarrow> ext s s''"
  unfolding ext_def by (metis append.assoc subset_trans)

lemma near_ent: "near s s' \<Longrightarrow> i < length (heap s) \<Longrightarrow> ent s' i = ent s i \<and> i < length (heap s')"
  by (auto simp: near_def ent_def nth_append)

lemma ext_ent: "ext s s' \<Longrightarrow> i < length (heap s) \<Longrightarrow> e_cpu (ent s' i) = e_cpu (ent s i) \<and> i < length (heap s')"
proof -
  assume a: "ext s s'" "i < length (heap s)"
  then obtain cs where cs: "map e_cpu (heap s') = map e_cpu (heap s) @ cs" by (auto simp: ext_def hcpus_def)
  then have "length (heap s') = length (heap s) + length cs" by (metis length_append length_map)
  moreover have "map e_cpu (heap s') ! i = map e_cpu (heap s) ! i" using a(2) by (simp add: cs nth_append)
  ultimately show ?thesis using a(2) by (simp add: ent_def)
qed

lemma near_units: "near s s' \<Longrightarrow> units_ok s \<Longrightarrow> units_ok s'"
  unfolding near_def units_ok_def by (metis domIff subsetD)

lemma near_cur: "near s s' \<Longrightarrow> GetCurrentLEU cpu s' = GetCurrentLEU cpu s"
  by (simp add: near_def GetCurrentLEU_def)

lemma fr_ok_append: "fr_ok cs cpu sv \<Longrightarrow> fr_ok (cs @ cs') cpu sv"
  by (auto simp: fr_ok_def nth_append)

lemma pred_option_less: "pred_option (\<lambda>i. i < n) x \<Longrightarrow> n \<le> m \<Longrightarrow> pred_option (\<lambda>i. i < (m :: nat)) x"
  by (cases x) auto

text \<open>One stack is replaced; the heap may grow.\<close>

lemma ana_ok_stack:
  assumes "ana_ok s" "heap s' = heap s @ h"
    and "\<forall>c l'. (c, l') \<noteq> (cpu, l) \<longrightarrow> get2 (stacks s') c l' = get2 (stacks s) c l'"
    and "\<forall>st. get2 (stacks s') cpu l = Some st \<longrightarrow> list_all (fr_ok (hcpus s') cpu) st"
    and "leus s' = leus s" "peu_start s' = peu_start s" "peu_entries s' = peu_entries s" "temps s' = temps s"
    and "pred_option (\<lambda>i. i < length (heap s')) (last_appended s')"
  shows "ana_ok s'"
proof -
  have h: "hcpus s' = hcpus s @ map e_cpu h" "length (heap s) \<le> length (heap s')" by (simp_all add: hcpus_def assms(2))
  have "list_all (fr_ok (hcpus s') c) st" if "get2 (stacks s') c l' = Some st" for c l' st
  proof (cases "(c, l') = (cpu, l)")
    case False
    then have "list_all (fr_ok (hcpus s) c) st" using assms(1,3) that by (auto simp: ana_ok_def)
    then show ?thesis unfolding h(1) list_all_iff by (blast intro: fr_ok_append)
  qed (use assms(4) that in auto)
  then show ?thesis
    using assms(1,5-9) h(2) pred_option_less [OF _ h(2)] unfolding ana_ok_def
    by (simp add: assms(2)) (meson order_less_le_trans trans_less_add1)
qed

text \<open>Fields of entries change, their processors do not.\<close>

lemma ana_ok_heap:
  assumes "ana_ok s" "hcpus s' = hcpus s" "s' = s\<lparr>heap := h\<rparr>"
  shows "ana_ok s'"
proof -
  have "length (heap s') = length (heap s)" using arg_cong [OF assms(2), of length] by (simp add: hcpus_def)
  then show ?thesis using assms(1,2) by (simp add: ana_ok_def assms(3))
qed

lemma upd_ent_hcpus:
  assumes "\<And>e. e_cpu (f e) = e_cpu e"
  shows "hcpus (upd_ent i f s) = hcpus s"
proof (cases "i < length (heap s)")
  case True
  then show ?thesis
    using list_update_id [of "map e_cpu (heap s)" i] by (simp add: hcpus_def upd_ent_def ent_def map_update assms)
qed (simp add: hcpus_def upd_ent_def not_less list_update_beyond)

lemma upd_ent_ok:
  assumes "ana_ok s" "\<And>e. e_cpu (f e) = e_cpu e"
  shows "ana_ok (upd_ent i f s)" "ext s (upd_ent i f s)"
proof -
  show "ana_ok (upd_ent i f s)"
    by (rule ana_ok_heap [OF assms(1) upd_ent_hcpus [where f = f, OF assms(2)]]) (simp add: upd_ent_def)
  show "ext s (upd_ent i f s)"
    using upd_ent_hcpus [where f = f, OF assms(2), of i s] by (simp add: ext_def) (simp add: upd_ent_def)
qed

lemma stack_of_ok: "ana_ok s \<Longrightarrow> list_all (fr_ok (hcpus s) cpu) (stack_of cpu s)"
  by (auto simp: stack_of_get2 ana_ok_def split: option.split)

section \<open>The stack operations\<close>

lemma stacked:
  assumes "stacks s cpu = Some m" "s' = s\<lparr>stacks := (stacks s)(cpu \<mapsto> m(GetCurrentLEU cpu s \<mapsto> st))\<rparr>"
  shows "stack_of cpu s' = st" "get2 (stacks s') cpu (GetCurrentLEU cpu s) = Some st"
    "\<forall>c l'. (c, l') \<noteq> (cpu, GetCurrentLEU cpu s) \<longrightarrow> get2 (stacks s') c l' = get2 (stacks s) c l'"
  by (auto simp: assms get2_upd stack_of_get2 GetCurrentLEU_def)

lemma cur_cong [simp]:
  "GetCurrentLEU c (s\<lparr>last_appended := x\<rparr>) = GetCurrentLEU c s" "GetCurrentLEU c (s\<lparr>heap := h\<rparr>) = GetCurrentLEU c s"
  "GetCurrentLEU c (s\<lparr>stacks := m\<rparr>) = GetCurrentLEU c s" "GetCurrentLEU c (s\<lparr>leus := n\<rparr>) = GetCurrentLEU c s"
  by (simp_all add: GetCurrentLEU_def)

lemma stack_of_cong [simp]:
  "stack_of c (s\<lparr>last_appended := x\<rparr>) = stack_of c s" "stack_of c (s\<lparr>heap := h\<rparr>) = stack_of c s"
  "stack_of c (s\<lparr>leus := n\<rparr>) = stack_of c s"
  by (simp_all add: stack_of_get2)

lemma near_ensure: "near s (ensure_stacks cpu s)"
  by (auto simp: near_def ensure_stacks_def split: option.split)

lemma ana_ok_ensure: "ana_ok s \<Longrightarrow> ana_ok (ensure_stacks cpu s)"
  by (rule ana_ok_stack [where h = "[]" and s = s]) (auto simp: ensure_stacks_def ana_ok_def hcpus_def get2_new split: option.splits)

definition noted :: "nat \<Rightarrow> svc list \<Rightarrow> svc list" where
  "noted i st = (if st = [] then [] else butlast st @ [(last st)\<lparr>sv_entries := sv_entries (last st) @ [i]\<rparr>])"

lemma noted_ok: "list_all (fr_ok cs cpu) st \<Longrightarrow> i < length cs \<Longrightarrow> list_all (fr_ok cs cpu) (noted i st)"
  by (cases st rule: rev_cases) (auto simp: noted_def fr_ok_def)

lemma PushEntry_ok:
  assumes "ana_ok s" "i < length (heap s)" "stack_of (e_cpu (ent s i)) s \<noteq> []"
  shows "\<exists>s'. PushEntry i s = Inr s' \<and> ana_ok s' \<and> near s s' \<and> heap s' = heap s \<and> last_appended s' = Some i
    \<and> stack_of (e_cpu (ent s i)) s' = noted i (stack_of (e_cpu (ent s i)) s) \<and> stacks s' (e_cpu (ent s i)) \<noteq> None"
proof -
  let ?cpu = "e_cpu (ent s i)" and ?s = "ensure_stacks (e_cpu (ent s i)) s" and ?st = "stack_of (e_cpu (ent s i)) s"
  obtain m where m: "stacks ?s ?cpu = Some m" using ensured by blast
  let ?t = "?s\<lparr>stacks := (stacks ?s)(?cpu \<mapsto> m(GetCurrentLEU ?cpu ?s \<mapsto> noted i ?st))\<rparr>"
  let ?s' = "?t\<lparr>last_appended := Some i\<rparr>"
  note st = stacked [OF m, of ?t, OF refl]
  have "PushEntry i s = Inr ?s'" using assms(3) put_stack_ok [OF m] by (simp add: PushEntry_def Let_def noted_def)
  moreover have "near s ?s'" using near_ensure [of s ?cpu] by (simp add: near_def)
  moreover have "list_all (fr_ok (hcpus ?s) ?cpu) (noted i ?st)"
    using stack_of_ok [OF ana_ok_ensure [OF assms(1), of ?cpu], of ?cpu] assms(2) by (intro noted_ok) (simp_all add: hcpus_def)
  then have "ana_ok ?s'"
    using st(2,3) assms(2)
    by (intro ana_ok_stack [OF ana_ok_ensure [OF assms(1), of ?cpu], of _ "[]" ?cpu "GetCurrentLEU ?cpu ?s"]) (simp_all add: hcpus_def)
  ultimately show ?thesis using st(1) by simp
qed

lemma PushService_ok:
  assumes "ana_ok s" "i < length (heap s)"
  shows "\<exists>s'. PushService i s = Inr (length (stack_of (e_cpu (ent s i)) s), s') \<and> ana_ok s' \<and> near s s' \<and> heap s' = heap s
    \<and> last_appended s' = Some i \<and> stack_of (e_cpu (ent s i)) s' = noted i (stack_of (e_cpu (ent s i)) s)"
proof (cases "stack_of (e_cpu (ent s i)) s = []")
  case True
  let ?s = "ensure_stacks (e_cpu (ent s i)) s\<lparr>last_appended := Some i\<rparr>"
  have "ana_ok ?s" using ana_ok_ensure [OF assms(1)] assms(2) by (simp add: ana_ok_def hcpus_def)
  moreover have "near s ?s" using near_ensure [of s "e_cpu (ent s i)"] by (simp add: near_def)
  moreover have "PushService i s = Inr (0, ?s)" using True by (simp add: PushService_def Let_def)
  ultimately show ?thesis using True by (simp add: noted_def)
next
  case False
  let ?s = "ensure_stacks (e_cpu (ent s i)) s"
  obtain s' where s': "PushEntry i ?s = Inr s'" "ana_ok s'" "near ?s s'" "heap s' = heap s" "last_appended s' = Some i"
    "stack_of (e_cpu (ent s i)) s' = noted i (stack_of (e_cpu (ent s i)) s)"
    using PushEntry_ok [OF ana_ok_ensure [OF assms(1)], of i "e_cpu (ent s i)"] assms(2) False by auto
  then have "PushService i s = Inr (length (stack_of (e_cpu (ent s i)) s), s')"
    using False by (simp add: PushService_def Let_def)
  then show ?thesis using s' near_trans [OF near_ensure] by blast
qed

text \<open>A new frame, and the entry that starts it.\<close>

lemma push_fresh:
  assumes "ana_ok s" "stacks s cpu = Some m" "heap s' = heap s @ h" "j < length (heap s')" "e_cpu (ent s' j) = cpu"
    "s' = (s\<lparr>stacks := (stacks s)(cpu \<mapsto> m(GetCurrentLEU cpu s \<mapsto> stack_of cpu s @ [f\<lparr>sv_entries := []\<rparr>]))\<rparr>)\<lparr>heap := heap s @ h\<rparr>"
  shows "\<exists>s''. PushService j s' = Inr (Suc (length (stack_of cpu s)), s'') \<and> ana_ok s'' \<and> near s s''
    \<and> last_appended s'' = Some j \<and> stack_of cpu s'' = stack_of cpu s @ [f\<lparr>sv_entries := [j]\<rparr>]"
proof -
  let ?l = "GetCurrentLEU cpu s"
  let ?n = "m(?l \<mapsto> stack_of cpu s @ [f\<lparr>sv_entries := []\<rparr>])"
  have m': "stacks s' cpu = Some ?n" "GetCurrentLEU cpu s' = ?l" by (simp_all add: assms(6))
  have st: "stack_of cpu s' = stack_of cpu s @ [f\<lparr>sv_entries := []\<rparr>]" by (simp add: stack_of_def [of cpu s'] m')
  let ?t = "s'\<lparr>stacks := (stacks s')(cpu \<mapsto> ?n(?l \<mapsto> stack_of cpu s @ [f\<lparr>sv_entries := [j]\<rparr>]))\<rparr>"
  let ?s' = "?t\<lparr>last_appended := Some j\<rparr>"
  note sk = stacked [OF m'(1), of ?t, unfolded m'(2), OF refl]
  have sk0: "\<forall>c l'. (c, l') \<noteq> (cpu, ?l) \<longrightarrow> get2 (stacks s') c l' = get2 (stacks s) c l'"
    using stacked(3) [OF assms(2) refl] by (simp add: assms(6))
  have e: "ensure_stacks cpu s' = s'" by (simp add: ensure_stacks_def m')
  have "PushEntry j s' = Inr ?s'" using put_stack_ok [OF m'(1)] e st m'(2) by (simp add: PushEntry_def Let_def assms(5))
  then have "PushService j s' = Inr (Suc (length (stack_of cpu s)), ?s')" using st e by (simp add: PushService_def Let_def assms(5))
  moreover have "near s ?s'" using assms(3) by (simp add: near_def assms(6))
  moreover have "hcpus s' = hcpus s @ map e_cpu h" by (simp add: hcpus_def assms(3))
  then have "list_all (fr_ok (hcpus s') cpu) (stack_of cpu s)"
    using stack_of_ok [OF assms(1), of cpu] fr_ok_append by (auto simp: list_all_iff)
  then have "list_all (fr_ok (hcpus s') cpu) (stack_of cpu s @ [f\<lparr>sv_entries := [j]\<rparr>])"
    using assms(4,5) by (simp add: fr_ok_def) (simp add: hcpus_def ent_def)
  then have "ana_ok ?s'"
    using sk(2,3) sk0 assms(3,4) by (intro ana_ok_stack [OF assms(1), of _ h cpu ?l]) (auto simp: hcpus_def assms(6))
  ultimately show ?thesis using sk(1) by simp
qed

lemma PopService_ok:
  assumes "ana_ok s" "stack_of (e_cpu (ent s i)) s \<noteq> []"
  shows "\<exists>s'. PopService i s = Inr (last (stack_of (e_cpu (ent s i)) s), s') \<and> ana_ok s' \<and> near s s' \<and> heap s' = heap s
    \<and> stacks s' (e_cpu (ent s i)) \<noteq> None"
proof -
  let ?cpu = "e_cpu (ent s i)" and ?s = "ensure_stacks (e_cpu (ent s i)) s" and ?st = "stack_of (e_cpu (ent s i)) s"
  obtain m where m: "stacks ?s ?cpu = Some m" using ensured by blast
  let ?t = "?s\<lparr>stacks := (stacks ?s)(?cpu \<mapsto> m(GetCurrentLEU ?cpu ?s \<mapsto> butlast ?st))\<rparr>"
  note sk = stacked [OF m, of ?t, OF refl]
  have "PopService i s = Inr (last ?st, ?t)" using assms(2) put_stack_ok [OF m] by (simp add: PopService_def Let_def)
  moreover have "near s ?t" using near_ensure [of s ?cpu] by (simp add: near_def)
  moreover have "list_all (fr_ok (hcpus ?s) ?cpu) (butlast ?st)"
    using stack_of_ok [OF ana_ok_ensure [OF assms(1), of ?cpu], of ?cpu] by (auto simp: list_all_iff dest: in_set_butlastD)
  then have "ana_ok ?t"
    using sk(2,3) ana_ok_ensure [OF assms(1), of ?cpu]
    by (intro ana_ok_stack [OF ana_ok_ensure [OF assms(1), of ?cpu], of _ "[]" ?cpu "GetCurrentLEU ?cpu ?s"]) (simp_all add: hcpus_def ana_ok_def)
  ultimately show ?thesis by simp
qed

lemma alloc_ok:
  assumes "ana_ok s"
  shows "ana_ok (s\<lparr>heap := heap s @ h\<rparr>)" "near s (s\<lparr>heap := heap s @ h\<rparr>)"
proof -
  show "ana_ok (s\<lparr>heap := heap s @ h\<rparr>)"
    by (rule ana_ok_stack [OF assms, of _ h 0 "LEU [] 0"])
      (use assms in \<open>auto simp: ana_ok_def list_all_iff hcpus_def intro: fr_ok_append pred_option_less\<close>)
qed (simp add: near_def)

lemma PushNewService_ok:
  assumes "ana_ok s" "i < length (heap s)"
  shows "\<exists>n s'. PushNewService i f s = Inr (n, s') \<and> ana_ok s' \<and> near s s' \<and> last_appended s' \<noteq> None
    \<and> 0 < n \<and> n = length (stack_of (e_cpu (ent s i)) s')"
proof -
  let ?cpu = "e_cpu (ent s i)" and ?s = "ensure_stacks (e_cpu (ent s i)) s" and ?e = "ent s i"
  let ?c = "0 < length (stack_of ?cpu ?s) \<and> \<not> contains (e_location ?e) ''irq_exit''"
  obtain s1 where s1: "(if ?c then (case alloc ?e ?s of (j, s') \<Rightarrow> PushEntry j s') else Inr ?s) = Inr s1"
    "ana_ok s1" "near s s1" "stacks s1 ?cpu \<noteq> None"
  proof (cases ?c)
    case True
    let ?s1 = "?s\<lparr>heap := heap ?s @ [?e]\<rparr>" and ?j = "length (heap ?s)"
    note al = alloc_ok [OF ana_ok_ensure [OF assms(1), of ?cpu], of "[?e]"]
    have e: "ent ?s1 ?j = ?e" by (simp add: ent_def)
    obtain s1 where "PushEntry ?j ?s1 = Inr s1" "ana_ok s1" "near ?s1 s1" "stacks s1 ?cpu \<noteq> None"
      using PushEntry_ok [OF al(1), of ?j] True unfolding e by auto
    then show ?thesis
      using that True near_trans [OF near_trans [OF near_ensure al(2)]] by (simp add: alloc_def)
  next
    case False
    then show ?thesis using that [of ?s] near_ensure ana_ok_ensure [OF assms(1)] ensured [of ?cpu s] by auto
  qed
  obtain m where m: "stacks s1 ?cpu = Some m" using s1(4) by auto
  let ?f = "\<lparr>sv_name = f, sv_entries = [], sv_packets = []\<rparr>"
  let ?s2 = "s1\<lparr>stacks := (stacks s1)(?cpu \<mapsto> m(GetCurrentLEU ?cpu s1 \<mapsto> stack_of ?cpu s1 @ [?f]))\<rparr>"
  have e2: "ent ?s2 i = ?e" using near_ent [OF s1(3) assms(2)] by (simp add: ent_def)
  let ?s3 = "?s2\<lparr>heap := heap s1 @ [?e]\<rparr>"
  obtain s4 where s4: "PushService (length (heap s1)) ?s3 = Inr (Suc (length (stack_of ?cpu s1)), s4)" "ana_ok s4" "near s1 s4"
    "last_appended s4 = Some (length (heap s1))" "length (stack_of ?cpu s4) = Suc (length (stack_of ?cpu s1))"
    using push_fresh [OF s1(2) m, of ?s3 "[?e]" "length (heap s1)" ?f] by (auto simp: ent_def)
  have "PushNewService i f s = Inr (Suc (length (stack_of ?cpu s1)), s4)"
    using s1(1) s4(1) e2 put_stack_ok [OF m, of "stack_of ?cpu s1 @ [?f]"]
    by (simp add: PushNewService_def Let_def alloc_def split del: if_split cong: if_cong)
  then show ?thesis using s4 near_trans [OF s1(3)] by simp
qed

lemma PushServiceToLEU_ok:
  assumes "ana_ok s" "leus s (GetCurrentLEU (e_cpu (ent s i)) s) \<noteq> None" "\<forall>j\<in>set (sv_entries sv). j < length (heap s)"
  shows "\<exists>s'. PushServiceToLEU i sv s = Inr s' \<and> ana_ok s' \<and> near s s' \<and> heap s' = heap s \<and> stacks s' = stacks s"
proof -
  let ?l = "GetCurrentLEU (e_cpu (ent s i)) s"
  obtain m where m: "leus s ?l = Some m" using assms(2) by auto
  let ?es = "(case m (sv_name sv) of None \<Rightarrow> [] | Some es \<Rightarrow> es) @ [\<lparr>le_entries = sv_entries sv, le_packets = sv_packets sv\<rparr>]"
  let ?s = "s\<lparr>leus := (leus s)(?l \<mapsto> m(sv_name sv \<mapsto> ?es))\<rparr>"
  have "\<forall>x\<in>set ?es. \<forall>j\<in>set (le_entries x). j < length (heap s)"
  proof (cases "m (sv_name sv)")
    case (Some es)
    then have "get2 (leus s) ?l (sv_name sv) = Some es" using m by (simp add: get2_def)
    then show ?thesis using assms(1,3) Some by (auto simp: ana_ok_def)
  qed (use assms(3) in simp)
  then have new: "\<forall>es. get2 (leus ?s) l f = Some es \<longrightarrow> (\<forall>x\<in>set es. \<forall>j\<in>set (le_entries x). j < length (heap s))" for l f
    using assms(1) by (cases "l = ?l \<and> f = sv_name sv") (auto simp: get2_upd [where m = "leus s", OF m] ana_ok_def)
  have "ana_ok ?s" using assms(1) new by (auto simp: ana_ok_def hcpus_def)
  moreover have "near s ?s" by (auto simp: near_def)
  moreover have "PushServiceToLEU i sv s = Inr ?s" using m by (simp add: PushServiceToLEU_def Let_def)
  ultimately show ?thesis by simp
qed

lemma ensure_leu_ok:
  assumes "ana_ok s"
  shows "ana_ok (ensure_leu l s)" "near s (ensure_leu l s)" "leus (ensure_leu l s) l \<noteq> None"
  using assms by (auto simp: ensure_leu_def ana_ok_def near_def hcpus_def get2_new split: option.split)

section \<open>Physical execution units\<close>

text \<open>
  The outcome of a handler on a well-typed state: a panic only if \<open>risky\<close>, and otherwise a well-typed
  state again.
\<close>

definition sound :: "bool \<Rightarrow> ana \<Rightarrow> ana outcome \<Rightarrow> bool" where
  "sound risky s r = (case r of Inl e \<Rightarrow> risky | Inr s' \<Rightarrow> ana_ok s' \<and> units_ok s' \<and> ext s s')"

lemma ext_refl [simp]: "ext s s"
  by (simp add: ext_def)

lemma sound_Inr: "sound risky s (Inr s') \<longleftrightarrow> ana_ok s' \<and> units_ok s' \<and> ext s s'"
  by (simp add: sound_def)

lemma sound_bind:
  assumes "sound risky s r" "\<And>s'. r = Inr s' \<Longrightarrow> ana_ok s' \<Longrightarrow> units_ok s' \<Longrightarrow> ext s s' \<Longrightarrow> sound risky s' (f s')"
  shows "sound risky s (bind_outcome r f)"
proof (cases r)
  case (Inr s')
  then have s': "ana_ok s'" "units_ok s'" "ext s s'" using assms(1) by (simp_all add: sound_def)
  have "sound risky s' (f s')" by (rule assms(2) [OF Inr s'])
  then show ?thesis using s'(3) ext_trans Inr by (auto simp: sound_def split: sum.splits)
qed (use assms(1) in \<open>simp add: sound_def\<close>)

lemma sound_ext: "ext s s' \<Longrightarrow> sound risky s' r \<Longrightarrow> sound risky s r"
  unfolding sound_def by (cases r) (auto intro: ext_trans)

lemma units_cong: "cur_leu s' = cur_leu s \<Longrightarrow> interrupted s' = interrupted s \<Longrightarrow> leus s' = leus s \<Longrightarrow> units_ok s' = units_ok s"
  by (simp add: units_ok_def)

lemma upd_ent_fields [simp]:
  "cur_leu (upd_ent i f s) = cur_leu s" "interrupted (upd_ent i f s) = interrupted s" "leus (upd_ent i f s) = leus s"
  "stacks (upd_ent i f s) = stacks s" "temps (upd_ent i f s) = temps s" "peu_start (upd_ent i f s) = peu_start s"
  "peu_entries (upd_ent i f s) = peu_entries s" "last_appended (upd_ent i f s) = last_appended s"
  "length (heap (upd_ent i f s)) = length (heap s)" "GetCurrentLEU c (upd_ent i f s) = GetCurrentLEU c s"
  "stack_of c (upd_ent i f s) = stack_of c s"
  by (simp_all add: upd_ent_def)

lemma peu_match_sound:
  assumes "ana_ok s" "units_ok s"
  shows "sound True s (peu_match k s)"
proof (cases "peu_start s")
  case (Some st)
  let ?f = "\<lambda>j e. e\<lparr>e_peudur := e_cycles (ent s j) - e_cycles e, e_peuirq := e_pid1 (ent s j)\<rparr>"
  have "ana_ok ((upd_ent st (?f j) s)\<lparr>peu_start := None, peu_entries := []\<rparr>)
      \<and> ext s ((upd_ent st (?f j) s)\<lparr>peu_start := None, peu_entries := []\<rparr>)" for j
    using upd_ent_ok [OF assms(1), of "?f j" st] by (simp add: ana_ok_def ext_def hcpus_def)
  then show ?thesis using assms(2) Some
    by (auto simp: peu_match_def sound_def bind_outcome_def units_ok_def split: sum.split)
qed (auto simp: peu_match_def sound_def bind_outcome_def split: sum.split)

lemma peu_scan_sound:
  assumes "ana_ok s" "units_ok s"
  shows "sound True s (peu_scan js index iw sv ic s)"
  using assms
proof (induction js arbitrary: index iw sv ic s)
  case (Cons j js)
  have m: "sound True s (bind_outcome (peu_match k s) (peu_scan js index' iw' sv' ic'))" for k index' iw' sv' ic'
    by (rule sound_bind [OF peu_match_sound [OF Cons.prems]]) (rule Cons.IH)
  show ?case using Cons m by (simp add: Let_def)
qed (simp add: sound_Inr)

lemma sound_mono: "sound p s r \<Longrightarrow> (p \<Longrightarrow> q) \<Longrightarrow> sound q s r"
  by (auto simp: sound_def split: sum.splits)

lemma AppendToPEU_sound:
  assumes "ana_ok s" "units_ok s" "i < length (heap s)"
  shows "sound (peu_start s \<noteq> None) s (AppendToPEU i s)"
proof -
  let ?s = "s\<lparr>peu_entries := peu_entries s @ [i]\<rparr>" and ?t = "s\<lparr>peu_start := Some i, peu_entries := []\<rparr>"
  have ok: "ana_ok ?s" "units_ok ?s" "ext s ?s" "ana_ok ?t" "units_ok ?t" "ext s ?t"
    using assms by (simp_all add: ana_ok_def units_ok_def ext_def hcpus_def)
  have "sound True s (peu_scan (peu_entries ?s) 0 0 [] 0 ?s)"
    by (rule sound_ext [OF ok(3) peu_scan_sound [OF ok(1,2)]])
  then show ?thesis using assms ok by (auto simp: AppendToPEU_def Let_def sound_Inr elim: sound_mono)
qed

lemma append_top_sound:
  assumes "ana_ok s" "units_ok s" "0 < n" "n \<le> length (stack_of (e_cpu (ent s i)) s)"
  shows "sound (peu_start s \<noteq> None) s (append_top_to_PEU n i s)"
proof -
  let ?cpu = "e_cpu (ent s i)"
  let ?s = "ensure_stacks ?cpu s" and ?sv = "stack_of ?cpu s ! (n - 1)"
  have ok: "ana_ok ?s" "units_ok ?s" "ext s ?s"
    using ana_ok_ensure [OF assms(1)] near_units [OF near_ensure assms(2)] near_ext [OF near_ensure] by auto
  have n: "n - 1 < length (stack_of ?cpu ?s)" using assms(3,4) by simp
  then have "fr_ok (hcpus ?s) ?cpu ?sv" using stack_of_ok [OF ok(1), of ?cpu] by (simp add: list_all_length)
  then have sv: "sv_entries ?sv \<noteq> []" "last (sv_entries ?sv) < length (heap ?s)" by (auto simp: fr_ok_def hcpus_def)
  have "sound (peu_start s \<noteq> None) s (AppendToPEU (last (sv_entries ?sv)) ?s)"
    using sound_ext [OF ok(3) AppendToPEU_sound [OF ok(1,2) sv(2)]] by simp
  then show ?thesis using n sv(1) by (simp add: append_top_to_PEU_def Let_def)
qed

lemma push_to_PEU_sound:
  assumes "ana_ok s" "units_ok s" "i < length (heap s)"
  shows "sound (peu_start s \<noteq> None) s (push_to_PEU i s)"
proof -
  let ?st = "stack_of (e_cpu (ent s i)) s"
  obtain s' where s': "PushService i s = Inr (length ?st, s')" "ana_ok s'" "near s s'" "heap s' = heap s"
      "stack_of (e_cpu (ent s i)) s' = noted i ?st"
    using PushService_ok [OF assms(1,3)] by blast
  have u: "units_ok s'" "peu_start s' = peu_start s" "ent s' i = ent s i"
    using near_units [OF s'(3) assms(2)] s'(3) near_ent [OF s'(3) assms(3)] by (simp_all add: near_def)
  have "sound (peu_start s \<noteq> None) s' (if ?st \<noteq> [] then append_top_to_PEU (length ?st) i s' else Inr s')"
    using append_top_sound [OF s'(2) u(1), of "length ?st" i] s'(2,5) u by (auto simp: noted_def sound_Inr)
  then show ?thesis using sound_ext [OF near_ext [OF s'(3)]] s'(1) by (simp add: push_to_PEU_def)
qed

section \<open>The handlers\<close>

lemma push_ok:
  assumes "ana_ok s" "i < length (heap s)"
  shows "\<exists>s'. push i s = Inr s' \<and> ana_ok s' \<and> near s s' \<and> heap s' = heap s
    \<and> last_appended s' = Some i \<and> stack_of (e_cpu (ent s i)) s' = noted i (stack_of (e_cpu (ent s i)) s)"
  using PushService_ok [OF assms] by auto

lemma push_sound: "ana_ok s \<Longrightarrow> units_ok s \<Longrightarrow> i < length (heap s) \<Longrightarrow> sound False s (push i s)"
  using push_ok [of s i] near_units near_ext by (fastforce simp: sound_Inr)

lemma new_service_sound:
  assumes "ana_ok s" "units_ok s" "i < length (heap s)"
  shows "sound False s (bind_outcome (PushNewService i f s) (\<lambda>(n, s'). Inr s'))"
  using PushNewService_ok [OF assms(1,3), of f] near_units [OF _ assms(2)] near_ext by (fastforce simp: sound_Inr)

lemma CTXSW_ok:
  assumes "ana_ok s" "units_ok s" "i < length (heap s)"
  shows "\<exists>s'. handleCTXSW i s = Inr s' \<and> ana_ok s' \<and> units_ok s' \<and> ext s s' \<and> cur_leu s' (e_cpu (ent s i)) \<noteq> None
    \<and> last_appended s' \<noteq> None"
proof -
  let ?cpu = "e_cpu (ent s i)" and ?l = "LEU ''Thread'' (e_pid2 (ent s i))"
  obtain s1 where s1: "push i s = Inr s1" "ana_ok s1" "near s s1" "heap s1 = heap s" using push_ok [OF assms(1,3)] by blast
  have e1: "ent s1 i = ent s i" by (simp add: ent_def s1(4))
  let ?s1 = "s1\<lparr>cur_leu := (cur_leu s1)(?cpu \<mapsto> ?l)\<rparr>"
  have "ana_ok ?s1" using s1(2) by (simp add: ana_ok_def hcpus_def)
  then obtain s2 where s2: "push i ?s1 = Inr s2" "ana_ok s2" "near ?s1 s2" "last_appended s2 = Some i"
    using push_ok [of ?s1 i] s1(4) assms(3) by auto
  let ?s3 = "ensure_leu ?l s2"
  note l = ensure_leu_ok [OF s2(2), of ?l]
  have n3: "near ?s1 ?s3" by (rule near_trans [OF s2(3) l(2)])
  have run: "handleCTXSW i s = Inr ?s3" using s1(1) s2(1) e1 by (simp add: handleCTXSW_def Let_def)
  have u1: "units_ok s1" by (rule near_units [OF s1(3) assms(2)])
  have d: "dom (leus s1) \<subseteq> dom (leus ?s3)" "cur_leu ?s3 = (cur_leu s1)(?cpu \<mapsto> ?l)" "interrupted ?s3 = interrupted s1"
    using n3 by (simp_all add: near_def)
  then have "units_ok ?s3" using u1 l(3) unfolding units_ok_def by (simp add: subset_eq domIff)
  moreover have "ext s1 ?s3" using near_ext [OF n3] by (auto simp: ext_def hcpus_def)
  then have "ext s ?s3" by (rule ext_trans [OF near_ext [OF s1(3)]])
  moreover have "last_appended ?s3 \<noteq> None" using l(2) s2(4) by (simp add: near_def)
  ultimately show ?thesis using run l(1) d(2) by simp
qed

lemma fr_ok_entries: "fr_ok (hcpus s) cpu sv \<Longrightarrow> \<forall>j\<in>set (sv_entries sv). j < length (heap s)"
  by (simp add: fr_ok_def hcpus_def)

lemma noted_last:
  "st \<noteq> [] \<Longrightarrow> noted i st \<noteq> [] \<and> last (noted i st) = (last st)\<lparr>sv_entries := sv_entries (last st) @ [i]\<rparr>"
  by (simp add: noted_def)

lemma last_frame: "ana_ok s \<Longrightarrow> stack_of cpu s \<noteq> [] \<Longrightarrow> fr_ok (hcpus s) cpu (last (stack_of cpu s))"
  using stack_of_ok [of s cpu] by (auto simp: list_all_iff)

text \<open>The popped service is recorded for the current unit.\<close>

lemma pop_record_ok:
  assumes "ana_ok s" "i < length (heap s)" "stack_of (e_cpu (ent s i)) s \<noteq> []"
  shows "\<exists>sv s1 s2. PopService i s = Inr (sv, s1)
    \<and> PushServiceToLEU i sv (ensure_leu (GetCurrentLEU (e_cpu (ent s1 i)) s1) s1) = Inr s2 \<and> ana_ok s2 \<and> near s s2 \<and> heap s2 = heap s"
proof -
  let ?cpu = "e_cpu (ent s i)"
  let ?sv = "last (stack_of ?cpu s)"
  obtain s1 where s1: "PopService i s = Inr (?sv, s1)" "ana_ok s1" "near s s1" "heap s1 = heap s"
    using PopService_ok [OF assms(1,3)] by blast
  let ?s1 = "ensure_leu (GetCurrentLEU (e_cpu (ent s1 i)) s1) s1"
  note l = ensure_leu_ok [OF s1(2), of "GetCurrentLEU (e_cpu (ent s1 i)) s1"]
  have "\<forall>j\<in>set (sv_entries ?sv). j < length (heap ?s1)"
    using fr_ok_entries [OF last_frame [OF assms(1,3)]] s1(4) by simp
  then obtain s2 where "PushServiceToLEU i ?sv ?s1 = Inr s2" "ana_ok s2" "near ?s1 s2" "heap s2 = heap ?s1"
    using PushServiceToLEU_ok [OF l(1), of i ?sv] l(3) by auto
  then show ?thesis using s1 near_trans [OF near_trans [OF s1(3) l(2)]] by auto
qed

lemma SRVEXIT_ok:
  assumes "ana_ok s" "i < length (heap s)"
  shows "\<exists>b s'. handleSRVEXIT i s = Inr (b, s') \<and> ana_ok s' \<and> near s s' \<and> heap s' = heap s"
proof -
  let ?st = "stack_of (e_cpu (ent s i)) s"
  obtain s1 where s1: "PushService i s = Inr (length ?st, s1)" "ana_ok s1" "near s s1" "heap s1 = heap s"
      "stack_of (e_cpu (ent s i)) s1 = noted i ?st"
    using PushService_ok [OF assms] by blast
  have e1: "ent s1 = ent s" by (simp add: ent_def [abs_def] s1(4))
  show ?thesis
  proof (cases "?st = []")
    case True
    then show ?thesis using s1 by (auto simp: handleSRVEXIT_def)
  next
    case False
    have i1: "i < length (heap s1)" using assms(2) by (simp add: s1(4))
    have "stack_of (e_cpu (ent s1 i)) s1 \<noteq> []" using s1(5) noted_last [OF False] e1 by simp
    from pop_record_ok [OF s1(2) i1 this] obtain sv s2 s3
      where s3: "PopService i s1 = Inr (sv, s2)" "PushServiceToLEU i sv (ensure_leu (GetCurrentLEU (e_cpu (ent s2 i)) s2) s2) = Inr s3"
        "ana_ok s3" "near s1 s3" "heap s3 = heap s1" by blast
    obtain s4 where "push i s3 = Inr s4" "ana_ok s4" "near s3 s4" "heap s4 = heap s3"
      using push_ok [OF s3(3), of i] i1 s3(5) by auto
    then show ?thesis
      using s1 s3 False near_trans [OF s1(3) near_trans [OF s3(4)]] by (auto simp: handleSRVEXIT_def)
  qed
qed

lemma HIRQEntry_sound:
  assumes "ana_ok s" "units_ok s" "i < length (heap s)" "cur_leu s (e_cpu (ent s i)) \<noteq> None"
  shows "sound (peu_start s \<noteq> None) s (handleHIRQEntry i s)"
proof -
  let ?cpu = "e_cpu (ent s i)" and ?irq = "e_pid1 (ent s i)"
  let ?l = "LEU ''Hardware Interrupt'' ?irq"
  obtain s1 where s1: "push i s = Inr s1" "ana_ok s1" "near s s1" "heap s1 = heap s" using push_ok [OF assms(1,3)] by blast
  have e1: "ent s1 i = ent s i" by (simp add: ent_def s1(4))
  let ?s2 = "s1\<lparr>interrupted := interrupted s1 @ [GetCurrentLEU ?cpu s1], cur_leu := (cur_leu s1)(?cpu \<mapsto> ?l)\<rparr>"
  let ?s3 = "ensure_leu ?l ?s2"
  have ok2: "ana_ok ?s2" using s1(2) by (simp add: ana_ok_def hcpus_def)
  note l = ensure_leu_ok [OF ok2, of ?l]
  have u1: "units_ok s1" by (rule near_units [OF s1(3) assms(2)])
  have c: "leus s1 (GetCurrentLEU ?cpu s1) \<noteq> None"
    using assms(4) s1(3) u1 by (auto simp: GetCurrentLEU_def near_def units_ok_def)
  have d: "dom (leus s1) \<subseteq> dom (leus ?s3)" "cur_leu ?s3 = (cur_leu s1)(?cpu \<mapsto> ?l)"
    "interrupted ?s3 = interrupted s1 @ [GetCurrentLEU ?cpu s1]" "peu_start ?s3 = peu_start s" "heap ?s3 = heap s1"
    using l(2) s1(3) by (simp_all add: near_def)
  then have u3: "units_ok ?s3" using u1 l(3) c unfolding units_ok_def by (simp add: subset_eq domIff)
  have i3: "i < length (heap ?s3)" "ent ?s3 i = ent s i" using assms(3) s1(4) e1 by (simp_all add: ent_def)
  obtain n s4 where s4: "PushNewService i (''HIRQ-'' @ itoa ?irq) ?s3 = Inr (n, s4)" "ana_ok s4" "near ?s3 s4"
      "0 < n" "n = length (stack_of ?cpu s4)"
    using PushNewService_ok [OF l(1) i3(1), of "''HIRQ-'' @ itoa ?irq"] unfolding i3(2) by blast
  have u4: "units_ok s4" "ent s4 i = ent s i" "peu_start s4 = peu_start s"
    using near_units [OF s4(3) u3] near_ent [OF s4(3) i3(1)] i3(2) s4(3) d(4) by (simp_all add: near_def)
  have "ext s1 ?s3" using near_ext [OF l(2)] by (auto simp: ext_def hcpus_def)
  then have x: "ext s s4" by (rule ext_trans [OF ext_trans [OF near_ext [OF s1(3)]] near_ext [OF s4(3)]])
  have "sound (peu_start s \<noteq> None) s4 (append_top_to_PEU n i s4)"
    using append_top_sound [OF s4(2) u4(1), of n i] s4(4,5) u4 by simp
  then have "sound (peu_start s \<noteq> None) s (append_top_to_PEU n i s4)" by (rule sound_ext [OF x])
  then show ?thesis using s1(1) s4(1,4) e1 by (simp add: handleHIRQEntry_def Let_def)
qed

lemma HIRQExit_sound:
  assumes "ana_ok s" "units_ok s" "i < length (heap s)"
  shows "sound (peu_start s \<noteq> None \<or> interrupted s = []) s (handleHIRQExit i s)"
proof -
  obtain b s1 where s1: "handleSRVEXIT i s = Inr (b, s1)" "ana_ok s1" "near s s1" "heap s1 = heap s"
    using SRVEXIT_ok [OF assms(1,3)] by blast
  have u1: "units_ok s1" "interrupted s1 = interrupted s" "peu_start s1 = peu_start s"
    using near_units [OF s1(3) assms(2)] s1(3) by (simp_all add: near_def)
  let ?s2 = "s1\<lparr>cur_leu := (cur_leu s1)(e_cpu (ent s1 i) \<mapsto> last (interrupted s1)), interrupted := butlast (interrupted s1)\<rparr>"
  show ?thesis
  proof (cases "b \<and> interrupted s1 \<noteq> []")
    case True
    then have u2: "units_ok ?s2" using u1(1) unfolding units_ok_def by (auto dest: in_set_butlastD)
    moreover have "ana_ok ?s2" using s1(2) by (simp add: ana_ok_def hcpus_def)
    ultimately have "sound (peu_start s \<noteq> None) ?s2 (push_to_PEU i ?s2)"
      using push_to_PEU_sound [of ?s2 i] assms(3) s1(4) u1(3) by simp
    moreover have "ext s1 ?s2" by (auto simp: ext_def hcpus_def)
    then have "ext s ?s2" by (rule ext_trans [OF near_ext [OF s1(3)]])
    ultimately have "sound (peu_start s \<noteq> None) s (push_to_PEU i ?s2)" by (rule sound_ext [rotated])
    then have "sound (peu_start s \<noteq> None \<or> interrupted s = []) s (push_to_PEU i ?s2)" by (rule sound_mono) simp
    then show ?thesis using s1(1) True by (simp add: handleHIRQExit_def)
  next
    case False
    then show ?thesis using s1 u1 near_ext by (auto simp: handleHIRQExit_def sound_def)
  qed
qed

lemma ensured_state:
  assumes "ana_ok s" "units_ok s"
  shows "ana_ok (ensure_stacks cpu s)" "units_ok (ensure_stacks cpu s)" "ext s (ensure_stacks cpu s)"
    "peu_start (ensure_stacks cpu s) = peu_start s"
  using ana_ok_ensure [OF assms(1)] near_units [OF near_ensure assms(2)] near_ext [OF near_ensure] by auto

lemma LOOPSTART_sound:
  assumes "ana_ok s" "units_ok s" "i < length (heap s)"
  shows "sound False s (handleLOOPSTART i s)"
proof -
  note e = ensured_state [OF assms(1,2), of "e_cpu (ent s i)"]
  have "sound False s (bind_outcome (PushNewService i f (ensure_stacks (e_cpu (ent s i)) s)) (\<lambda>(n, s'). Inr s'))" for f
    using new_service_sound [OF e(1,2), of i f] assms(3) by (intro sound_ext [OF e(3)]) simp
  then show ?thesis using e by (simp add: handleLOOPSTART_def Let_def sound_Inr)
qed

text \<open>An iteration ends: the popped service is recorded, its first entry becomes the start of a loop.\<close>

lemma loop_record_ok:
  assumes "ana_ok s" "units_ok s" "i < length (heap s)" "cur_leu s (e_cpu (ent s i)) \<noteq> None"
    "\<forall>j\<in>set (sv_entries sv). j < length (heap s)"
  shows "\<exists>s'. PushServiceToLEU i sv (upd_ent f (\<lambda>e. e\<lparr>e_type := ''LOOPSTART''\<rparr>) s) = Inr s' \<and> ana_ok s' \<and> units_ok s' \<and> ext s s'
    \<and> stacks s' = stacks s \<and> length (heap s') = length (heap s)"
proof -
  let ?s = "upd_ent f (\<lambda>e. e\<lparr>e_type := ''LOOPSTART''\<rparr>) s"
  have ok: "ana_ok ?s" "ext s ?s" using upd_ent_ok [OF assms(1), of "\<lambda>e. e\<lparr>e_type := ''LOOPSTART''\<rparr>" f] by simp_all
  have "e_cpu (ent ?s i) = e_cpu (ent s i)" using ext_ent [OF ok(2) assms(3)] by simp
  then have "leus ?s (GetCurrentLEU (e_cpu (ent ?s i)) ?s) \<noteq> None"
    using assms(2,4) by (auto simp: units_ok_def GetCurrentLEU_def)
  then obtain s' where s': "PushServiceToLEU i sv ?s = Inr s'" "ana_ok s'" "near ?s s'" "heap s' = heap ?s" "stacks s' = stacks ?s"
    using PushServiceToLEU_ok [OF ok(1), of i sv] assms(5) by auto
  moreover have "units_ok s'" using near_units [OF s'(3)] assms(2) by (simp add: units_ok_def)
  moreover have "ext s s'" by (rule ext_trans [OF ok(2) near_ext [OF s'(3)]])
  ultimately show ?thesis by simp
qed

lemma LOOPRSTART_sound:
  assumes "ana_ok s0" "units_ok s0" "i < length (heap s0)" "cur_leu s0 (e_cpu (ent s0 i)) \<noteq> None" "e_type (ent s0 i) = ''LOOPRSTART''"
  shows "sound False s0 (handleLOOPRSTART i s0)"
proof -
  let ?cpu = "e_cpu (ent s0 i)"
  let ?s = "ensure_stacks ?cpu s0" and ?st = "stack_of ?cpu s0"
  note e = ensured_state [OF assms(1,2), of ?cpu]
  show ?thesis
  proof (cases "?st = []")
    case True
    then show ?thesis using e by (simp add: handleLOOPRSTART_def Let_def sound_Inr)
  next
    case False
    let ?k = "last (sv_entries (last ?st))"
    have fr: "fr_ok (hcpus ?s) ?cpu (last ?st)" using last_frame [OF e(1), of ?cpu] False by simp
    then have ne: "sv_entries (last ?st) \<noteq> []" by (simp add: fr_ok_def)
    show ?thesis
    proof (cases "e_type (ent ?s ?k) = ''LOOPSTART''")
      case True
      let ?f = "\<lambda>e. e\<lparr>e_type := ''LOOPRSTART'', e_cycles := e_cycles (ent s0 i)\<rparr>"
      have "ana_ok (upd_ent ?k ?f ?s)" "ext ?s (upd_ent ?k ?f ?s)" "units_ok (upd_ent ?k ?f ?s)"
        using upd_ent_ok [OF e(1), of ?f ?k] e(2) by (simp_all add: units_ok_def)
      then show ?thesis using True False ne ext_trans [OF e(3)] by (simp add: handleLOOPRSTART_def Let_def sound_Inr)
    next
      case no: False
      obtain s1 where s1: "push i ?s = Inr s1" "ana_ok s1" "near ?s s1" "heap s1 = heap s0" "stack_of ?cpu s1 = noted i ?st"
        using push_ok [OF e(1), of i] assms(3) by auto
      have e1: "ent s1 i = ent s0 i" by (simp add: ent_def s1(4))
      let ?sv = "(last ?st)\<lparr>sv_entries := sv_entries (last ?st) @ [i]\<rparr>"
      have "stack_of (e_cpu (ent s1 i)) s1 \<noteq> []" "last (stack_of (e_cpu (ent s1 i)) s1) = ?sv"
        using s1(5) e1 noted_last [OF False] by simp_all
      then obtain s2 where s2: "PopService i s1 = Inr (?sv, s2)" "ana_ok s2" "near s1 s2" "heap s2 = heap s0" "stacks s2 ?cpu \<noteq> None"
        using PopService_ok [OF s1(2), of i] s1(4) e1 by auto
      have n2: "near ?s s2" by (rule near_trans [OF s1(3) s2(3)])
      have c2: "cur_leu s2 = cur_leu s0" "units_ok s2" "ent s2 = ent s0" using n2 near_units [OF n2 e(2)] s2(4) by (simp_all add: near_def ent_def [abs_def])
      let ?f = "hd (sv_entries ?sv)"
      have f: "?f < length (heap s0)" "e_cpu (ent s0 ?f) = ?cpu"
        using fr ne by (auto simp: fr_ok_def hcpus_def ent_def)
      have sv: "\<forall>j\<in>set (sv_entries ?sv). j < length (heap s2)"
        using fr_ok_entries [OF fr] assms(3) s2(4) by auto
      obtain s4 where s4: "PushServiceToLEU i ?sv (upd_ent ?f (\<lambda>e. e\<lparr>e_type := ''LOOPSTART''\<rparr>) s2) = Inr s4" "ana_ok s4" "units_ok s4"
          "ext s2 s4" "stacks s4 = stacks s2"
        using loop_record_ok [OF s2(2) c2(2) _ _ sv, of i ?f] assms(3,4) s2(4) c2 by auto
      have f4: "e_cpu (ent s4 ?f) = ?cpu" using ext_ent [OF s4(4), of ?f] f c2(3) s2(4) by simp
      obtain m where m: "stacks s4 ?cpu = Some m" using s2(5) s4(5) by auto
      let ?e = "(ent s4 ?f)\<lparr>e_cycles := e_cycles (ent s4 i), e_type := ''LOOPRSTART''\<rparr>"
      let ?g = "?sv\<lparr>sv_packets := []\<rparr>"
      let ?s5 = "s4\<lparr>heap := heap s4 @ [?e]\<rparr>"
      let ?st5 = "stack_of ?cpu s4 @ [?g\<lparr>sv_entries := []\<rparr>]"
      let ?s6 = "(s4\<lparr>stacks := (stacks s4)(?cpu \<mapsto> m(GetCurrentLEU ?cpu s4 \<mapsto> ?st5))\<rparr>)\<lparr>heap := heap s4 @ [?e]\<rparr>"
      have p: "put_stack ?cpu ?st5 ?s5 = Inr ?s6"
        using put_stack_ok [of ?s5 ?cpu m ?st5] m by (cases s4) (simp add: GetCurrentLEU_def)
      obtain s7 where s7: "PushService (length (heap s4)) ?s6 = Inr (Suc (length (stack_of ?cpu s4)), s7)" "ana_ok s7" "near s4 s7"
        using push_fresh [OF s4(2) m, of ?s6 "[?e]" "length (heap s4)" ?g] f4 by (auto simp: ent_def nth_append)
      have g: "(last ?st)\<lparr>sv_entries := [], sv_packets := []\<rparr> = (last ?st)\<lparr>sv_packets := [], sv_entries := []\<rparr>"
        by (cases "last ?st") simp
      have "handleLOOPRSTART i s0 = Inr s7"
        using False ne no s1(1) s2(1) s4(1) p s7(1) assms(5) c2(3)
        by (simp add: handleLOOPRSTART_def Let_def alloc_def g)
      moreover have "ext s0 s7"
        by (rule ext_trans [OF e(3) ext_trans [OF near_ext [OF n2] ext_trans [OF s4(4) near_ext [OF s7(3)]]]])
      ultimately show ?thesis using s7(2) near_units [OF s7(3) s4(3)] by (simp add: sound_Inr)
    qed
  qed
qed

lemma LOOPSTOP_sound:
  assumes "ana_ok s0" "units_ok s0" "i < length (heap s0)" "cur_leu s0 (e_cpu (ent s0 i)) \<noteq> None"
  shows "sound False s0 (handleLOOPSTOP i s0)"
proof -
  let ?cpu = "e_cpu (ent s0 i)"
  let ?s = "ensure_stacks ?cpu s0" and ?st = "stack_of ?cpu s0"
  let ?sv = "last ?st"
  note e = ensured_state [OF assms(1,2), of ?cpu]
  show ?thesis
  proof (cases "?st = []")
    case True
    then show ?thesis using e by (simp add: handleLOOPSTOP_def Let_def sound_Inr)
  next
    case False
    have fr: "fr_ok (hcpus ?s) ?cpu ?sv" using last_frame [OF e(1), of ?cpu] False by simp
    then have ne: "sv_entries ?sv \<noteq> []" by (simp add: fr_ok_def)
    let ?f = "hd (sv_entries ?sv)"
    obtain s1 where s1: "PopService i ?s = Inr (?sv, s1)" "ana_ok s1" "near ?s s1" "heap s1 = heap s0"
      using PopService_ok [OF e(1), of i] False by auto
    have c1: "units_ok s1" "cur_leu s1 = cur_leu s0" "ent s1 = ent s0"
      using near_units [OF s1(3) e(2)] s1(3,4) by (simp_all add: near_def ent_def [abs_def])
    let ?e = "(ent s1 ?f)\<lparr>e_type := ''LOOPRSTART'', e_cycles := e_cycles (ent s1 i)\<rparr>"
    let ?s2 = "s1\<lparr>heap := heap s1 @ [?e]\<rparr>" and ?sv' = "?sv\<lparr>sv_entries := sv_entries ?sv @ [length (heap s1)]\<rparr>"
    note a = alloc_ok [OF s1(2), of "[?e]"]
    have u2: "units_ok ?s2" by (rule near_units [OF a(2) c1(1)])
    have i2: "i < length (heap ?s2)" "ent ?s2 i = ent s0 i" using assms(3) s1(4) by (simp_all add: ent_def nth_append)
    have sv: "\<forall>j\<in>set (sv_entries ?sv'). j < length (heap ?s2)"
      using fr_ok_entries [OF fr] s1(4) by auto
    let ?r = "if e_type (ent ?s2 ?f) = ''LOOPRSTART''
      then PushServiceToLEU i ?sv' (upd_ent ?f (\<lambda>e. e\<lparr>e_type := ''LOOPSTART''\<rparr>) ?s2) else Inr ?s2"
    obtain s3 where s3: "?r = Inr s3" "ana_ok s3" "units_ok s3" "ext ?s2 s3"
      using loop_record_ok [OF a(1) u2 i2(1) _ sv, of ?f] i2(2) assms(4) c1(2) a(1) u2 by (cases "e_type (ent ?s2 ?f) = ''LOOPRSTART''") auto
    let ?s4 = "s3\<lparr>heap := heap s3 @ [(ent s3 i)\<lparr>e_type := ''LOOPSTOP''\<rparr>]\<rparr>"
    note b = alloc_ok [OF s3(2), of "[(ent s3 i)\<lparr>e_type := ''LOOPSTOP''\<rparr>]"]
    have "sound False ?s4 (push (length (heap s3)) ?s4)"
      by (rule push_sound [OF b(1) near_units [OF b(2) s3(3)]]) simp
    moreover have "ext s0 ?s4"
      by (rule ext_trans [OF e(3) ext_trans [OF near_ext [OF s1(3)] ext_trans [OF near_ext [OF a(2)] ext_trans [OF s3(4) near_ext [OF b(2)]]]]])
    ultimately have "sound False s0 (push (length (heap s3)) ?s4)" by (rule sound_ext [rotated])
    moreover have "handleLOOPSTOP i s0 = push (length (heap s3)) ?s4"
      using False ne s1(1) s3(1) by (simp add: handleLOOPSTOP_def Let_def alloc_def split del: if_split cong: if_cong)
    ultimately show ?thesis by simp
  qed
qed

lemma upd_keeps:
  assumes "ana_ok t" "units_ok t" "ext s t" "\<And>e. e_cpu (f e) = e_cpu e"
  shows "ana_ok (upd_ent i f t)" "units_ok (upd_ent i f t)" "ext s (upd_ent i f t)"
  using upd_ent_ok [where f = f, OF assms(1,4), of i] assms(2) ext_trans [OF assms(3)] by (simp_all add: units_ok_def)

lemma upd_sound:
  assumes "ana_ok s" "units_ok s" "\<And>e. e_cpu (f e) = e_cpu e"
    and "ana_ok (upd_ent i f s) \<Longrightarrow> units_ok (upd_ent i f s) \<Longrightarrow> sound risky (upd_ent i f s) r"
  shows "sound risky s r"
proof -
  have "units_ok (upd_ent i f s)" using assms(2) by (simp add: units_ok_def)
  then show ?thesis
    using upd_ent_ok [where f = f, OF assms(1,3), of i] assms(4) sound_ext by blast
qed

lemma SRVENTRY_sound:
  assumes "ana_ok s" "units_ok s" "i < length (heap s)"
  shows "sound False s (handleSRVENTRY i s)"
  unfolding handleSRVENTRY_def
  by (rule upd_sound [OF assms(1,2), of "\<lambda>e. e\<lparr>e_packet := ''0''\<rparr>" i]) (simp, rule new_service_sound, use assms(3) in simp_all)

lemma SRVQUEUE_sound:
  assumes "ana_ok s" "units_ok s" "i < length (heap s)"
  shows "sound False s (handleSRVQUEUE i s)"
proof (cases "e_pid1 (ent s i) = 0")
  case True
  have "sound False s (push i (upd_ent i (\<lambda>e. e\<lparr>e_service := v\<rparr>) s))" for v
    by (rule upd_sound [OF assms(1,2), of "\<lambda>e. e\<lparr>e_service := v\<rparr>" i]) (simp, rule push_sound, use assms(3) in simp_all)
  then show ?thesis
    using True push_sound [OF assms] by (cases "softirqs (e_service (ent s i))") (simp_all add: handleSRVQUEUE_def)
next
  case False
  have "sound False s (bind_outcome (PushNewService i f (upd_ent i (\<lambda>e. e\<lparr>e_packet := ''0''\<rparr>) s)) (\<lambda>(n, s'). Inr s'))" for f
    by (rule upd_sound [OF assms(1,2), of "\<lambda>e. e\<lparr>e_packet := ''0''\<rparr>" i]) (simp, rule new_service_sound, use assms(3) in simp_all)
  then show ?thesis using False by (simp add: handleSRVQUEUE_def)
qed

lemma TEMPSYNCH_sound:
  assumes "ana_ok s" "units_ok s" "i < length (heap s)"
  shows "sound False s (handleTEMPSYNCH i s)"
proof -
  let ?f = "\<lambda>e. e\<lparr>e_tempid := next_tempid s\<rparr>"
  let ?s = "(upd_ent i ?f s)\<lparr>next_tempid := next_tempid s + 1\<rparr>"
  have "ana_ok (upd_ent i ?f s)" "ext s (upd_ent i ?f s)" using upd_ent_ok [OF assms(1), of ?f i] by simp_all
  then have ok: "ana_ok ?s" "units_ok ?s" "ext s ?s"
    using assms(2) by (simp_all add: ana_ok_def units_ok_def ext_def hcpus_def)
  obtain s1 where s1: "push i ?s = Inr s1" "ana_ok s1" "near ?s s1" "heap s1 = heap ?s" "last_appended s1 = Some i"
    using push_ok [OF ok(1), of i] assms(3) by auto
  let ?s2 = "\<lambda>x. s1\<lparr>temps := (temps s1)(x \<mapsto> \<lparr>tv_entry = last_appended s1, tv_value = 0\<rparr>)\<rparr>"
  have "ana_ok (?s2 x)" for x using s1(2,4,5) assms(3) by (simp add: ana_ok_def hcpus_def)
  moreover have "units_ok (?s2 x)" for x using near_units [OF s1(3) ok(2)] by (simp add: units_ok_def)
  moreover have "ext s (?s2 x)" for x using ext_trans [OF ok(3) near_ext [OF s1(3)]] by (simp add: ext_def hcpus_def)
  ultimately show ?thesis using s1(1) by (simp add: handleTEMPSYNCH_def sound_Inr)
qed

lemma PKTQUEUE_sound:
  assumes "ana_ok s" "units_ok s" "i < length (heap s)" "last_appended s \<noteq> None"
  shows "sound False s (handlePKTQUEUE i s)"
proof -
  let ?p = "\<lambda>e. e\<lparr>e_packet := itoa (ParseInt_value 16 (e_packet e))\<rparr>"
  have push: "sound False s (push i (upd_ent i ?p s1))" if "ana_ok s1" "units_ok s1" "ext s s1" for s1
  proof -
    have "sound False s1 (push i (upd_ent i ?p s1))"
      by (rule upd_sound [OF that(1,2), of ?p i]) (simp, rule push_sound, use ext_ent [OF that(3) assms(3)] in simp_all)
    then show ?thesis by (rule sound_ext [OF that(3)])
  qed
  have n: "ana_ok (s'\<lparr>pktextrnr := x\<rparr>)" "units_ok (s'\<lparr>pktextrnr := x\<rparr>)" "ext s (s'\<lparr>pktextrnr := x\<rparr>)"
    if "ana_ok s'" "units_ok s'" "ext s s'" for s' x
    using that by (simp_all add: ana_ok_def units_ok_def ext_def hcpus_def)
  let ?n = "\<lambda>e. e\<lparr>e_type := ''PKTQUEUEN''\<rparr>" and ?q = "\<lambda>e. e\<lparr>e_type := ''PKTQUEUE''\<rparr>"
  have u: "ana_ok (upd_ent i ?q (upd_ent k ?n s))" "units_ok (upd_ent i ?q (upd_ent k ?n s))" "ext s (upd_ent i ?q (upd_ent k ?n s))" for k
    by (rule upd_keeps [OF upd_keeps [OF assms(1,2) ext_refl]]; simp)+
  obtain k where k: "last_appended s = Some k" using assms(4) by auto
  show ?thesis
    using k push [OF n [OF u]] push [OF n [OF assms(1,2) ext_refl]] by (simp add: handlePKTQUEUE_def)
qed

lemma handleSync_sound:
  assumes "ana_ok s0" "units_ok s0" "i < length (heap s0)"
  shows "sound (peu_start s0 \<noteq> None) s0 (handleSync i s0)"
proof (cases "temps s0 (e_service (ent s0 i))")
  case None
  then show ?thesis using push_to_PEU_sound [OF assms] by (simp add: handleSync_def Let_def)
next
  case (Some tv)
  let ?cpu = "e_cpu (ent s0 i)"
  let ?s = "ensure_stacks ?cpu s0" and ?st = "stack_of ?cpu s0"
  let ?d = "if sync_up (e_type (ent s0 i)) then 1 else - 1 :: int"
  note e = ensured_state [OF assms(1,2), of ?cpu]
  obtain k where k: "tv_entry tv = Some k" "k < length (heap s0)" using assms(1) Some unfolding ana_ok_def by blast
  let ?f = "\<lambda>x. x\<lparr>e_temps := e_temps x @ [(sv_name (last ?st), ?d)]\<rparr>"
  let ?s1 = "if ?st = [] then ?s else upd_ent k ?f ?s"
  have "ana_ok (upd_ent k ?f ?s)" "ext ?s (upd_ent k ?f ?s)" using upd_ent_ok [OF e(1), of ?f k] by simp_all
  then have s1: "ana_ok ?s1" "units_ok ?s1" "ext s0 ?s1" "peu_start ?s1 = peu_start s0"
    using e ext_trans [OF e(3)] by (auto simp: units_ok_def)
  let ?g = "\<lambda>x. x\<lparr>e_type := e_type x @ [CHR 0x09] @ ''(TEMP)''\<rparr>"
  have s2: "ana_ok (upd_ent i ?g ?s1)" "units_ok (upd_ent i ?g ?s1)" "ext s0 (upd_ent i ?g ?s1)"
    by (rule upd_keeps [OF s1(1-3)], simp)+
  have "sound (peu_start s0 \<noteq> None) s0 (push_to_PEU i (upd_ent i ?g ?s1))"
    using sound_ext [OF s2(3) push_to_PEU_sound [OF s2(1,2), of i]] ext_ent [OF s2(3) assms(3)] s1(4) by simp
  moreover have "sound (peu_start s0 \<noteq> None) s' (Inr (s'\<lparr>temps := (temps s')(x := y)\<rparr>))"
    if "ana_ok s'" "units_ok s'" "ext s0 s'" "\<forall>tv'. y = Some tv' \<longrightarrow> tv_entry tv' = Some k" for s' x y
    using that ext_ent [OF that(3) k(2)] by (auto simp: sound_Inr ana_ok_def units_ok_def ext_def hcpus_def)
  ultimately have "sound (peu_start s0 \<noteq> None) s0 (bind_outcome (push_to_PEU i (upd_ent i ?g ?s1))
      (\<lambda>s'. Inr (s'\<lparr>temps := (temps s')(e_service (ent s0 i) :=
         (if tv_value tv + ?d = 0 then None else Some (tv\<lparr>tv_value := tv_value tv + ?d\<rparr>)))\<rparr>)))"
    by (rule sound_bind) (simp_all add: k(1))
  then show ?thesis
    using Some k(1) by (cases "?st = []") (simp_all add: handleSync_def Let_def split del: if_split cong: if_cong)
qed

text \<open>
  Where an event may panic: an interrupt that ends without one that began, and the events that are
  matched against an open peripheral unit.
\<close>

definition peu_types :: "string set" where
  "peu_types = {''HIRQENTRY'', ''HIRQEXIT'', ''PEUSTART'', ''COMPL'', ''SEMDOWN'', ''SEMUP'', ''WAITCOMPL''}"

definition risky :: "string \<Rightarrow> ana \<Rightarrow> bool" where
  "risky t s \<longleftrightarrow> t = ''HIRQEXIT'' \<and> interrupted s = [] \<or> t \<in> peu_types \<and> peu_start s \<noteq> None"

lemma if_sound: "(c \<Longrightarrow> sound p s a) \<Longrightarrow> (\<not> c \<Longrightarrow> sound p s b) \<Longrightarrow> sound p s (if c then a else b)"
  by simp

lemma handleEvent_sound:
  assumes "ana_ok s" "units_ok s" "i < length (heap s)" "cur_leu s (e_cpu (ent s i)) \<noteq> None" "last_appended s \<noteq> None"
    "e_type (ent s i) \<noteq> ''MIGRATE''"
  shows "sound (risky (e_type (ent s i)) s) s (handleEvent i s)"
proof -
  define t p where "t = e_type (ent s i)" and "p = risky t s"
  have F: "sound False s r \<Longrightarrow> sound p s r" for r by (erule sound_mono) simp
  have P: "sound (peu_start s \<noteq> None) s r \<Longrightarrow> t \<in> peu_types \<Longrightarrow> sound p s r" for r
    by (erule sound_mono) (simp add: p_def risky_def)
  have X: "sound (peu_start s \<noteq> None \<or> interrupted s = []) s r \<Longrightarrow> t = ''HIRQEXIT'' \<Longrightarrow> sound p s r" for r
    by (erule sound_mono) (auto simp: p_def risky_def peu_types_def)
  have ctx: "sound False s (handleCTXSW i s)" using CTXSW_ok [OF assms(1-3)] by (auto simp: sound_Inr)
  have exit: "sound False s (bind_outcome (handleSRVEXIT i s) (\<lambda>(b, s'). Inr s'))"
    using SRVEXIT_ok [OF assms(1,3)] near_units [OF _ assms(2)] near_ext by (fastforce simp: sound_Inr)
  have restart: "t = ''LOOPRSTART'' \<Longrightarrow> sound p s (handleLOOPRSTART i s)"
    using LOOPRSTART_sound [OF assms(1-4)] by (simp add: t_def F)
  have idle: "sound p s (Inr s)" using assms(1,2) by (simp add: sound_Inr)
  have migrate: "t = ''MIGRATE'' \<Longrightarrow> sound p s r" for r using assms(6) by (simp add: t_def)
  have irq: "t = ''HIRQENTRY'' \<Longrightarrow> sound p s (handleHIRQEntry i s)"
    by (rule P [OF HIRQEntry_sound [OF assms(1-4)]]) (simp add: peu_types_def)
  have peu: "t = ''PEUSTART'' \<Longrightarrow> sound p s (push_to_PEU i s)"
    by (rule P [OF push_to_PEU_sound [OF assms(1-3)]]) (simp add: peu_types_def)
  have sync: "t \<in> {''COMPL'', ''SEMDOWN'', ''SEMUP'', ''WAITCOMPL''} \<Longrightarrow> sound p s (handleSync i s)"
    by (rule P [OF handleSync_sound [OF assms(1-3)]]) (auto simp: peu_types_def)
  note plain = ctx exit LOOPSTART_sound [OF assms(1-3)] LOOPSTOP_sound [OF assms(1-4)] PKTQUEUE_sound [OF assms(1-3,5)]
    SRVENTRY_sound [OF assms(1-3)] SRVQUEUE_sound [OF assms(1-3)] TEMPSYNCH_sound [OF assms(1-3)] push_sound [OF assms(1-3)]
  have "sound p s (handleEvent i s)"
    unfolding handleEvent_def Let_def t_def [symmetric] handlePEUSTART_def
    by (intro if_sound; (rule plain [THEN F] idle | erule migrate irq peu sync restart HIRQExit_sound [OF assms(1-3), THEN X]))
  then show ?thesis by (simp add: p_def t_def)
qed

section \<open>Runs\<close>

text \<open>A processor that is out of limbo has a current unit.\<close>

definition placed :: "ana \<Rightarrow> int \<Rightarrow> bool" where
  "placed s c \<longleftrightarrow> cur_leu s c \<noteq> None \<and> last_appended s \<noteq> None"

definition run_typed :: "ana_run \<Rightarrow> bool" where
  "run_typed r \<longleftrightarrow> ana_ok (ar_state r) \<and> units_ok (ar_state r) \<and> length (ar_cpus r) = 2
     \<and> (\<not> ar_returned r \<longrightarrow> (\<forall>c<2. \<not> ct_limbo (ar_cpus r ! c) \<longrightarrow> placed (ar_state r) (int c)))"

lemma ext_placed: "ext s s' \<Longrightarrow> placed s c \<Longrightarrow> placed s' c"
  unfolding ext_def placed_def by blast

text \<open>The event of an entry, on the state to which the entry was added.\<close>

lemma handled_ok:
  assumes "ana_ok s" "units_ok s" "e_type e \<noteq> ''MIGRATE''" "e_type e = ''CTXSW'' \<or> placed s (e_cpu e)"
    "alloc e s = (i, t)"
  shows "case handleEvent i t of
      Inl f \<Rightarrow> risky (e_type e) s
    | Inr s' \<Rightarrow> ana_ok s' \<and> units_ok s' \<and> ext s s' \<and> placed s' (e_cpu e)"
proof -
  have t: "t = s\<lparr>heap := heap s @ [e]\<rparr>" "i < length (heap t)" "ent t i = e" using assms(5) by (auto simp: alloc_def ent_def)
  have ok: "ana_ok t" "near s t" using alloc_ok [OF assms(1), of "[e]"] by (simp_all add: t(1))
  have u: "units_ok t" by (rule near_units [OF ok(2) assms(2)])
  have r: "risky (e_type e) t = risky (e_type e) s" by (simp add: risky_def t(1))
  show ?thesis
  proof (cases "e_type e = ''CTXSW''")
    case True
    then have "handleEvent i t = handleCTXSW i t" by (simp add: handleEvent_def t(3))
    then show ?thesis
      using CTXSW_ok [OF ok(1) u t(2)] ext_trans [OF near_ext [OF ok(2)]] by (auto simp: t(3) placed_def)
  next
    case False
    then have p: "placed t (e_cpu e)" using assms(4) ext_placed [OF near_ext [OF ok(2)]] by blast
    then have "sound (risky (e_type e) s) t (handleEvent i t)"
      using handleEvent_sound [OF ok(1) u t(2)] assms(3) r by (simp add: t(3) placed_def)
    then show ?thesis
      using p ext_placed ext_trans [OF near_ext [OF ok(2)]] by (auto simp: sound_def split: sum.splits)
  qed
qed

definition numbers :: "string list \<Rightarrow> bool" where
  "numbers w \<longleftrightarrow> Atoi (w ! 3) \<noteq> None \<and> Atoi (w ! 4) \<noteq> None \<and> Atoi (w ! 5) \<noteq> None"

text \<open>A line fails only if \<open>p\<close>, and otherwise leaves a well-typed run.\<close>

definition settled :: "bool \<Rightarrow> ana_run outcome \<Rightarrow> bool" where
  "settled p x = (case x of Inl f \<Rightarrow> p | Inr r' \<Rightarrow> run_typed r')"

lemma settled_Inr [simp]: "settled p (Inr r) = run_typed r" "settled p (Inl f) = p"
  by (simp_all add: settled_def)

lemma if_settled: "(c \<Longrightarrow> settled p a) \<Longrightarrow> (\<not> c \<Longrightarrow> settled p b) \<Longrightarrow> settled p (if c then a else b)"
  by simp

lemma settled_parse:
  assumes "Atoi x = None \<Longrightarrow> p" "\<And>n. Atoi x = Some n \<Longrightarrow> settled p (f n)"
  shows "settled p (bind_outcome (parse_or_panic x) f)"
  using assms by (auto simp: parse_or_panic_def split: option.split)

lemma run_entry_typed:
  assumes "ana_ok (ar_state r)" "units_ok (ar_state r)" "length (ar_cpus r) = 2" "c < 2" "w ! 0 \<noteq> ''MIGRATE''"
    "w ! 0 = ''CTXSW'' \<or> placed (ar_state r) (int c)"
    "\<forall>d<2. d \<noteq> c \<longrightarrow> \<not> ct_limbo (ar_cpus r ! d) \<longrightarrow> placed (ar_state r) (int d)"
    "Atoi (w ! 2) \<noteq> None"
  shows "settled (\<not> numbers w \<or> risky (w ! 0) (ar_state r)) (run_entry w c r)"
proof (cases "numbers w")
  case True
  obtain pid where pid: "Atoi (w ! 2) = Some pid" using assms(8) by auto
  obtain cyc pid1 pid2 where n: "Atoi (w ! 3) = Some cyc" "Atoi (w ! 4) = Some pid1" "Atoi (w ! 5) = Some pid2"
    using True by (auto simp: numbers_def)
  let ?ts = "advance cyc (ar_cpus r ! c)"
  let ?e = "\<lparr>e_type = w ! 0, e_cpu = int c, e_curpid = pid, e_pid1 = pid1, e_pid2 = pid2,
    e_packet = w ! 6, e_service = w ! 7, e_location = w ! 8, e_cycles = ct_cycles ?ts, e_line = ar_lineNumber r, e_tempid = 0,
    e_temps = [], e_peudur = 0, e_peuirq = 0\<rparr>"
  obtain i t where it: "alloc ?e (ar_state r) = (i, t)" by (cases "alloc ?e (ar_state r)")
  from handled_ok [OF assms(1,2) _ _ it] assms(5,6)
  have ev: "case handleEvent i t of Inl f \<Rightarrow> risky (w ! 0) (ar_state r)
      | Inr s' \<Rightarrow> ana_ok s' \<and> units_ok s' \<and> ext (ar_state r) s' \<and> placed s' (int c)" by (simp split: sum.splits)
  have "placed s' (int d)" if "ext (ar_state r) s'" "placed s' (int c)" "d < 2" "\<not> ct_limbo ((ar_cpus r)[c := ?ts] ! d)" for s' d
    using that assms(3,4,7) ext_placed [OF that(1)] by (cases "d = c") auto
  then show ?thesis
    using ev pid n it assms(3) by (auto simp: run_entry_def parse_or_panic_def Let_def run_typed_def settled_def split: sum.splits)
next
  case False
  obtain pid where "Atoi (w ! 2) = Some pid" using assms(8) by auto
  then show ?thesis
    using False by (auto simp: run_entry_def parse_or_panic_def numbers_def settled_def split: option.splits)
qed

text \<open>A line with the columns of the trace, or the mark of the end of the data.\<close>

definition well_formed :: "string \<Rightarrow> bool" where
  "well_formed l \<longleftrightarrow> 3 \<le> length l \<and> (take 3 l = ''EOD'' \<or>
     (let w = ws_split l in 9 \<le> length w \<and> Atoi (w ! 1) \<in> {Some 0, Some 1} \<and> numbers w))"

lemma reset_typed: "run_typed r \<Longrightarrow> run_typed (reset_eod r)"
  by (auto simp: run_typed_def reset_eod_def ana_ok_def units_ok_def hcpus_def get2_def)

lemma run_typed_cong [simp]: "run_typed (r\<lparr>ar_lineNumber := n\<rparr>) = run_typed r"
  "run_typed (r\<lparr>addr_map := m\<rparr>) = run_typed r" "run_typed (r\<lparr>addr_map_synch := m\<rparr>) = run_typed r"
  by (simp_all add: run_typed_def)

lemma entry_line_typed:
  assumes "run_typed r" "\<not> ar_returned r" "c < 2" "w ! 0 \<noteq> ''MIGRATE''" "\<not> (ct_limbo (ar_cpus r ! c) \<and> w ! 0 \<noteq> ''CTXSW'')"
  shows "settled (\<not> numbers w \<or> risky (w ! 0) (ar_state r))
    (run_entry w c (r\<lparr>ar_cpus := (ar_cpus r)[c := (ar_cpus r ! c)\<lparr>ct_limbo := False\<rparr>]\<rparr>))"
proof (cases "Atoi (w ! 2)")
  case None
  then show ?thesis using assms(1) by (simp add: run_entry_def run_typed_def)
next
  case (Some pid)
  let ?r = "r\<lparr>ar_cpus := (ar_cpus r)[c := (ar_cpus r ! c)\<lparr>ct_limbo := False\<rparr>]\<rparr>"
  have "settled (\<not> numbers w \<or> risky (w ! 0) (ar_state ?r)) (run_entry w c ?r)"
    using assms Some by (intro run_entry_typed) (auto simp: run_typed_def)
  then show ?thesis by simp
qed

text \<open>Preservation and progress for a line.\<close>

lemma run_line_typed:
  assumes "run_typed r" "ws_split l ! 0 \<noteq> ''MIGRATE''"
  shows "settled (\<not> well_formed l \<or> risky (ws_split l ! 0) (ar_state r)) (run_line l r)"
proof (cases "ar_returned r \<or> length l < 3 \<or> take 3 l = ''EOD''")
  case True
  then show ?thesis using assms(1) reset_typed by (auto simp: run_line_def well_formed_def Let_def)
next
  case no: False
  let ?w = "ws_split l" and ?r = "r\<lparr>ar_lineNumber := ar_lineNumber r + 1\<rparr>"
  define p where "p \<longleftrightarrow> \<not> (9 \<le> length ?w \<and> Atoi (?w ! 1) \<in> {Some 0, Some 1} \<and> numbers ?w) \<or> risky (?w ! 0) (ar_state r)"
  have p: "\<not> well_formed l \<or> risky (?w ! 0) (ar_state r) \<longleftrightarrow> p"
    using no by (auto simp: well_formed_def Let_def p_def)
  have len: "length (ar_cpus ?r) = 2" "run_typed ?r" using assms(1) by (simp_all add: run_typed_def)
  have ev: "settled p (run_entry ?w c (?r\<lparr>ar_cpus := (ar_cpus ?r)[c := (ar_cpus ?r ! c)\<lparr>ct_limbo := False\<rparr>]\<rparr>))"
    if "c < 2" "\<not> (ct_limbo (ar_cpus ?r ! c) \<and> ?w ! 0 \<noteq> ''CTXSW'')" for c
    using entry_line_typed [OF len(2), of c ?w] assms(2) no that by (auto simp: settled_def p_def split: sum.splits)
  have cpu: "settled p (if cpu < 0 \<or> int (length (ar_cpus ?r)) \<le> cpu then Inl OutOfBounds
      else let c = nat cpu; ts = ar_cpus ?r ! c in
        if ct_limbo ts \<and> ?w ! 0 \<noteq> ''CTXSW'' then Inr ?r
        else run_entry ?w c (?r\<lparr>ar_cpus := (ar_cpus ?r)[c := ts\<lparr>ct_limbo := False\<rparr>]\<rparr>))" if "Atoi (?w ! 1) = Some cpu" for cpu
    using ev [of "nat cpu"] len that by (auto simp: Let_def p_def)
  have line: "run_line l r =
     (if ?w ! 0 \<in> {''ID_QUEUE'', ''ID_SYNCH''} \<and> length ?w < 8 then Inl OutOfBounds
      else if ?w ! 0 = ''ID_QUEUE'' \<and> ?w ! 7 \<noteq> ''0'' then
        bind_outcome (parse_or_panic (?w ! 4)) (\<lambda>pid1. Inr (?r\<lparr>addr_map := (addr_map ?r)(?w ! 7 \<mapsto> pid1)\<rparr>))
      else if ?w ! 0 = ''ID_SYNCH'' \<and> ?w ! 7 \<noteq> ''0'' then
        bind_outcome (parse_or_panic (?w ! 4)) (\<lambda>pid1. Inr (?r\<lparr>addr_map_synch := (addr_map_synch ?r)(?w ! 7 \<mapsto> pid1)\<rparr>))
      else if length ?w < 9 then Inr ?r
      else bind_outcome (parse_or_panic (?w ! 1)) (\<lambda>cpu.
        if cpu < 0 \<or> int (length (ar_cpus ?r)) \<le> cpu then Inl OutOfBounds
        else let c = nat cpu; ts = ar_cpus ?r ! c in
          if ct_limbo ts \<and> ?w ! 0 \<noteq> ''CTXSW'' then Inr ?r
          else run_entry ?w c (?r\<lparr>ar_cpus := (ar_cpus ?r)[c := ts\<lparr>ct_limbo := False\<rparr>]\<rparr>)))"
    using no unfolding run_line_def Let_def by simp
  have id: "settled p (bind_outcome (parse_or_panic (?w ! 4)) (\<lambda>n. Inr (f n)))" if "\<And>n. run_typed (f n)" for f
    by (rule settled_parse) (simp_all add: p_def numbers_def that)
  show ?thesis unfolding p line
    by (rule if_settled, simp add: p_def, rule if_settled, rule id, simp add: assms(1), rule if_settled, rule id, simp add: assms(1),
        rule if_settled, simp add: assms(1), rule settled_parse, simp add: p_def, rule cpu)
qed

section \<open>Properties\<close>

lemma run_start_typed: "run_typed run_start"
  by (auto simp: run_typed_def run_start_def ana_zero_def ana_ok_def units_ok_def get2_def less_2_cases_iff)

lemma run_typed_run:
  assumes "fold_outcome run_line ls r = Inr r'" "run_typed r" "\<forall>l\<in>set ls. ws_split l ! 0 \<noteq> ''MIGRATE''"
  shows "run_typed r'"
  using assms
proof (induction ls arbitrary: r)
  case (Cons l ls)
  then obtain r1 where "run_line l r = Inr r1" "fold_outcome run_line ls r1 = Inr r'" by (auto simp: bind_outcome_eq_Inr)
  then show ?case using Cons run_line_typed [of r l] by simp
qed simp

text \<open>
  The analyser is type safe (C11): whatever a trace without migrations contains, every pointer of the state
  is to an entry that exists, every service on a stack has an entry, and every unit that runs or was
  interrupted is known; and the next well-formed line cannot make it panic, but for the end of an
  interrupt that did not begin and for an event that is matched against an open peripheral unit.
\<close>

theorem analyser_type_safe:
  assumes "run ls = Inr r" "\<forall>m\<in>set (l # ls). ws_split m ! 0 \<noteq> ''MIGRATE''"
    and "well_formed l" "\<not> risky (ws_split l ! 0) (ar_state r)"
  shows "run_typed r \<and> (\<exists>r'. run (ls @ [l]) = Inr r' \<and> run_typed r')"
proof -
  have r: "run_typed r" using run_typed_run [OF _ run_start_typed] assms(1,2) by (simp add: run_def)
  then have "settled False (run_line l r)" using run_line_typed [of r l] assms(2-4) by (simp add: settled_def split: sum.splits)
  then obtain r' where "run_line l r = Inr r'" "run_typed r'" by (cases "run_line l r") auto
  then show ?thesis using r assms(1) by (simp add: run_def fold_outcome_append)
qed

definition demo_switch :: string where
  "demo_switch = ''CTXSW 0 1 100 1 7 0 0 c0008000''"

definition demo_enter :: string where
  "demo_enter = ''SRVENTRY 0 7 120 0 0 0 f c0008000''"

theorem analyser_type_safe_witness:
  "\<exists>r r'. run [demo_switch] = Inr r \<and> run [demo_switch, demo_enter] = Inr r' \<and> run_typed r'"
proof -
  have w: "ws_split demo_switch = [''CTXSW'', ''0'', ''1'', ''100'', ''1'', ''7'', ''0'', ''0'', ''c0008000'']"
    "ws_split demo_enter = [''SRVENTRY'', ''0'', ''7'', ''120'', ''0'', ''0'', ''0'', ''f'', ''c0008000'']"
    by code_simp+
  have d: "go_digit CHR ''0'' = Some 0" "go_digit CHR ''1'' = Some 1" "go_digit CHR ''2'' = Some 2" "go_digit CHR ''7'' = Some 7"
    by code_simp+
  have n: "Atoi ''0'' = Some 0" "Atoi ''100'' = Some 100" "Atoi ''1'' = Some 1" "Atoi ''7'' = Some 7" "Atoi ''120'' = Some 120"
    by (simp_all add: ParseInt_def ParseUint_def Let_def d)
  have len: "3 \<le> length demo_switch" "3 \<le> length demo_enter" by (simp_all add: demo_switch_def demo_enter_def)
  have ok: "well_formed demo_switch" "well_formed demo_enter"
    using len by (simp_all add: well_formed_def w n numbers_def Let_def)
  have t: "\<not> risky ''CTXSW'' s" "\<not> risky ''SRVENTRY'' s" for s by (simp_all add: risky_def peu_types_def)
  obtain r where r: "run [demo_switch] = Inr r"
    using analyser_type_safe [of "[]" run_start demo_switch] ok(1) t(1) by (auto simp: run_def w)
  obtain r' where "run [demo_switch, demo_enter] = Inr r'" "run_typed r'"
    using analyser_type_safe [OF r, of demo_enter] ok(2) t(2) by (auto simp: w)
  with r show ?thesis by blast
qed

section \<open>A loop that migrates\<close>

lemma get2_other: "c \<noteq> cpu \<Longrightarrow> get2 (m(cpu \<mapsto> x)) c = get2 m c"
  by (simp add: get2_def fun_eq_iff)

lemma PushService_other:
  "\<exists>n s'. PushService j s = Inr (n, s') \<and> (\<forall>c. c \<noteq> e_cpu (ent s j) \<longrightarrow> stack_of c s' = stack_of c s) \<and> heap s' = heap s"
proof -
  let ?cpu = "e_cpu (ent s j)"
  let ?s = "ensure_stacks ?cpu s"
  obtain m where m: "stacks ?s ?cpu = Some m" using ensured by blast
  have e: "ensure_stacks ?cpu ?s = ?s" by (simp add: ensure_stacks_def [of ?cpu ?s] m)
  have other: "stack_of c (?s\<lparr>stacks := (stacks ?s)(?cpu \<mapsto> x)\<rparr>) = stack_of c s" if "c \<noteq> ?cpu" for c x
    using that by (simp add: stack_of_get2 get2_other)
  show ?thesis using other put_stack_ok [OF m] by (simp add: PushService_def PushEntry_def Let_def e)
qed


text \<open>Thread 7 is in a loop that it entered on processor 0 and runs on processor 1.\<close>

definition demo_loop :: ana where
  "demo_loop = ana_zero\<lparr>
     heap := [entry0\<lparr>e_type := ''LOOPRSTART''\<rparr>, entry0\<lparr>e_type := ''LOOPRSTART'', e_cpu := 1\<rparr>],
     cur_leu := [1 \<mapsto> LEU ''Thread'' 7], leus := [LEU ''Thread'' 7 \<mapsto> Map.empty],
     stacks := [1 \<mapsto> [LEU ''Thread'' 7 \<mapsto> [\<lparr>sv_name = ''f'', sv_entries = [0], sv_packets = []\<rparr>]]]\<rparr>"


end
