(* ===== verification/Usnl.thy ===== *)
theory Usnl
  imports SepLog KernelPrint
begin

text \<open>
  The user-space program of the tracer, \<open>kernel/trace/sepextracttracer/usnl.c\<close>, which asks the
  kernel for the trace entries over netlink and writes them to a file, and the system it forms
  with the tracer: its messages run the kernel's handler, the replies queue up in the outbox, and
  probes, interrupts and commands happen in between.
\<close>

section \<open>The program\<close>

text \<open>
  Where the program is: at the head of its main loop, waiting for the reply to a request, waiting
  to be awakened after the end of the data, or past the loop.
\<close>

datatype usnl_pc = AtLoop | AwaitReply | AwaitWake | Finished

record usnl =
  u_pc :: usnl_pc
  u_pid :: u32
  u_srvaddr :: addr
  u_toobtain :: u32
  u_incount :: u32
  u_outcount :: u32
  u_curcount :: nat
  u_totcount :: nat
  u_inservice :: bool
  u_file :: "string list"

definition TO_OBTAIN :: nat where
  "TO_OBTAIN = 100000"

text \<open>The line written for an entry; the two process identifiers are cut to 16 bits.\<close>

definition entry_line :: "string \<Rightarrow> sepentry \<Rightarrow> string" where
  "entry_line typestring e =
     typestring @ '' '' @ dec_string (unat (se_cpu e)) @ '' '' @ dec_string (unat (se_currpid e))
     @ '' '' @ dec_string (unat (se_cycles e))
     @ '' '' @ dec_string (unat (ucast (se_pid1 e) :: u16)) @ '' '' @ dec_string (unat (ucast (se_pid2 e) :: u16))
     @ '' '' @ hex_string (unat (se_data e)) @ '' '' @ hex_string (unat (se_addr e))
     @ '' '' @ hex_string (unat (se_location e)) @ ''\<newline>''"

text \<open>Entering and leaving the service under investigation.\<close>

definition count_service :: "sepentry \<Rightarrow> usnl \<Rightarrow> usnl" where
  "count_service e u =
     (if se_type e = SERVICEENTRY \<and> u_srvaddr u \<noteq> 0 \<and> se_addr e = u_srvaddr u then
        u\<lparr>u_inservice := True, u_incount := u_incount u + 1\<rparr>
      else if se_type e = SERVICEEXIT \<and> u_srvaddr u \<noteq> 0 \<and> se_addr e = u_srvaddr u \<and> u_inservice u then
        u\<lparr>u_outcount := u_outcount u + 1, u_inservice := False\<rparr>
      else u)"

definition usnl_entry :: "sepentry \<Rightarrow> usnl \<Rightarrow> usnl outcome" where
  "usnl_entry e u =
     bind_outcome (if type_code (se_type e) = 0 then Inl OutOfBounds
                   else nth_checked typestrings (type_code (se_type e) - 1)) (\<lambda>ts.
       let u1 = count_service e (u\<lparr>u_file := u_file u @ [entry_line ts e], u_curcount := u_curcount u + 1\<rparr>)
       in
       if u_srvaddr u1 \<noteq> 0 \<and> u_outcount u1 \<ge> u_toobtain u1 then Inr (u1\<lparr>u_pc := Finished\<rparr>)
       else if u_srvaddr u1 = 0 \<and> u_totcount u1 \<ge> TO_OBTAIN then Inr (u1\<lparr>u_pc := Finished\<rparr>)
       else Inr (u1\<lparr>u_pc := AtLoop\<rparr>))"

text \<open>A message of the program to the kernel runs the netlink handler.\<close>

definition usnl_send :: "sysenv \<Rightarrow> u32 \<Rightarrow> usnl \<Rightarrow> tracer \<Rightarrow> tracer outcome" where
  "usnl_send env w u s = nl_rcv_func env (\<lambda>_ _. env) (u_pid u) w s"

text \<open>The end of the program: it tells the kernel to stop.\<close>

definition usnl_finish :: "sysenv \<Rightarrow> usnl \<Rightarrow> tracer \<Rightarrow> (usnl \<times> tracer) outcome" where
  "usnl_finish env u s =
     bind_outcome (usnl_send env STOP_TRACING u s) (\<lambda>s'. Inr (u\<lparr>u_pc := Finished\<rparr>, s'))"

text \<open>What the program does with a reply; the first word of an entry is its type.\<close>

definition usnl_reply :: "sysenv \<Rightarrow> nlobj \<Rightarrow> usnl \<Rightarrow> tracer \<Rightarrow> (usnl \<times> tracer) outcome" where
  "usnl_reply env obj u s =
     (let word = (case obj of NlWord w \<Rightarrow> w | NlEntry e \<Rightarrow> of_nat (type_code (se_type e))) in
      if word = STOP_TRACING then usnl_finish env u s
      else if word = END_OF_DATA then
        (let u1 = u\<lparr>u_file := u_file u @ [''EOD\<newline>''], u_pc := AwaitWake\<rparr> in
         if u_curcount u \<noteq> 0
         then bind_outcome (usnl_send env SYNC_COMPLETE u s) (\<lambda>s'. Inr (u1, s'))
         else Inr (u1, s))
      else if word = WAKE_UP_USNL then Inr (u\<lparr>u_pc := AtLoop\<rparr>, s)
      else
        (case obj of
           NlWord w \<Rightarrow> Inl OutOfBounds
         | NlEntry e \<Rightarrow>
             bind_outcome (usnl_entry e u) (\<lambda>u1.
               if u_pc u1 = Finished then usnl_finish env u1 s else Inr (u1, s))))"

text \<open>One step of the program; \<open>None\<close> while it is blocked or has ended.\<close>

definition usnl_step :: "sysenv \<Rightarrow> usnl \<Rightarrow> tracer \<Rightarrow> (usnl \<times> tracer) outcome option" where
  "usnl_step env u s =
     (case u_pc u of
        AtLoop \<Rightarrow>
          Some (if u_totcount u < TO_OBTAIN
                then bind_outcome (usnl_send env REQUEST_ENTRY u s) (\<lambda>s'. Inr (u\<lparr>u_pc := AwaitReply\<rparr>, s'))
                else usnl_finish env u s)
      | AwaitReply \<Rightarrow>
          (case outbox s of
             [] \<Rightarrow> None
           | m # ms \<Rightarrow> Some (usnl_reply env (nm_obj m) u (s\<lparr>outbox := ms\<rparr>)))
      | AwaitWake \<Rightarrow>
          (case outbox s of
             [] \<Rightarrow> None
           | m # ms \<Rightarrow> Some (Inr (u\<lparr>u_pc := AtLoop, u_inservice := False, u_curcount := 0\<rparr>, s\<lparr>outbox := ms\<rparr>)))
      | Finished \<Rightarrow> None)"

definition usnl_init :: "u32 \<Rightarrow> addr \<Rightarrow> u32 \<Rightarrow> usnl" where
  "usnl_init pid srvaddr toobtain =
     \<lparr>u_pc = AtLoop, u_pid = pid, u_srvaddr = srvaddr, u_toobtain = toobtain, u_incount = 0,
      u_outcount = 0, u_curcount = 0, u_totcount = 0, u_inservice = False, u_file = []\<rparr>"

text \<open>Start-up: the first message activates tracing.\<close>

definition usnl_start :: "(nat \<Rightarrow> nat \<Rightarrow> sysenv) \<Rightarrow> sysenv \<Rightarrow> usnl \<Rightarrow> tracer \<Rightarrow> tracer outcome" where
  "usnl_start envs env u s = nl_rcv_func env envs (u_pid u) START_TRACING s"

section \<open>Program and kernel together\<close>

text \<open>
  A schedule interleaves kernel events with steps of the program; a step of a blocked program
  changes nothing.
\<close>

datatype sys_event = Kern tr_event | User sysenv

primrec sys_exec :: "sys_event \<Rightarrow> usnl \<times> tracer \<Rightarrow> (usnl \<times> tracer) outcome" where
  "sys_exec (Kern e) us = bind_outcome (tr_exec e (snd us)) (\<lambda>s'. Inr (fst us, s'))"
| "sys_exec (User env) us = (case usnl_step env (fst us) (snd us) of None \<Rightarrow> Inr us | Some r \<Rightarrow> r)"

section \<open>Single steps of the program\<close>

text \<open>The type of a recorded entry is never one of the control words.\<close>

lemma type_not_control:
  "of_nat (type_code t) \<noteq> STOP_TRACING" "of_nat (type_code t) \<noteq> END_OF_DATA"
  "of_nat (type_code t) \<noteq> WAKE_UP_USNL"
  by (cases t; simp add: control_words)+

definition line_of :: "sepentry \<Rightarrow> string" where
  "line_of e = entry_line (typestrings ! (type_code (se_type e) - 1)) e"

lemma type_code_zero: "type_code t = 0 \<longleftrightarrow> t = TYPE_FIRST"
  by (cases t) simp_all

lemma usnl_entry_line:
  assumes "se_type e \<noteq> TYPE_FIRST" "u_srvaddr u = 0" "u_totcount u < TO_OBTAIN"
  shows "usnl_entry e u = Inr (u\<lparr>u_file := u_file u @ [line_of e], u_curcount := u_curcount u + 1,
    u_pc := AtLoop\<rparr>)"
proof -
  have "type_code (se_type e) - 1 < length typestrings"
    using type_code_bound [of "se_type e"] by simp
  then show ?thesis
    using assms by (simp add: usnl_entry_def type_code_zero count_service_def line_of_def)
qed

text \<open>
  The program while it only prints: no service under investigation, so that neither of its limits
  ends the loop.
\<close>

definition printing :: "usnl \<Rightarrow> bool" where
  "printing u \<longleftrightarrow> u_pc u = AtLoop \<and> u_srvaddr u = 0 \<and> u_totcount u < TO_OBTAIN"

lemma usnl_send_request: "usnl_send env REQUEST_ENTRY u s = request (u_pid u) env s"
  by (simp add: usnl_send_def request_def)

text \<open>
  Asking and receiving: with an empty outbox the two steps hand over the answer to the request.
  Here the entry at the read cursor.
\<close>

definition exchange :: "sysenv \<Rightarrow> usnl \<times> tracer \<Rightarrow> (usnl \<times> tracer) outcome" where
  "exchange env us = fold_outcome sys_exec [User env, User env] us"

lemma exchange_reply:
  assumes "printing u" "outbox s = []" "request (u_pid u) env s = Inr t" "outbox t = [m]"
  shows "exchange env (u, s) = usnl_reply env (nm_obj m) (u\<lparr>u_pc := AwaitReply\<rparr>) (t\<lparr>outbox := []\<rparr>)"
  using assms by (simp add: exchange_def usnl_step_def printing_def usnl_send_request)

lemma readable_outbox [simp]: "readable (s\<lparr>outbox := ob\<rparr>) = readable s"
  by (simp add: readable_def tr_inv_def tr_wf_def tr_bound_def)

lemma tr_view_outbox [simp]: "tr_view (s\<lparr>outbox := ob\<rparr>) = tr_view s"
  by (simp add: tr_view_def)

lemma exchange_entry:
  assumes "printing u" "readable s" "delivers env" "outbox s = []"
    "unat (lastread s) < length (bl_log (tr_view s))"
    "se_type (bl_log (tr_view s) ! unat (lastread s)) \<noteq> TYPE_FIRST"
  shows "\<exists>u' s'. exchange env (u, s) = Inr (u', s') \<and> printing u' \<and> readable s' \<and> outbox s' = []
    \<and> tr_view s' = tr_view s \<and> stop_tracing_requested s' = stop_tracing_requested s
    \<and> unat (lastread s') = Suc (unat (lastread s)) \<and> u_pid u' = u_pid u
    \<and> u_curcount u' = Suc (u_curcount u)
    \<and> u_file u' = u_file u @ [line_of (bl_log (tr_view s) ! unat (lastread s))]"
proof -
  let ?e = "bl_log (tr_view s) ! unat (lastread s)"
  from request_entry [OF assms(2,3,5), of "u_pid u"] assms(4) obtain t
    where t: "request (u_pid u) env s = Inr t" "readable t" "tr_view t = tr_view s"
      "stop_tracing_requested t = stop_tracing_requested s" "unat (lastread t) = Suc (unat (lastread s))"
      "outbox t = [entry_msg (u_pid u) ?e]" by auto
  let ?u = "u\<lparr>u_pc := AwaitReply\<rparr>"
  have "usnl_entry ?e ?u = Inr (?u\<lparr>u_file := u_file u @ [line_of ?e], u_curcount := u_curcount u + 1,
      u_pc := AtLoop\<rparr>)"
    using usnl_entry_line [OF assms(6), of ?u] assms(1) by (simp add: printing_def)
  then have "exchange env (u, s) = Inr (?u\<lparr>u_file := u_file u @ [line_of ?e],
      u_curcount := u_curcount u + 1, u_pc := AtLoop\<rparr>, t\<lparr>outbox := []\<rparr>)"
    using exchange_reply [OF assms(1,4) t(1,6)]
    by (simp add: usnl_reply_def entry_msg_def type_not_control Let_def)
  then show ?thesis using t assms(1) by (simp add: printing_def)
qed

text \<open>
  Repeated exchanges print the rest of the log. What they keep is the log, the stop flag, the
  identifier of the program and the distance between its count and the cursor.
\<close>

definition exchange_ready :: "usnl \<times> tracer \<Rightarrow> bool" where
  "exchange_ready us \<longleftrightarrow> printing (fst us) \<and> readable (snd us) \<and> outbox (snd us) = []
     \<and> (\<forall>e\<in>set (bl_log (tr_view (snd us))). se_type e \<noteq> TYPE_FIRST)"

definition exchange_kept :: "usnl \<times> tracer \<Rightarrow> blog \<times> bool \<times> u32 \<times> int" where
  "exchange_kept us = (tr_view (snd us), stop_tracing_requested (snd us), u_pid (fst us),
     int (u_curcount (fst us)) - int (unat (lastread (snd us))))"

interpretation exchanger: log_reader exchange exchange_ready exchange_kept "bl_log \<circ> fst"
  "\<lambda>us. unat (lastread (snd us))" "u_file \<circ> fst" "\<lambda>_. line_of"
proof unfold_locales
  fix us env
  assume "exchange_ready us" "delivers env" "unat (lastread (snd us)) < length ((bl_log \<circ> fst) (exchange_kept us))"
  then show "\<exists>us'. exchange env us = Inr us' \<and> exchange_ready us' \<and> exchange_kept us' = exchange_kept us
      \<and> unat (lastread (snd us')) = Suc (unat (lastread (snd us))) \<and> line_of = line_of
      \<and> (u_file \<circ> fst) us' = (u_file \<circ> fst) us
        @ [line_of ((bl_log \<circ> fst) (exchange_kept us) ! unat (lastread (snd us)))]"
    using exchange_entry [of "fst us" "snd us" env] by (fastforce simp: exchange_ready_def exchange_kept_def)
qed

lemma exchange_entries:
  assumes "printing u" "readable s" "\<forall>env\<in>set envs. delivers env" "outbox s = []"
    "unat (lastread s) + length envs \<le> length (bl_log (tr_view s))"
    "\<forall>e\<in>set (bl_log (tr_view s)). se_type e \<noteq> TYPE_FIRST"
  shows "\<exists>u' s'. fold_outcome exchange envs (u, s) = Inr (u', s') \<and> printing u' \<and> readable s'
    \<and> outbox s' = [] \<and> tr_view s' = tr_view s
    \<and> stop_tracing_requested s' = stop_tracing_requested s \<and> u_pid u' = u_pid u
    \<and> unat (lastread s') = unat (lastread s) + length envs
    \<and> u_curcount u' = u_curcount u + length envs
    \<and> u_file u' = u_file u @ map line_of (take (length envs) (drop (unat (lastread s)) (bl_log (tr_view s))))"
  using exchanger.ask_all [of "(u, s)" envs] assms
  by (auto simp: exchange_ready_def exchange_kept_def simp del: of_nat_unat)

text \<open>The last answer ends the program or restarts the tracer.\<close>

lemma exchange_last:
  assumes "printing u" "readable s" "delivers env" "outbox s = []"
    "unat (lastread s) = length (bl_log (tr_view s))"
  obtains t where "request (u_pid u) env s = Inr t" "tr_view t = tr_view s"
    "exchange env (u, s) = usnl_reply env
      (NlWord (if stop_tracing_requested s then STOP_TRACING else END_OF_DATA))
      (u\<lparr>u_pc := AwaitReply\<rparr>) (t\<lparr>outbox := []\<rparr>)"
proof -
  from request_last [OF assms(2,3,5), of "u_pid u"] assms(4) obtain t
    where t: "request (u_pid u) env s = Inr t" "tr_view t = tr_view s"
      "outbox t = [word_msg (u_pid u) (if stop_tracing_requested s then STOP_TRACING else END_OF_DATA)]"
    by auto
  show thesis
    using that [OF t(1,2)] exchange_reply [OF assms(1,4) t(1,3)] by (simp add: word_msg_def)
qed

lemma control_distinct: "STOP_TRACING \<noteq> START_TRACING" "SYNC_COMPLETE \<noteq> START_TRACING"
  "SYNC_COMPLETE \<noteq> STOP_TRACING" "END_OF_DATA \<noteq> STOP_TRACING"
  by (simp_all add: control_words)

lemma view_inactive: "tr_view t = tr_view s \<Longrightarrow> tracing_active t = tracing_active s"
  by (simp add: tr_view_def)

lemma split_last_env:
  assumes "length envs = Suc n"
  obtains xs env where "envs = xs @ [env]" "length xs = n"
  using assms by (cases envs rule: rev_cases) auto

text \<open>
  (C25) The end of a session, across the two programs: once a stop is pending and nothing is in
  flight, the user program prints exactly the log of the kernel, one line per entry in the order
  of recording, then ends, and its last message leaves the tracer switched off and empty.
\<close>

theorem usnl_prints_log:
  assumes "printing u" "readable s" "stop_tracing_requested s" "lastread s = 0" "outbox s = []"
    "\<forall>e\<in>set (bl_log (tr_view s)). se_type e \<noteq> TYPE_FIRST"
    "\<forall>env\<in>set envs. delivers env" "length envs = Suc (length (bl_log (tr_view s)))"
  shows "\<exists>u' s'. fold_outcome exchange envs (u, s) = Inr (u', s') \<and> u_pc u' = Finished
    \<and> u_file u' = u_file u @ map line_of (bl_log (tr_view s))
    \<and> \<not> tracing_active s' \<and> bl_log (tr_view s') = [] \<and> \<not> tasklet_scheduled s'"
proof -
  obtain xs env where e: "envs = xs @ [env]" "length xs = length (bl_log (tr_view s))"
    using split_last_env [OF assms(8)] .
  from exchange_entries [OF assms(1,2) _ assms(5) _ assms(6), of xs] assms e obtain u1 s1
    where s1: "fold_outcome exchange xs (u, s) = Inr (u1, s1)" "printing u1" "readable s1" "outbox s1 = []"
      "tr_view s1 = tr_view s" "stop_tracing_requested s1"
      "unat (lastread s1) = length (bl_log (tr_view s))"
      "u_file u1 = u_file u @ map line_of (bl_log (tr_view s))"
    by auto
  have "delivers env" using assms(7) e by simp
  then obtain t where t: "tr_view t = tr_view s1" "exchange env (u1, s1) =
      usnl_reply env (NlWord STOP_TRACING) (u1\<lparr>u_pc := AwaitReply\<rparr>) (t\<lparr>outbox := []\<rparr>)"
    using exchange_last [OF s1(2,3) _ s1(4)] s1(5,6,7) by auto
  then have "\<exists>u' s'. exchange env (u1, s1) = Inr (u', s') \<and> u_pc u' = Finished \<and> u_file u' = u_file u1
      \<and> \<not> tracing_active s' \<and> bl_log (tr_view s') = [] \<and> \<not> tasklet_scheduled s'"
    by (simp add: usnl_reply_def usnl_finish_def usnl_send_def nl_rcv_func_def control_distinct tr_view_def)
  with s1 e show ?thesis by (auto simp: fold_outcome_append)
qed

definition demo_stopped :: tracer where
  "demo_stopped = demo_tracer\<lparr>lastentry := 1, tracing_active := False, stop_tracing_requested := True\<rparr>"

lemma demo_stopped_facts: "readable demo_stopped" "stop_tracing_requested demo_stopped"
  "lastread demo_stopped = 0" "outbox demo_stopped = []"
  "bl_log (tr_view demo_stopped) = [call_entry demo_call]"
  by (simp_all add: demo_stopped_def demo_tracer_def tracer_boot_def readable_def tr_inv_def tr_wf_def
      tr_bound_def tr_view_def)

lemma demo_call_type: "se_type (call_entry demo_call) \<noteq> TYPE_FIRST"
  by (simp add: call_entry_def demo_call_def targs_def)

theorem usnl_prints_log_witness:
  "\<exists>u' s'. fold_outcome exchange [demo_env, demo_env] (usnl_init 42 0 0, demo_stopped) = Inr (u', s')
    \<and> u_pc u' = Finished \<and> u_file u' = [line_of (call_entry demo_call)]
    \<and> \<not> tracing_active s' \<and> bl_log (tr_view s') = [] \<and> \<not> tasklet_scheduled s'"
  using usnl_prints_log [of "usnl_init 42 0 0" demo_stopped "[demo_env, demo_env]", OF _ demo_stopped_facts(1-4)]
  by (simp add: demo_stopped_facts demo_call_type demo_call_ok(1) printing_def usnl_init_def TO_OBTAIN_def)

text \<open>
  (C26) A full buffer, across the two programs: awakened, with nothing else in flight, the user
  program prints the whole buffer, marks the end of the batch, and its message restarts the tracer
  with an empty log and the wake-up armed again; it then waits for the next wake-up.
\<close>

theorem usnl_full_cycle:
  assumes "u_pc u = AwaitWake" "u_srvaddr u = 0" "u_totcount u < TO_OBTAIN"
    "readable s" "\<not> stop_tracing_requested s" "lastread s = 0" "outbox s = [wake]"
    "\<forall>e\<in>set (bl_log (tr_view s)). se_type e \<noteq> TYPE_FIRST" "bl_log (tr_view s) \<noteq> []"
    "\<forall>env\<in>set envs. delivers env" "length envs = Suc (length (bl_log (tr_view s)))"
  shows "\<exists>u' s'. bind_outcome (sys_exec (User env0) (u, s)) (fold_outcome exchange envs) = Inr (u', s')
    \<and> u_pc u' = AwaitWake \<and> u_file u' = u_file u @ map line_of (bl_log (tr_view s)) @ [''EOD\<newline>'']
    \<and> tracing_active s' \<and> bl_log (tr_view s') = [] \<and> lastread s' = 0 \<and> \<not> tasklet_scheduled s'
    \<and> outbox s' = []"
proof -
  let ?u = "u\<lparr>u_pc := AtLoop, u_inservice := False, u_curcount := 0\<rparr>" and ?s = "s\<lparr>outbox := []\<rparr>"
  have w: "sys_exec (User env0) (u, s) = Inr (?u, ?s)"
    using assms(1,7) by (simp add: usnl_step_def)
  have p: "printing ?u" using assms(2,3) by (simp add: printing_def)
  obtain xs env where e: "envs = xs @ [env]" "length xs = length (bl_log (tr_view s))"
    using split_last_env [OF assms(11)] .
  from exchange_entries [OF p, of ?s xs] assms e obtain u1 s1
    where s1: "fold_outcome exchange xs (?u, ?s) = Inr (u1, s1)" "printing u1" "readable s1" "outbox s1 = []"
      "tr_view s1 = tr_view s" "\<not> stop_tracing_requested s1"
      "unat (lastread s1) = length (bl_log (tr_view s))" "u_curcount u1 = length (bl_log (tr_view s))"
      "u_file u1 = u_file u @ map line_of (bl_log (tr_view s))"
    by auto
  have "delivers env" using assms(10) e by simp
  then obtain t where t: "tr_view t = tr_view s1" "exchange env (u1, s1) =
      usnl_reply env (NlWord END_OF_DATA) (u1\<lparr>u_pc := AwaitReply\<rparr>) (t\<lparr>outbox := []\<rparr>)"
    using exchange_last [OF s1(2,3) _ s1(4)] s1(5,6,7) by auto
  have "\<not> tracing_active t"
    using view_inactive [OF t(1)] s1(3) by (simp add: readable_def)
  then have "\<exists>u' s'. exchange env (u1, s1) = Inr (u', s') \<and> u_pc u' = AwaitWake
      \<and> u_file u' = u_file u1 @ [''EOD\<newline>''] \<and> tracing_active s' \<and> bl_log (tr_view s') = []
      \<and> lastread s' = 0 \<and> \<not> tasklet_scheduled s' \<and> outbox s' = []"
    using t(2) s1(8) assms(9)
    by (simp add: usnl_reply_def usnl_send_def nl_rcv_func_def control_distinct tr_view_def Let_def)
  with w s1 e show ?thesis by (auto simp: fold_outcome_append)
qed

definition demo_full :: tracer where
  "demo_full = demo_tracer\<lparr>lastentry := 3, tracing_active := False, tasklet_scheduled := True,
     outbox := [word_msg 42 WAKE_UP_USNL]\<rparr>"

lemma demo_full_facts: "readable demo_full" "\<not> stop_tracing_requested demo_full"
  "lastread demo_full = 0" "outbox demo_full = [word_msg 42 WAKE_UP_USNL]"
  "bl_log (tr_view demo_full) = [call_entry demo_call, call_entry demo_call]"
  by (simp_all add: demo_full_def demo_tracer_def tracer_boot_def readable_def tr_inv_def tr_wf_def
      tr_bound_def tr_view_def id_count_def)

theorem usnl_full_cycle_witness:
  "\<exists>u' s'. bind_outcome (sys_exec (User demo_env) ((usnl_init 42 0 0)\<lparr>u_pc := AwaitWake\<rparr>, demo_full))
        (fold_outcome exchange [demo_env, demo_env, demo_env]) = Inr (u', s')
    \<and> u_file u' = [line_of (call_entry demo_call), line_of (call_entry demo_call), ''EOD\<newline>'']
    \<and> tracing_active s' \<and> outbox s' = []"
  using usnl_full_cycle [of "(usnl_init 42 0 0)\<lparr>u_pc := AwaitWake\<rparr>" demo_full "word_msg 42 WAKE_UP_USNL"
      "[demo_env, demo_env, demo_env]" demo_env, OF _ _ _ demo_full_facts(1-4)]
  by (auto simp: demo_full_facts demo_call_type demo_call_ok(1) usnl_init_def TO_OBTAIN_def)

section \<open>A lost stop\<close>

definition demo_env0 :: sysenv where
  "demo_env0 = demo_env\<lparr>ev_cpu := 0\<rparr>"

text \<open>
  A schedule: the buffer overflows before the program's first request, so that the wake-up is read
  as the answer to it and every answer is one late from then on; the stop command arrives just
  before the request that follows the last entry.
\<close>

definition lost_stop_schedule :: "sys_event list" where
  "lost_stop_schedule =
     [Kern (EvTrace demo_env0 (snd demo_call)), Kern (EvTrace demo_env0 (snd demo_call)),
      Kern (EvTrace demo_env0 (snd demo_call)),
      User demo_env0, User demo_env0, User demo_env0, User demo_env0, User demo_env0, User demo_env0,
      Kern (EvCommand (dec_string 1) 1 0),
      User demo_env0, User demo_env0, User demo_env0]"

lemma run_stop_command: "snd (run_command (dec_string (Suc 0)) 1 0 s) = stop_tracing s"
  using sscanf_one_decimal [of "[]" 1] by (simp add: run_command_def SEPEXT_STOP_def)

lemmas tracer_eval = trace_entry_def trace_reserve_def trace_fill_def smp_call_schedule_usnl_def
  schedule_usnl_def awake_usnl_def send_to_userspace_def nl_rcv_func_def serve_request_def
  stop_tracing_def new_entry_def targs_def upd_checked_def nth_checked_def control_words
  sepentry_type_order Let_def

lemmas usnl_eval = usnl_step_def usnl_send_def usnl_reply_def usnl_entry_def count_service_def TO_OBTAIN_def


end
