(* ===== verification/Resolve.thy ===== *)
theory Resolve
  imports GoText
begin

text \<open>
  The address resolver, \<open>resolve.go\<close>: it replaces every word of a trace line that is an address of
  eight hexadecimal digits near a symbol of \<open>System.map\<close> by the symbol and the offset, remembers the
  result in a cache, and prints the words in columns. The three goroutines pass the lines on in order,
  so the program is a function of the lines. \<open>ParseInt("0x" + w, 0, 64)\<close> is the parser for base 16 of
  the releases the program was written for, which have no digit separators.
\<close>

section \<open>Definitions\<close>

type_synonym symtab = "int \<Rightarrow> string option"

definition parse_addr :: "string \<Rightarrow> int option" where
  "parse_addr w = (case ParseUint 16 w of None \<Rightarrow> None | Some n \<Rightarrow> if n < 2 ^ 63 then Some (int n) else None)"

definition MAX_DIST :: nat where
  "MAX_DIST = 16384"

text \<open>One line of \<open>System.map\<close>: \<open>None\<close> is the return of \<open>main\<close> for an address that does not parse.\<close>

definition load_symbol :: "string \<Rightarrow> symtab \<Rightarrow> symtab option outcome" where
  "load_symbol s tab =
     (let l = space_split s in
      case parse_addr (l ! 0) of
        None \<Rightarrow> Inr None
      | Some d \<Rightarrow> bind_outcome (nth_checked l 2) (\<lambda>name. Inr (Some (tab(d \<mapsto> name)))))"

fun load_map :: "string list \<Rightarrow> symtab \<Rightarrow> symtab option outcome" where
  "load_map [] tab = Inr (Some tab)"
| "load_map (s # ss) tab =
     bind_outcome (load_symbol s tab) (\<lambda>r. case r of None \<Rightarrow> Inr None | Some tab' \<Rightarrow> load_map ss tab')"

text \<open>The loop over the offsets: the symbol found, if any, and the offset at which the loop ends.\<close>

function scan_offset :: "symtab \<Rightarrow> int \<Rightarrow> nat \<Rightarrow> string \<times> nat" where
  "scan_offset tab address offset =
     (if offset < MAX_DIST then
        (case tab (address - int offset) of
           Some res \<Rightarrow> (res, offset)
         | None \<Rightarrow> scan_offset tab address (Suc offset))
      else ([], offset))"
  by pat_completeness auto

termination
  by (relation "measure (\<lambda>(tab, address, offset). MAX_DIST - offset)") auto

declare scan_offset.simps [simp del]

type_synonym rcache = "int \<Rightarrow> string option"

text \<open>The body of the loop over the words of a line.\<close>

definition resolve_word :: "symtab \<Rightarrow> string \<Rightarrow> rcache \<Rightarrow> string \<times> rcache" where
  "resolve_word tab word cache =
     (if length word \<noteq> 8 then (word, cache)
      else case parse_addr word of
        None \<Rightarrow> (word, cache)
      | Some address \<Rightarrow>
          let (symbol, offset, cache') =
                (case cache address of
                   Some v \<Rightarrow> (v, 0, cache)
                 | None \<Rightarrow> (case scan_offset tab address 0 of (res, off) \<Rightarrow> (res, off, cache(address \<mapsto> []))))
          in if symbol = [] then (word, cache')
             else let w = (if offset = 0 then symbol else symbol @ ''+'' @ hex_string offset)
                  in (w, cache'(address \<mapsto> w)))"

fun resolve_words :: "symtab \<Rightarrow> string list \<Rightarrow> rcache \<Rightarrow> string list \<times> rcache" where
  "resolve_words tab [] cache = ([], cache)"
| "resolve_words tab (w # ws) cache =
     (let (w', cache') = resolve_word tab w cache; (ws', cache'') = resolve_words tab ws cache' in (w' # ws', cache''))"

definition widths :: "nat list" where
  "widths = [13, 3, 6, 13, 25, 6, 9, 30, 30]"

fun print_words :: "string list \<Rightarrow> nat \<Rightarrow> string outcome" where
  "print_words [] field = Inr []"
| "print_words (s # l) field =
     (if s = [] then print_words l field
      else bind_outcome (nth_checked widths field) (\<lambda>w.
        bind_outcome (print_words l (Suc field)) (\<lambda>rest. Inr (ljust s w @ rest))))"

fun resolve_lines :: "symtab \<Rightarrow> string list \<Rightarrow> rcache \<Rightarrow> string list outcome" where
  "resolve_lines tab [] cache = Inr []"
| "resolve_lines tab (line # ls) cache =
     (case resolve_words tab (space_split line) cache of
        (l, cache') \<Rightarrow>
          bind_outcome (print_words l 0) (\<lambda>out.
            bind_outcome (resolve_lines tab ls cache') (\<lambda>outs. Inr (out # outs))))"

definition resolve_main :: "string list \<Rightarrow> string list \<Rightarrow> string list outcome" where
  "resolve_main sysmap ls =
     bind_outcome (load_map sysmap Map.empty) (\<lambda>r.
       case r of None \<Rightarrow> Inr [] | Some tab \<Rightarrow> resolve_lines tab ls Map.empty)"

section \<open>What a word becomes\<close>

text \<open>The symbol at the smallest distance, within the limit.\<close>

definition nearest :: "symtab \<Rightarrow> int \<Rightarrow> (string \<times> nat) option" where
  "nearest tab a = map_option (\<lambda>k. (the (tab (a - int k)), k)) (find (\<lambda>k. tab (a - int k) \<noteq> None) [0..<MAX_DIST])"

definition addr_symbol :: "symtab \<Rightarrow> int \<Rightarrow> string" where
  "addr_symbol tab a =
     (case nearest tab a of
        None \<Rightarrow> []
      | Some (name, k) \<Rightarrow> if name = [] \<or> k = 0 then name else name @ ''+'' @ hex_string k)"

definition symbolic :: "symtab \<Rightarrow> string \<Rightarrow> string" where
  "symbolic tab word =
     (case (if length word = 8 then parse_addr word else None) of
        None \<Rightarrow> word
      | Some a \<Rightarrow> if addr_symbol tab a = [] then word else addr_symbol tab a)"

lemma scan_offset_find:
  "k \<le> MAX_DIST \<Longrightarrow> scan_offset tab a k =
     (case find (\<lambda>j. tab (a - int j) \<noteq> None) [k..<MAX_DIST] of
        None \<Rightarrow> ([], MAX_DIST) | Some j \<Rightarrow> (the (tab (a - int j)), j))"
proof (induction tab a k rule: scan_offset.induct)
  case (1 tab a k)
  show ?case
  proof (cases "k < MAX_DIST")
    case True
    then have "[k..<MAX_DIST] = k # [Suc k..<MAX_DIST]" by (rule upt_conv_Cons)
    then show ?thesis using True 1 by (subst scan_offset.simps) (auto split: option.split)
  next
    case False
    then show ?thesis using 1 by (subst scan_offset.simps) simp
  qed
qed

lemma scan_nearest: "scan_offset tab a 0 = (case nearest tab a of None \<Rightarrow> ([], MAX_DIST) | Some r \<Rightarrow> r)"
  using scan_offset_find [of 0 tab a] by (auto simp: nearest_def split: option.split)

lemma find_least: "find P [0..<n] = Some k \<longleftrightarrow> k < n \<and> P k \<and> (\<forall>j<k. \<not> P j)"
  by (auto simp: find_Some_iff)

lemma nearest_Some:
  "nearest tab a = Some (name, k) \<longleftrightarrow> k < MAX_DIST \<and> tab (a - int k) = Some name \<and> (\<forall>j<k. tab (a - int j) = None)"
  by (auto simp: nearest_def find_least)

text \<open>What the cache may hold.\<close>

definition cache_ok :: "symtab \<Rightarrow> rcache \<Rightarrow> bool" where
  "cache_ok tab cache \<longleftrightarrow> (\<forall>a v. cache a = Some v \<longrightarrow> v = addr_symbol tab a)"

lemma resolve_word_symbolic:
  assumes "cache_ok tab cache"
  shows "fst (resolve_word tab w cache) = symbolic tab w \<and> cache_ok tab (snd (resolve_word tab w cache))"
proof (cases "length w = 8 \<and> parse_addr w \<noteq> None")
  case True
  then obtain a where a: "length w = 8" "parse_addr w = Some a" by auto
  show ?thesis
  proof (cases "cache a")
    case None
    then show ?thesis using a assms
      by (auto simp: resolve_word_def symbolic_def scan_nearest addr_symbol_def cache_ok_def Let_def split: option.splits)
  next
    case (Some v)
    then have "v = addr_symbol tab a" using assms by (simp add: cache_ok_def)
    moreover have "resolve_word tab w cache = (if v = [] then w else v, cache)"
      using a Some by (simp add: resolve_word_def fun_upd_idem)
    ultimately show ?thesis using a assms by (simp add: symbolic_def)
  qed
next
  case False
  then show ?thesis using assms by (auto simp: resolve_word_def symbolic_def)
qed

lemma resolve_words_symbolic:
  "cache_ok tab cache \<Longrightarrow> fst (resolve_words tab ws cache) = map (symbolic tab) ws \<and>
   cache_ok tab (snd (resolve_words tab ws cache))"
proof (induction ws arbitrary: cache)
  case (Cons w ws)
  obtain w' c where w: "resolve_word tab w cache = (w', c)" by fastforce
  then have c: "w' = symbolic tab w" "cache_ok tab c" using resolve_word_symbolic [OF Cons.prems, of w] by simp_all
  obtain ws' c' where "resolve_words tab ws c = (ws', c')" by fastforce
  then show ?case using w c Cons.IH [OF c(2)] by simp
qed simp

text \<open>The program without a cache.\<close>

definition resolve_line :: "symtab \<Rightarrow> string \<Rightarrow> string outcome" where
  "resolve_line tab line = print_words (map (symbolic tab) (space_split line)) 0"

fun map_outcome :: "('a \<Rightarrow> 'b outcome) \<Rightarrow> 'a list \<Rightarrow> 'b list outcome" where
  "map_outcome f [] = Inr []"
| "map_outcome f (x # xs) = bind_outcome (f x) (\<lambda>y. bind_outcome (map_outcome f xs) (\<lambda>ys. Inr (y # ys)))"

lemma resolve_lines_uncached:
  "cache_ok tab cache \<Longrightarrow> resolve_lines tab ls cache = map_outcome (resolve_line tab) ls"
proof (induction ls arbitrary: cache)
  case (Cons line ls)
  obtain l c where r: "resolve_words tab (space_split line) cache = (l, c)" by fastforce
  then have "l = map (symbolic tab) (space_split line)" "cache_ok tab c"
    using resolve_words_symbolic [OF Cons.prems, of "space_split line"] by simp_all
  then show ?case using Cons.IH r by (simp add: resolve_line_def)
qed simp

section \<open>Columns\<close>

lemma print_words_filter: "print_words ws f = print_words (filter (\<lambda>w. w \<noteq> []) ws) f"
  by (induction ws arbitrary: f) auto

lemma ws_split_last:
  assumes "word_ok w" "\<forall>c\<in>set p. is_ws c"
  shows "ws_split (w @ p) = w # (if p = [] then [] else [[]])"
proof (cases "p = []")
  case True
  then show ?thesis using ws_split_word [OF assms(1)] by simp
next
  case False
  have "ws_split [] = [[]]" by (simp add: ws_split.simps)
  then show ?thesis using ws_split_Cons [OF assms(1) False assms(2), of "[]"] False by simp
qed

lemma pad_ws: "\<forall>c\<in>set (replicate n CHR '' ''). is_ws c"
  by (simp add: is_ws_def)

text \<open>Words that are shorter than their columns come apart again at the white space.\<close>

lemma print_words_split:
  assumes "\<forall>w\<in>set ws. w \<noteq> [] \<and> word_ok w" "f + length ws \<le> length widths"
    and "\<forall>i. Suc i < length ws \<longrightarrow> length (ws ! i) < widths ! (f + i)"
  shows "\<exists>out. print_words ws f = Inr out \<and> (ws \<noteq> [] \<longrightarrow> out \<noteq> [] \<and> take (length (hd ws)) out = hd ws \<and>
    (ws_split out = ws \<or> ws_split out = ws @ [[]]))"
  using assms
proof (induction ws arbitrary: f)
  case (Cons w ws)
  then have w: "w \<noteq> []" "word_ok w" "f < length widths" by auto
  have "\<forall>i. Suc i < length ws \<longrightarrow> length (ws ! i) < widths ! (Suc f + i)"
    using Cons.prems(3) by (metis Suc_less_eq add_Suc_shift length_Cons nth_Cons_Suc)
  then obtain out where out: "print_words ws (Suc f) = Inr out" "ws \<noteq> [] \<longrightarrow> out \<noteq> [] \<and> take (length (hd ws)) out = hd ws \<and>
      (ws_split out = ws \<or> ws_split out = ws @ [[]])"
    using Cons.IH [of "Suc f"] Cons.prems(1,2) by auto
  let ?pad = "replicate (widths ! f - length w) CHR '' ''"
  have pr: "print_words (w # ws) f = Inr (w @ ?pad @ out)" using w out(1) by (simp add: ljust_def)
  have "ws_split (w @ ?pad @ out) = w # ws \<or> ws_split (w @ ?pad @ out) = (w # ws) @ [[]]"
  proof (cases "ws = []")
    case True
    then have "out = []" using out(1) by simp
    then show ?thesis using ws_split_last [OF w(2) pad_ws] True by auto
  next
    case False
    then have "length w < widths ! f" using Cons.prems(3) by (metis Suc_less_eq add.right_neutral length_Cons length_greater_0_conv nth_Cons_0)
    then have pad: "?pad \<noteq> []" by simp
    have "hd ws \<noteq> [] \<and> word_ok (hd ws)" using False Cons.prems(1) by simp
    moreover from this have "hd out = hd (hd ws)" using out(2) False by (metis hd_take length_greater_0_conv)
    ultimately have "\<not> is_ws (hd out)" by (simp add: word_ok_def)
    then have "ws_split (w @ ?pad @ out) = w # ws_split out" using ws_split_Cons [OF w(2) pad pad_ws] by blast
    then show ?thesis using out(2) False by auto
  qed
  then show ?case using pr w(1) by auto
qed simp

lemma space_split_word: "CHR '' '' \<notin> set w \<Longrightarrow> space_split w = [w]"
  by (induction w) auto

lemma space_split_append: "CHR '' '' \<notin> set w \<Longrightarrow> space_split (w @ CHR '' '' # s) = w # space_split s"
  by (induction w) auto

lemma space_split_spaces: "space_split (replicate n CHR '' '' @ s) = replicate n [] @ space_split s"
  by (induction n) auto

lemma symbolic_found:
  assumes "length w = 8" "parse_addr w = Some a" "k < MAX_DIST" "tab (a - int k) = Some name" "name \<noteq> []"
    and "\<forall>j<k. tab (a - int j) = None"
  shows "symbolic tab w = (if k = 0 then name else name @ ''+'' @ hex_string k)"
proof -
  have "nearest tab a = Some (name, k)" using assms nearest_Some by simp
  then show ?thesis using assms(1,2,5) by (simp add: symbolic_def addr_symbol_def)
qed

lemma symbolic_kept:
  assumes "length w \<noteq> 8 \<or> parse_addr w = None \<or> (\<forall>j<MAX_DIST. tab (the (parse_addr w) - int j) = None)"
  shows "symbolic tab w = w"
proof (cases "length w = 8 \<and> parse_addr w \<noteq> None")
  case True
  then obtain a where a: "parse_addr w = Some a" by auto
  then have "\<forall>j<MAX_DIST. tab (a - int j) = None" using True assms by simp
  then have "nearest tab a = None" by (auto simp: nearest_def find_None_iff)
  then show ?thesis using a by (simp add: symbolic_def addr_symbol_def)
qed (auto simp: symbolic_def)

section \<open>Properties\<close>

text \<open>
  The cache is transparent and the search finds the nearest symbol (C13): on any lines the resolver
  prints what a resolver without a cache prints, in which a word of eight hexadecimal digits whose
  address has a symbol less than \<open>MAX_DIST\<close> bytes below it becomes that symbol, the nearest one, with
  the distance in hexadecimal if it is not zero, and every other word stays as it is.
\<close>

theorem resolver_correct:
  "resolve_lines tab ls Map.empty = map_outcome (\<lambda>line. print_words (map (symbolic tab) (space_split line)) 0) ls \<and>
   (\<forall>w a k name. length w = 8 \<longrightarrow> parse_addr w = Some a \<longrightarrow> k < MAX_DIST \<longrightarrow> tab (a - int k) = Some name \<longrightarrow> name \<noteq> [] \<longrightarrow>
     (\<forall>j<k. tab (a - int j) = None) \<longrightarrow> symbolic tab w = (if k = 0 then name else name @ ''+'' @ hex_string k)) \<and>
   (\<forall>w. length w \<noteq> 8 \<or> parse_addr w = None \<or> (\<forall>j<MAX_DIST. tab (the (parse_addr w) - int j) = None) \<longrightarrow> symbolic tab w = w)"
proof (intro conjI allI impI)
  show "resolve_lines tab ls Map.empty = map_outcome (\<lambda>line. print_words (map (symbolic tab) (space_split line)) 0) ls"
    using resolve_lines_uncached [of tab Map.empty ls] by (simp add: cache_ok_def resolve_line_def [abs_def])
qed (rule symbolic_found symbolic_kept; assumption)+

theorem resolver_correct_witness:
  "symbolic [0xC0008000 \<mapsto> ''stext''] ''c0008002'' = ''stext+'' @ hex_string 2 \<and>
   symbolic [0xC0008000 \<mapsto> ''stext''] ''00000010'' = ''00000010''"
proof -
  have d: "go_digit CHR ''c'' = Some 12" "go_digit CHR ''0'' = Some 0" "go_digit CHR ''1'' = Some 1"
    "go_digit CHR ''2'' = Some 2" "go_digit CHR ''8'' = Some 8" by code_simp+
  have a: "parse_addr ''c0008002'' = Some 0xC0008002" "parse_addr ''00000010'' = Some 16"
    by (simp_all add: parse_addr_def ParseUint_def d)
  have "symbolic [0xC0008000 \<mapsto> ''stext''] ''c0008002'' = (if (2::nat) = 0 then ''stext'' else ''stext'' @ ''+'' @ hex_string 2)"
    by (rule resolver_correct [THEN conjunct2, THEN conjunct1, rule_format, OF _ a(1)]) (auto simp: MAX_DIST_def)
  moreover have "symbolic [0xC0008000 \<mapsto> ''stext''] ''00000010'' = ''00000010''"
    by (rule resolver_correct [THEN conjunct2, THEN conjunct2, rule_format]) (simp add: a(2))
  ultimately show ?thesis by simp
qed

text \<open>
  Columns can run together (C16): if the word of the seventh column, the packet data, is replaced by a
  symbol of nine or more characters, it is printed without a separator, and splitting the line again
  at white space moves the location into the place of the service and leaves the location empty.
\<close>

theorem wide_data_shifts_fields:
  assumes "\<forall>w\<in>set ([w0, w1, w2, w3, w4, w5, w6, w7, w8] :: string list). w \<noteq> [] \<and> word_ok w"
    and "length w0 < 13" "length w1 < 3" "length w2 < 6" "length w3 < 13" "length w4 < 25" "length w5 < 6"
    and "9 \<le> length w6" "length w7 < 30" "length w8 < 30"
  shows "\<exists>out. print_words [w0, w1, w2, w3, w4, w5, w6, w7, w8] 0 = Inr out \<and>
    ws_split out = [w0, w1, w2, w3, w4, w5, w6 @ w7, w8, []]"
proof -
  have pad: "ws_split (ljust w n @ rest) = w # ws_split rest"
    if "word_ok w" "length w < n" "rest \<noteq> [] \<longrightarrow> \<not> is_ws (hd rest)" for w n rest
    using ws_split_Cons [OF that(1) _ pad_ws, of "n - length w" rest] that(2,3) by (auto simp: ljust_def)
  have hd: "\<not> is_ws (hd (w @ r))" "\<not> is_ws (hd (ljust w n @ r))" if "w \<in> set [w0, w1, w2, w3, w4, w5, w6, w7, w8]" for w n r
    using assms(1) that by (auto simp: word_ok_def ljust_def)
  let ?r7 = "w6 @ ljust w7 30 @ ljust w8 30"
  have "ljust w6 9 = w6" using assms(8) by (simp add: ljust_def)
  then have pr: "print_words [w0, w1, w2, w3, w4, w5, w6, w7, w8] 0 =
      Inr (ljust w0 13 @ ljust w1 3 @ ljust w2 6 @ ljust w3 13 @ ljust w4 25 @ ljust w5 6 @ ?r7)"
    using assms(1) by (simp add: widths_def)
  have r7: "?r7 = ljust (w6 @ w7) (length w6 + 30) @ ljust w8 30 @ []" using assms(9) by (simp add: ljust_def)
  have "word_ok (w6 @ w7)" using assms(1) by (auto simp: word_ok_def)
  moreover have "ws_split [] = [[]]" by (simp add: ws_split.simps)
  ultimately have 7: "ws_split ?r7 = [w6 @ w7, w8, []]" unfolding r7
    using pad [of "w6 @ w7" "length w6 + 30" "ljust w8 30 @ []"] pad [of w8 30 "[]"] hd(2) [of w8 30 "[]"] assms(1,9,10) by simp
  show ?thesis using pr 7 hd assms(1-7) by (simp add: pad)
qed

theorem wide_data_shifts_fields_witness:
  "\<exists>out. print_words [''PKTQUEUE'', ''0'', ''1'', ''5'', ''0'', ''2'', ''init_task+8'', ''f'', ''g''] 0 = Inr out \<and>
     ws_split out = [''PKTQUEUE'', ''0'', ''1'', ''5'', ''0'', ''2'', ''init_task+8'' @ ''f'', ''g'', []]"
  by (rule wide_data_shifts_fields) (simp_all add: word_ok_def is_ws_def)

end
