(* ===== verification/Pipeline.thy ===== *)
theory Pipeline
  imports Usnl Resolve AnalyseSpec
begin

text \<open>
  The tool chain from the kernel to the analyser: the line the user-space program writes for a trace
  entry, the resolver's version of it, and what the analyser reads from that.
\<close>

section \<open>Decimal words are no addresses\<close>

lemma dec_digits_length: "n < 10 ^ k \<Longrightarrow> 0 < k \<Longrightarrow> length (dec_digits n) \<le> k"
proof (induction k arbitrary: n)
  case (Suc k)
  show ?case
  proof (cases "n < 10")
    case True
    then show ?thesis by (simp add: dec_digits_single)
  next
    case False
    then have "0 < k" using Suc.prems by (cases k) auto
    moreover have "n div 10 < 10 ^ k" using Suc.prems(1) by (simp add: less_mult_imp_div_less mult.commute)
    ultimately have "length (dec_digits (n div 10)) \<le> k" using Suc.IH by blast
    then show ?thesis using False by (subst dec_digits.simps) simp
  qed
qed simp

lemma dec_string_length: "n < 10 ^ k \<Longrightarrow> 0 < k \<Longrightarrow> length (dec_string n) \<le> k"
  using dec_digits_length by (simp add: dec_string_digits)

lemma dec_digits_last: "0 < n \<Longrightarrow> 0 < last (dec_digits n)"
proof (induction n rule: dec_digits.induct)
  case (1 n)
  then show ?case using dec_digits_nonempty [of "n div 10"] by (subst dec_digits.simps) auto
qed

lemma go_digits_dec_bounds:
  "\<forall>d\<in>set ds. d < 10 \<Longrightarrow> \<exists>v. go_digits 16 acc (map digit_char ds) = Some v \<and> acc * 16 ^ length ds \<le> v \<and>
     5 * v + 3 \<le> 5 * acc * 16 ^ length ds + 3 * 16 ^ length ds"
proof (induction ds arbitrary: acc)
  case (Cons d ds)
  then have "\<exists>v. go_digits 16 (acc * 16 + d) (map digit_char ds) = Some v \<and> (acc * 16 + d) * 16 ^ length ds \<le> v \<and>
      5 * v + 3 \<le> 5 * (acc * 16 + d) * 16 ^ length ds + 3 * 16 ^ length ds" by (intro Cons.IH) simp
  then obtain v where v: "go_digits 16 (acc * 16 + d) (map digit_char ds) = Some v" "(acc * 16 + d) * 16 ^ length ds \<le> v"
      "5 * v + 3 \<le> 5 * (acc * 16 + d) * 16 ^ length ds + 3 * 16 ^ length ds" by blast
  define P :: nat where "P = 16 ^ length ds"
  have "5 * (acc * 16 + d) * P + 3 * P = (80 * acc + 5 * d + 3) * P" by (simp add: algebra_simps)
  also have "\<dots> \<le> (80 * acc + 48) * P" using Cons.prems by (intro mult_le_mono1) simp
  also have "\<dots> = 5 * acc * (16 * P) + 3 * (16 * P)" by (simp add: algebra_simps)
  finally have "5 * v + 3 \<le> 5 * acc * (16 * P) + 3 * (16 * P)" using v(3) by (simp add: P_def)
  moreover have "acc * (16 * P) \<le> v" using v(2) by (simp add: P_def algebra_simps)
  ultimately show ?case using v(1) Cons.prems go_digit_dec [of d] by (simp add: P_def)
qed simp

lemma dec_word_parse:
  assumes "length (dec_string n) = 8"
  shows "\<exists>v. parse_addr (dec_string n) = Some (int v) \<and> 16 ^ 7 \<le> v \<and> v \<le> 0x99999999"
proof -
  let ?ds = "rev (dec_digits n)"
  have len: "length ?ds = 8" using assms by (simp add: dec_string_digits)
  have b: "\<forall>d\<in>set ?ds. d < 10" using dec_digits_bound by auto
  then obtain v where v: "go_digits 16 0 (map digit_char ?ds) = Some v" "5 * v + 3 \<le> 3 * 16 ^ 8"
    using go_digits_dec_bounds [OF b, of 0] len by auto
  obtain d ds where ds: "?ds = d # ds" using len by (cases ?ds) auto
  have "n \<noteq> 0" using len by (intro notI) (simp add: dec_digits_single)
  then have "0 < last (dec_digits n)" using dec_digits_last by simp
  then have d: "0 < d" using ds by (metis hd_rev list.sel(1))
  obtain w where "go_digits 16 d (map digit_char ds) = Some w" "d * 16 ^ length ds \<le> w"
    using go_digits_dec_bounds [of ds d] b ds by auto
  moreover have "length ds = 7" using len ds by simp
  moreover have "go_digits 16 0 (map digit_char ?ds) = go_digits 16 d (map digit_char ds)"
    using ds b go_digit_dec [of d] by simp
  ultimately have "d * 16 ^ 7 \<le> v" using v(1) by simp
  then have "16 ^ 7 \<le> v" using d by simp
  moreover have "v < 2 ^ 63" "v \<le> 0x99999999" using v(2) by simp_all
  ultimately show ?thesis using v(1) dec_string_not_Nil by (auto simp: parse_addr_def ParseUint_def dec_string_digits)
qed

text \<open>
  A symbol table as the kernel has it: no symbol in or shortly below the range of numbers that eight
  decimal digits give when they are read as hexadecimal ones, and names without white space.
\<close>

definition kernel_symbols :: "symtab \<Rightarrow> bool" where
  "kernel_symbols tab \<longleftrightarrow> (\<forall>a name. tab a = Some name \<longrightarrow> (a < 0x10000000 - 16384 \<or> 0x99999999 < a) \<and> word_ok name)"

lemma symbolic_dec: "kernel_symbols tab \<Longrightarrow> symbolic tab (dec_string n) = dec_string n"
proof (cases "length (dec_string n) = 8")
  case True
  assume tab: "kernel_symbols tab"
  obtain v where v: "parse_addr (dec_string n) = Some (int v)" "16 ^ 7 \<le> v" "v \<le> 0x99999999"
    using dec_word_parse [OF True] by blast
  have "tab (int v - int j) = None" if "j < MAX_DIST" for j
  proof (rule ccontr)
    assume "tab (int v - int j) \<noteq> None"
    then show False using tab v(2,3) that unfolding kernel_symbols_def MAX_DIST_def by force
  qed
  then have "nearest tab (int v) = None" by (auto simp: nearest_def find_None_iff)
  then show ?thesis using v(1) by (simp add: symbolic_def addr_symbol_def)
qed (simp add: symbolic_def)

lemma symbolic_word:
  assumes "kernel_symbols tab" "word_ok w" "w \<noteq> []" shows "word_ok (symbolic tab w)" "symbolic tab w \<noteq> []"
proof -
  have "word_ok (addr_symbol tab a)" for a
  proof (cases "nearest tab a")
    case (Some r)
    obtain name k where r: "r = (name, k)" by fastforce
    then have "word_ok name" using assms(1) Some nearest_Some [of tab a name k] by (auto simp: kernel_symbols_def)
    then show ?thesis using Some r hex_string_word [of k] by (auto simp: addr_symbol_def word_ok_def is_ws_def)
  qed (simp add: addr_symbol_def word_ok_def)
  then show "word_ok (symbolic tab w)" "symbolic tab w \<noteq> []"
    using assms(2,3) by (auto simp: symbolic_def split: option.split)
qed

section \<open>The words of a trace line\<close>

definition type_word :: "sepentry_type \<Rightarrow> string" where
  "type_word t = takeWhile (\<lambda>c. c \<noteq> CHR '' '') (typestrings ! (type_code t - 1))"

definition type_string_ok :: "string \<Rightarrow> bool" where
  "type_string_ok s =
     (let w = takeWhile (\<lambda>c. c \<noteq> CHR '' '') s in
      s = w @ replicate (length s - length w) CHR '' '' \<and> w \<noteq> [] \<and> list_all (\<lambda>c. \<not> is_ws c) w \<and>
      length w < 13 \<and> 3 \<le> length w \<and> take 3 w \<noteq> ''EOD'' \<and> go_digits 16 0 w = None)"

lemma type_strings_ok: "list_all type_string_ok typestrings"
  by code_simp

lemma type_words:
  shows "\<exists>k. typestrings ! (type_code t - 1) = type_word t @ replicate k CHR '' ''"
    and "type_word t \<noteq> []" "word_ok (type_word t)" "length (type_word t) < 13" "3 \<le> length (type_word t)"
    and "take 3 (type_word t) \<noteq> ''EOD''" "parse_addr (type_word t) = None"
proof -
  let ?s = "typestrings ! (type_code t - 1)"
  have "type_code t - 1 < length typestrings" using type_code_bound [of t] by simp
  then have "type_string_ok ?s" using type_strings_ok by (simp add: list_all_length)
  then have ok: "?s = type_word t @ replicate (length ?s - length (type_word t)) CHR '' ''" "type_word t \<noteq> []"
      "list_all (\<lambda>c. \<not> is_ws c) (type_word t)" "length (type_word t) < 13" "3 \<le> length (type_word t)"
      "take 3 (type_word t) \<noteq> ''EOD''" "go_digits 16 0 (type_word t) = None"
    unfolding type_string_ok_def type_word_def Let_def by blast+
  show "\<exists>k. ?s = type_word t @ replicate k CHR '' ''" using ok(1) by blast
  show "type_word t \<noteq> []" "word_ok (type_word t)" "length (type_word t) < 13" "3 \<le> length (type_word t)"
    "take 3 (type_word t) \<noteq> ''EOD''" "parse_addr (type_word t) = None"
    using ok by (simp_all add: word_ok_def list_all_iff parse_addr_def ParseUint_def)
qed

definition raw_words :: "sepentry \<Rightarrow> string list" where
  "raw_words e = [type_word (se_type e), dec_string (unat (se_cpu e)), dec_string (unat (se_currpid e)),
     dec_string (unat (se_cycles e)), dec_string (unat (ucast (se_pid1 e) :: u16)),
     dec_string (unat (ucast (se_pid2 e) :: u16)), hex_string (unat (se_data e)), hex_string (unat (se_addr e)),
     hex_string (unat (se_location e))]"

lemma word_no_space: "word_ok w \<Longrightarrow> CHR '' '' \<notin> set w"
  by (auto simp: word_ok_def is_ws_def)

text \<open>The scanner takes the newline off; the padding of the type splits into empty words.\<close>

lemma line_words:
  "\<exists>k. space_split (butlast (line_of e)) = type_word (se_type e) # replicate k [] @ tl (raw_words e)"
proof -
  obtain k where k: "typestrings ! (type_code (se_type e) - 1) = type_word (se_type e) @ replicate k CHR '' ''"
    using type_words(1) by blast
  note sp = word_no_space [OF type_words(3)] word_no_space [OF dec_string_word] word_no_space [OF hex_string_word]
  have "replicate k CHR '' '' @ CHR '' '' # s = CHR '' '' # replicate k CHR '' '' @ s" for s
    by (simp add: replicate_app_Cons_same)
  then have "butlast (line_of e) = type_word (se_type e) @ CHR '' '' # replicate k CHR '' '' @
      dec_string (unat (se_cpu e)) @ CHR '' '' # dec_string (unat (se_currpid e)) @ CHR '' '' # dec_string (unat (se_cycles e)) @
      CHR '' '' # dec_string (unat (ucast (se_pid1 e) :: u16)) @ CHR '' '' # dec_string (unat (ucast (se_pid2 e) :: u16)) @
      CHR '' '' # hex_string (unat (se_data e)) @ CHR '' '' # hex_string (unat (se_addr e)) @ CHR '' '' # hex_string (unat (se_location e))"
    unfolding line_of_def entry_line_def k by (simp add: butlast_append)
  then show ?thesis
    by (simp add: space_split_append space_split_spaces space_split_word sp raw_words_def)
qed

definition words_of :: "symtab \<Rightarrow> sepentry \<Rightarrow> string list" where
  "words_of tab e = take 6 (raw_words e) @ map (symbolic tab) (drop 6 (raw_words e))"

lemma resolved_words:
  assumes "kernel_symbols tab"
  shows "filter (\<lambda>w. w \<noteq> []) (map (symbolic tab) (space_split (butlast (line_of e)))) = words_of tab e"
proof -
  obtain k where k: "space_split (butlast (line_of e)) = type_word (se_type e) # replicate k [] @ tl (raw_words e)"
    using line_words by blast
  have "symbolic tab [] = []" by (simp add: symbolic_def)
  then have none: "filter (\<lambda>w. w \<noteq> []) (replicate k (symbolic tab [])) = []" by simp
  have ty: "symbolic tab (type_word (se_type e)) = type_word (se_type e)"
    using type_words(7) by (simp add: symbolic_def)
  have hex: "symbolic tab (hex_string n) \<noteq> []" for n using symbolic_word(2) [OF assms hex_string_word] by simp
  show ?thesis unfolding k using none ty hex type_words(2) dec_string_not_Nil
    by (simp add: words_of_def raw_words_def symbolic_dec [OF assms] map_replicate)
qed

lemma word_lengths:
  "length (dec_string (unat (c :: u16))) \<le> 5" "length (dec_string (unat (w :: u32))) \<le> 10"
proof -
  have "unat c < 10 ^ 5" by (rule less_le_trans [OF unsigned_less]) simp
  then show "length (dec_string (unat c)) \<le> 5" by (rule dec_string_length) simp
  have "unat w < 10 ^ 10" by (rule less_le_trans [OF unsigned_less]) simp
  then show "length (dec_string (unat w)) \<le> 10" by (rule dec_string_length) simp
qed

text \<open>The words fit into their columns, the two columns of symbols apart.\<close>

definition columns_ok :: "symtab \<Rightarrow> sepentry \<Rightarrow> bool" where
  "columns_ok tab e \<longleftrightarrow> length (symbolic tab (hex_string (unat (se_data e)))) < 9 \<and>
     length (symbolic tab (hex_string (unat (se_addr e)))) < 30"

lemma resolved_line:
  assumes "kernel_symbols tab" "columns_ok tab e" "unat (se_cpu e) < 2"
  shows "\<exists>out. resolve_line tab (butlast (line_of e)) = Inr out \<and> take (length (type_word (se_type e))) out = type_word (se_type e) \<and>
    (ws_split out = words_of tab e \<or> ws_split out = words_of tab e @ [[]])"
proof -
  let ?ws = "words_of tab e"
  have hex: "word_ok (symbolic tab (hex_string n))" "symbolic tab (hex_string n) \<noteq> []" for n
    using symbolic_word [OF assms(1) hex_string_word] by simp_all
  have ok: "\<forall>w\<in>set ?ws. w \<noteq> [] \<and> word_ok w"
    using hex type_words dec_string_not_Nil dec_string_word by (simp add: words_of_def raw_words_def)
  have len: "0 + length ?ws \<le> length widths" by (simp add: words_of_def raw_words_def widths_def)
  have cpu: "length (dec_string (unat (se_cpu e))) < 3" using dec_string_length [of "unat (se_cpu e)" 1] assms(3) by simp
  have lens: "length (dec_string (unat (se_currpid e))) < 6" "length (dec_string (unat (se_cycles e))) < 13"
    "length (dec_string (unat (ucast (se_pid1 e) :: u16))) < 25" "length (dec_string (unat (ucast (se_pid2 e) :: u16))) < 6"
    using word_lengths(1) [of "se_currpid e"] word_lengths(2) [of "se_cycles e"] word_lengths(1) [of "ucast (se_pid1 e)"]
      word_lengths(1) [of "ucast (se_pid2 e)"] by linarith+
  have "length (?ws ! i) < widths ! (0 + i)" if "Suc i < length ?ws" for i
  proof -
    have "i = 0 \<or> i = 1 \<or> i = 2 \<or> i = 3 \<or> i = 4 \<or> i = 5 \<or> i = 6 \<or> i = 7"
      using that by (simp add: words_of_def raw_words_def) arith
    then show ?thesis using type_words(4) cpu lens assms(2)
      by (elim disjE) (simp_all add: words_of_def raw_words_def widths_def columns_ok_def)
  qed
  then obtain out where "print_words ?ws 0 = Inr out" "?ws \<noteq> [] \<longrightarrow> out \<noteq> [] \<and> take (length (hd ?ws)) out = hd ?ws \<and>
      (ws_split out = ?ws \<or> ws_split out = ?ws @ [[]])"
    using print_words_split [OF ok len] by blast
  moreover have "?ws \<noteq> []" "hd ?ws = type_word (se_type e)" by (simp_all add: words_of_def raw_words_def)
  moreover have "resolve_line tab (butlast (line_of e)) = print_words ?ws 0"
    unfolding resolve_line_def by (subst print_words_filter) (simp add: resolved_words [OF assms(1)])
  ultimately show ?thesis by auto
qed

section \<open>What the analyser reads\<close>

lemma ws_split_length: "length (ws_split s) \<le> Suc (length s)"
proof (induction s rule: ws_split.induct)
  case (1 s)
  let ?r = "dropWhile (\<lambda>c. \<not> is_ws c) s"
  show ?case
  proof (cases "?r = []")
    case True
    then show ?thesis by (subst ws_split.simps) (simp add: Let_def)
  next
    case False
    then obtain c r where r: "?r = c # r" "is_ws c" by (metis hd_dropWhile list.collapse)
    have "length (dropWhile is_ws ?r) \<le> length r" using r by (simp add: length_dropWhile_le)
    moreover have "Suc (length r) \<le> length s" using r(1) length_dropWhile_le [of "\<lambda>c. \<not> is_ws c" s] by simp
    moreover have "length (ws_split (dropWhile is_ws ?r)) \<le> Suc (length (dropWhile is_ws ?r))" by (rule 1 [OF refl refl False])
    ultimately show ?thesis using False by (subst ws_split.simps) (simp add: Let_def)
  qed
qed

definition entry_of :: "symtab \<Rightarrow> sepentry \<Rightarrow> int \<Rightarrow> int \<Rightarrow> ana_entry" where
  "entry_of tab e cycles line =
     \<lparr>e_type = type_word (se_type e), e_cpu = int (unat (se_cpu e)), e_curpid = int (unat (se_currpid e)),
      e_pid1 = int (unat (ucast (se_pid1 e) :: u16)), e_pid2 = int (unat (ucast (se_pid2 e) :: u16)),
      e_packet = symbolic tab (hex_string (unat (se_data e))), e_service = symbolic tab (hex_string (unat (se_addr e))),
      e_location = symbolic tab (hex_string (unat (se_location e))), e_cycles = cycles, e_line = line,
      e_tempid = 0, e_temps = [], e_peudur = 0, e_peuirq = 0\<rparr>"

lemma Atoi_u16: "Atoi (dec_string (unat (c :: u16))) = Some (int (unat c))"
  by (rule Atoi_dec) (rule less_le_trans [OF unsigned_less], simp)

lemma Atoi_u32: "Atoi (dec_string (unat (c :: u32))) = Some (int (unat c))"
  by (rule Atoi_dec) (rule less_le_trans [OF unsigned_less], simp)

lemma run_words:
  assumes out: "take (length (type_word (se_type e))) out = type_word (se_type e)"
      "ws_split out = words_of tab e \<or> ws_split out = words_of tab e @ [[]]"
    and e: "type_word (se_type e) \<notin> {''ID_QUEUE'', ''ID_SYNCH''}"
    and r: "\<not> ar_returned r" "unat (se_cpu e) < length (ar_cpus r)"
      "ct_limbo (ar_cpus r ! unat (se_cpu e)) \<longrightarrow> type_word (se_type e) = ''CTXSW''"
  shows "run_line out r =
    (let c = unat (se_cpu e); ts = advance (int (unat (se_cycles e))) ((ar_cpus r ! c)\<lparr>ct_limbo := False\<rparr>);
         E = entry_of tab e (ct_cycles ts) (ar_lineNumber r + 1) in
     bind_outcome (feed E (ar_state r)) (\<lambda>s'.
       Inr (r\<lparr>ar_lineNumber := ar_lineNumber r + 1, ar_cpus := (ar_cpus r)[c := ts], ar_state := s',
              longestLocationString := max (longestLocationString r) (int (length (e_location E)))\<rparr>)))"
proof -
  let ?w = "ws_split out"
  have n: "9 \<le> length ?w" using out(2) by (auto simp: words_of_def raw_words_def)
  have long: "\<not> length out < 3" using n ws_split_length [of out] by simp
  have "take 3 out = take 3 (type_word (se_type e))" using out(1) type_words(5) by (metis min_def take_take)
  then have eod: "take 3 out \<noteq> ''EOD''" using type_words(6) by simp
  have w: "?w ! 0 = type_word (se_type e)" "?w ! 1 = dec_string (unat (se_cpu e))" "?w ! 2 = dec_string (unat (se_currpid e))"
    "?w ! 3 = dec_string (unat (se_cycles e))" "?w ! 4 = dec_string (unat (ucast (se_pid1 e) :: u16))"
    "?w ! 5 = dec_string (unat (ucast (se_pid2 e) :: u16))" "?w ! 6 = symbolic tab (hex_string (unat (se_data e)))"
    "?w ! 7 = symbolic tab (hex_string (unat (se_addr e)))" "?w ! 8 = symbolic tab (hex_string (unat (se_location e)))"
    using out(2) by (auto simp: words_of_def raw_words_def)
  define c where "c = unat (se_cpu e)"
  have c: "Atoi (dec_string c) = Some (int c)" "?w ! 1 = dec_string c" "c < length (ar_cpus r)"
      "ct_limbo (ar_cpus r ! c) \<longrightarrow> type_word (se_type e) = ''CTXSW''"
    using Atoi_u16 [of "se_cpu e"] w(2) r(2,3) unfolding c_def by simp_all
  have 1: "run_line out r = run_entry ?w c
      (r\<lparr>ar_lineNumber := ar_lineNumber r + 1, ar_cpus := (ar_cpus r)[c := (ar_cpus r ! c)\<lparr>ct_limbo := False\<rparr>]\<rparr>)"
    using n long eod e r(1) w(1) c by (auto simp: run_line_def parse_or_panic_def Let_def)
  have uint_c: "uint (se_cpu e) = int c" by (simp add: c_def)
  show ?thesis unfolding 1 c_def [symmetric]
    using c(3) w(1,3-) Atoi_u16 Atoi_u32 uint_c
    by (simp add: run_entry_def parse_or_panic_def Let_def feed_def entry_of_def split_beta)
qed


definition switch_entry :: sepentry where
  "switch_entry = \<lparr>se_type = CTXSWITCH, se_cycles = 100, se_pid1 = 1, se_pid2 = 2, se_data = 0, se_addr = 0, se_location = 0,
     se_currpid = 1, se_cpu = 0\<rparr>"


end
