(* ===== verification/Cycles.thy ===== *)
theory Cycles
  imports Analyse
begin

text \<open>
  Both analysis programs add up the differences between successive readings of a 32-bit cycle counter.
  The interface of such a counter and what it accumulates, for the counter per processor of
  \<open>analyse.go\<close>; \<open>intraosdelay.go\<close> has another.
\<close>

text \<open>Readings at increasing times, each less than a full turn of the counter after the one before.\<close>

fun times_ok :: "int \<Rightarrow> int list \<Rightarrow> bool" where
  "times_ok t [] \<longleftrightarrow> True"
| "times_ok t (u # us) \<longleftrightarrow> t \<le> u \<and> u < t + 2 ^ 32 \<and> times_ok u us"

lemma delta_times:
  assumes "t \<le> u" "u < t + 2 ^ 32"
  shows "delta (t mod 2 ^ 32) (u mod 2 ^ 32) = u - t - (u div 2 ^ 32 - t div 2 ^ 32)"
proof -
  define q where "q = (t div 2 ^ 32 :: int)"
  define r where "r = (t mod 2 ^ 32 :: int)"
  have t: "t = q * 2 ^ 32 + r" "0 \<le> r" "r < 2 ^ 32" by (simp_all add: q_def r_def)
  show ?thesis
  proof (cases "u < q * 2 ^ 32 + 2 ^ 32")
    case True
    then have "u = q * 2 ^ 32 + (u - q * 2 ^ 32)" "0 \<le> u - q * 2 ^ 32" "u - q * 2 ^ 32 < 2 ^ 32" using assms t by auto
    then have "u div 2 ^ 32 = q" "u mod 2 ^ 32 = u - q * 2 ^ 32" by (metis div_pos_pos_trivial div_mult_self3 add.commute add_cancel_left_right zero_neq_numeral power_not_zero mod_mult_self3 mod_pos_pos_trivial)+
    then show ?thesis using assms t by (auto simp: delta_def q_def [symmetric] r_def [symmetric])
  next
    case False
    let ?v = "u - (q + 1) * 2 ^ 32"
    have v: "0 \<le> ?v" "?v < 2 ^ 32" "?v < r" using False assms t by auto
    have "u = ?v + (q + 1) * 2 ^ 32" by simp
    then have "u div 2 ^ 32 = q + 1" "u mod 2 ^ 32 = ?v" using v by (smt (verit) div_mult_self1 div_pos_pos_trivial mod_mult_self1 mod_pos_pos_trivial zero_less_power)+
    then show ?thesis using v t by (simp add: delta_def q_def [symmetric] r_def [symmetric])
  qed
qed

locale cycle_counter =
  fixes started :: "'s \<Rightarrow> bool" and reading :: "'s \<Rightarrow> int" and total :: "'s \<Rightarrow> int" and tick :: "int \<Rightarrow> 's \<Rightarrow> 's"
  assumes tick_started: "started s \<Longrightarrow> started (tick c s)"
    and tick_reading: "started s \<Longrightarrow> reading (tick c s) = c"
    and tick_total: "started s \<Longrightarrow> total (tick c s) = total s + delta (reading s) c"
begin

lemma total_ticks:
  "started s \<Longrightarrow> reading s = t mod 2 ^ 32 \<Longrightarrow> times_ok t ts \<Longrightarrow>
   total (fold tick (map (\<lambda>u. u mod 2 ^ 32) ts) s) =
     total s + (last (t # ts) - t) - (last (t # ts) div 2 ^ 32 - t div 2 ^ 32)"
proof (induction ts arbitrary: s t)
  case (Cons u ts)
  let ?s = "tick (u mod 2 ^ 32) s"
  have "started ?s" "reading ?s = u mod 2 ^ 32" using Cons.prems tick_started tick_reading by simp_all
  moreover have "total ?s = total s + (u - t) - (u div 2 ^ 32 - t div 2 ^ 32)"
    using Cons.prems tick_total delta_times [of t u] by simp
  ultimately show ?case using Cons.IH [of ?s u] Cons.prems(3) by simp
qed simp

end

interpretation cpu_cycles: cycle_counter "\<lambda>ts. \<not> ct_first ts" ct_cyc ct_cycles advance
  by unfold_locales (simp_all add: advance_def)

text \<open>
  The cycle counter of a processor (C14): from the first reading after the start of a trace on, the
  count the analyser gives to an entry is the time that passed since that reading, less one cycle for
  each time the 32-bit counter turned over in between.
\<close>

theorem cycles_accumulate:
  assumes "ct_first ts" "times_ok t us"
  shows "ct_cycles (fold advance (map (\<lambda>u. u mod 2 ^ 32) (t # us)) ts) =
    ct_cycles ts + (last (t # us) - t) - (last (t # us) div 2 ^ 32 - t div 2 ^ 32)"
proof -
  let ?ts = "advance (t mod 2 ^ 32) ts"
  have "\<not> ct_first ?ts" "ct_cyc ?ts = t mod 2 ^ 32" "ct_cycles ?ts = ct_cycles ts"
    using assms(1) by (simp_all add: advance_def delta_def)
  then show ?thesis using cpu_cycles.total_ticks [of ?ts t us] assms(2) by simp
qed

theorem cycles_accumulate_witness:
  "ct_cycles (fold advance (map (\<lambda>u. u mod 2 ^ 32) [2 ^ 32 - 10, 2 ^ 32 + 5])
     \<lparr>ct_first = True, ct_limbo = False, ct_lastCycle = 0, ct_cycles = 0, ct_cyc = 0\<rparr>) = 14"
  using cycles_accumulate [of "\<lparr>ct_first = True, ct_limbo = False, ct_lastCycle = 0, ct_cycles = 0, ct_cyc = 0\<rparr>"
    "2 ^ 32 - 10" "[2 ^ 32 + 5]"] by simp

end
