(* ===== verification/IntraDelay.thy ===== *)
theory IntraDelay
  imports Cycles
begin

text \<open>
  The delay program, \<open>intraosdelay.go\<close>: from the packet entries of processor 0 it prints the number of
  cycles between the reception of a packet and its transmission. What it prints is collected as a
  list of values, one for each call of a print function.
\<close>

section \<open>Definitions\<close>

datatype intra_out =
  OutEOD | OutError | OutEntry "string list" | OutEvent int int | Received int | Sent int | Delta int int

record intra =
  rxstart :: int
  lastCycles :: int
  intra_cycles :: int
  packets :: "int \<Rightarrow> int option"
  printed :: "intra_out list"

definition intra_delta :: "int \<Rightarrow> int \<Rightarrow> int" where
  "intra_delta a b = (if b < a then (0xFFFFFFFF - a) + b else b - a)"

definition intra_start :: intra where
  "intra_start = \<lparr>rxstart = -1, lastCycles = 0, intra_cycles = 0, packets = Map.empty, printed = []\<rparr>"

abbreviation out :: "intra_out \<Rightarrow> intra \<Rightarrow> intra" where
  "out x s \<equiv> s\<lparr>printed := printed s @ [x]\<rparr>"

definition count_cycles :: "int \<Rightarrow> intra \<Rightarrow> intra" where
  "count_cycles cyc s = s\<lparr>lastCycles := cyc, intra_cycles := intra_cycles s + intra_delta (lastCycles s) cyc\<rparr>"

text \<open>The switch on the kind of packet event.\<close>

definition packet_event :: "int \<Rightarrow> int \<Rightarrow> intra \<Rightarrow> intra outcome" where
  "packet_event eventType seqno s =
     (if eventType = 0 then Inr (s\<lparr>rxstart := intra_cycles s\<rparr>)
      else if eventType = 1 then
        (if rxstart s = -1 then Inr s
         else let s' = (if seqno \<noteq> 0
                        then (out (Received seqno) s)\<lparr>packets := (packets s)(seqno \<mapsto> intra_cycles s)\<rparr> else s)
              in Inr (s'\<lparr>rxstart := -1\<rparr>))
      else if eventType = 2 then
        (if seqno \<noteq> 0 then
           (case packets s seqno of
              None \<Rightarrow> Inr (out (Sent seqno) s)
            | Some v \<Rightarrow>
                Inr ((out (Delta seqno (intra_cycles s - v)) (out (Sent seqno) s))\<lparr>packets := (packets s)(seqno := None)\<rparr>))
         else Inr s)
      else if eventType = 4 then Inr s
      else Inl BugOn)"

definition intra_line :: "string \<Rightarrow> intra \<Rightarrow> intra outcome" where
  "intra_line line s =
     (let entry = ws_split line in
      if entry ! 0 = ''EOD'' then Inr (out OutEOD (s\<lparr>packets := Map.empty, rxstart := -1\<rparr>))
      else if length entry < 3 then Inr s
      else if entry ! 1 \<noteq> ''0'' then Inr s
      else bind_outcome (nth_checked entry 3) (\<lambda>w3.
        case Atoi w3 of
          None \<Rightarrow> Inr (out OutError s)
        | Some cyc \<Rightarrow>
            let s1 = count_cycles cyc s in
            if entry ! 0 \<noteq> ''PKTEXTR'' then Inr s1
            else let s2 = out (OutEntry entry) s1 in
              bind_outcome (nth_checked entry 5) (\<lambda>w5.
                case ParseInt 10 w5 of
                  None \<Rightarrow> Inr (out OutError s2)
                | Some eventType \<Rightarrow>
                    bind_outcome (nth_checked entry 6) (\<lambda>w6.
                      case ParseInt 16 w6 of
                        None \<Rightarrow> Inr (out OutError s2)
                      | Some seqno \<Rightarrow> packet_event eventType seqno (out (OutEvent eventType seqno) s2)))))"

definition intra_main :: "string list \<Rightarrow> intra outcome" where
  "intra_main ls = fold_outcome intra_line ls intra_start"

section \<open>The cycle counter\<close>

lemma intra_delta_delta: "intra_delta = delta"
  by (simp add: intra_delta_def delta_def fun_eq_iff)

interpretation intra_counter: cycle_counter "\<lambda>_. True" lastCycles intra_cycles count_cycles
  by unfold_locales (simp_all add: count_cycles_def intra_delta_delta)

section \<open>The delay of a packet\<close>

text \<open>A line of processor 0 read at time \<open>t\<close> that is no packet entry, and a packet entry read then.\<close>

definition quiet_line :: "string \<Rightarrow> int \<Rightarrow> bool" where
  "quiet_line l t \<longleftrightarrow> 4 \<le> length (ws_split l) \<and> ws_split l ! 0 \<noteq> ''EOD'' \<and> ws_split l ! 0 \<noteq> ''PKTEXTR'' \<and>
     ws_split l ! 1 = ''0'' \<and> Atoi (ws_split l ! 3) = Some (t mod 2 ^ 32)"

definition packet_line :: "string \<Rightarrow> int \<Rightarrow> int \<Rightarrow> int \<Rightarrow> bool" where
  "packet_line l t kind seqno \<longleftrightarrow> 7 \<le> length (ws_split l) \<and> ws_split l ! 0 = ''PKTEXTR'' \<and> ws_split l ! 1 = ''0'' \<and>
     Atoi (ws_split l ! 3) = Some (t mod 2 ^ 32) \<and> Atoi (ws_split l ! 5) = Some kind \<and>
     ParseInt 16 (ws_split l ! 6) = Some seqno"

lemma quiet_line_step: "quiet_line l t \<Longrightarrow> intra_line l s = Inr (count_cycles (t mod 2 ^ 32) s)"
  by (auto simp: quiet_line_def intra_line_def Let_def)

lemma packet_line_step:
  "packet_line l t kind seqno \<Longrightarrow> intra_line l s =
     packet_event kind seqno (out (OutEvent kind seqno) (out (OutEntry (ws_split l)) (count_cycles (t mod 2 ^ 32) s)))"
  by (auto simp: packet_line_def intra_line_def Let_def)

lemma quiet_lines_run:
  "list_all2 quiet_line ls ts \<Longrightarrow> fold_outcome intra_line ls s = Inr (fold count_cycles (map (\<lambda>u. u mod 2 ^ 32) ts) s)"
  by (induction ls ts arbitrary: s rule: list_all2_induct) (simp_all add: quiet_line_step)

lemma count_cycles_keeps:
  "packets (fold count_cycles cs s) = packets s \<and> rxstart (fold count_cycles cs s) = rxstart s"
  by (induction cs arbitrary: s) (simp_all add: count_cycles_def)

text \<open>
  The delay that is printed (C15): if the receive loop was entered and a packet is received at time
  \<open>t\<close> and sent at time \<open>u\<close>, with readings in between that are less than a turn of the counter apart,
  the program prints for it the time \<open>u - t\<close>, less one cycle for each turn of the counter.
\<close>

theorem intra_delay_printed:
  assumes "rxstart s \<noteq> -1" "seqno \<noteq> 0"
    and "packet_line lr t 1 seqno" "list_all2 quiet_line ls ts" "packet_line lt u 2 seqno" "times_ok t (ts @ [u])"
  shows "\<exists>s'. fold_outcome intra_line (lr # ls @ [lt]) s = Inr s' \<and>
    last (printed s') = Delta seqno (u - t - (u div 2 ^ 32 - t div 2 ^ 32))"
proof -
  let ?s1 = "count_cycles (t mod 2 ^ 32) s"
  obtain s2 where s2: "intra_line lr s = Inr s2" "packets s2 seqno = Some (intra_cycles s2)" "lastCycles s2 = t mod 2 ^ 32"
    using packet_line_step [OF assms(3), of s] assms(1,2) by (auto simp: packet_event_def count_cycles_def Let_def)
  let ?s3 = "fold count_cycles (map (\<lambda>u. u mod 2 ^ 32) ts) s2"
  let ?s4 = "count_cycles (u mod 2 ^ 32) ?s3"
  have "?s4 = fold count_cycles (map (\<lambda>u. u mod 2 ^ 32) (ts @ [u])) s2" by simp
  then have "intra_cycles ?s4 = intra_cycles s2 + (u - t) - (u div 2 ^ 32 - t div 2 ^ 32)"
    using intra_counter.total_ticks [of s2 t "ts @ [u]"] s2(3) assms(6) by (simp del: fold_append)
  moreover have "packets ?s4 seqno = Some (intra_cycles s2)" using count_cycles_keeps [of _ s2] s2(2) by (simp add: count_cycles_def)
  ultimately obtain s' where "intra_line lt ?s3 = Inr s'" "last (printed s') = Delta seqno (u - t - (u div 2 ^ 32 - t div 2 ^ 32))"
    using packet_line_step [OF assms(5), of ?s3] assms(2) by (simp add: packet_event_def)
  then show ?thesis using s2(1) quiet_lines_run [OF assms(4)] by (simp add: fold_outcome_append)
qed

theorem intra_delay_printed_witness:
  "\<exists>s'. fold_outcome intra_line [''PKTEXTR 0 1 100 0 1 5'', ''CTXSW 0 1 20'', ''PKTEXTR 0 1 50 0 2 5''] (intra_start\<lparr>rxstart := 0\<rparr>) = Inr s' \<and>
     last (printed s') = Delta 5 (4294967296 - 51)"
proof -
  have w: "ws_split ''PKTEXTR 0 1 100 0 1 5'' = [''PKTEXTR'', ''0'', ''1'', ''100'', ''0'', ''1'', ''5'']"
    "ws_split ''CTXSW 0 1 20'' = [''CTXSW'', ''0'', ''1'', ''20'']"
    "ws_split ''PKTEXTR 0 1 50 0 2 5'' = [''PKTEXTR'', ''0'', ''1'', ''50'', ''0'', ''2'', ''5'']"
    by code_simp+
  have d: "go_digit CHR ''0'' = Some 0" "go_digit CHR ''1'' = Some 1" "go_digit CHR ''2'' = Some 2" "go_digit CHR ''5'' = Some 5"
    by code_simp+
  note parse = ParseInt_def ParseUint_def Let_def d
  have "\<exists>s'. fold_outcome intra_line (''PKTEXTR 0 1 100 0 1 5'' # [''CTXSW 0 1 20''] @ [''PKTEXTR 0 1 50 0 2 5''])
      (intra_start\<lparr>rxstart := 0\<rparr>) = Inr s' \<and>
    last (printed s') = Delta 5 ((4294967296 + 50) - 100 - ((4294967296 + 50) div 2 ^ 32 - 100 div 2 ^ 32))"
    by (rule intra_delay_printed [where ts = "[4294967296 + 20]"])
      (simp_all add: packet_line_def quiet_line_def w parse)
  then show ?thesis by simp
qed

end
