(* ===== verification/Spec2Isabelle.thy ===== *)
theory Spec2Isabelle
  imports SepModule Completion Softirq NetBacklog IrqLine AnalyseTime AnalyseTypes Pipeline IntraDelay
begin

text \<open>
  \<^bold>\<open>The program.\<close> The repository is a tool chain that measures how long the parts of an operating
  system take: a Linux 3.0 kernel for OMAP (\<open>src/omap\<close>) instrumented with tracepoints, the tracer
  module SEPExtract that records what the tracepoints report
  (\<open>src/omap/kernel/trace/sepextracttracer\<close>), the program \<open>usnl\<close> that fetches the records over
  netlink and prints them, and three Go programs: \<open>src/resolve.go\<close> replaces the addresses in the
  printed trace by symbols, \<open>src/analyse.go\<close> rebuilds from it what each thread and interrupt did and
  writes signatures of the services, and \<open>src/intraosdelay.go\<close> prints the delay of packets.

  A tracepoint calls its probe, the probe records entries in the buffer of the tracer, the overflow
  or the stop command wakes \<open>usnl\<close> through a tasklet, \<open>usnl\<close> requests the entries one by one and
  writes a line for each, the resolver rewrites the line, and the analyser reads it.

  \<^bold>\<open>The theories.\<close> \<open>Prelude\<close> has the machine types (32-bit words; a pointer is a word), the type of
  outcomes, in which every out-of-bounds access, null pointer and deliberate stop of the source is a
  value, and lemmas about them. A state is a record with the source's variables; an operation is a
  function from state to outcome with the source's name.

  \<^item> \<open>SepTypes\<close>: \<open>sepext_trace.h\<close>, \<open>sepextract-structures.h\<close> and the tables of \<open>sepextdefs.c\<close>.
  \<^item> \<open>SepTracer\<close>: \<open>sepext_trace.c\<close> and \<open>globals.c\<close>. \<open>tracer\<close> is their state; \<open>trace_entry\<close>,
    \<open>nl_rcv_func\<close>, \<open>stop_tracing\<close>, \<open>run_command\<close>, \<open>initialize_tracer\<close> and \<open>cleanup_tracer\<close> are the
    operations. \<open>SepLog\<close> has the specification, a log of bounded length, the interface \<open>trace_sink\<close>
    through which probes record, the proof that the buffer implements the log, memory safety of every
    sequence of events, and what a whole session delivers.
  \<^item> \<open>SepProbes\<close>: \<open>static.c\<close>, one definition for each probe and for each tracepoint, as a second
    instance of \<open>trace_sink\<close>; which entries a packet-queue event records. \<open>SepModule\<close>: \<open>dynamic.c\<close>,
    \<open>st.c\<close> and \<open>sepext.c\<close>, loading and unloading.
  \<^item> \<open>Usnl\<close>: \<open>usnl.c\<close> as a machine with four places, run together with the tracer; it prints exactly
    the log.
  \<^item> \<open>KernelText\<close> and \<open>KernelPrint\<close>: the number parsers, \<open>sscanf\<close> and the number printer of
    \<open>lib/vsprintf.c\<close>; the printer with its multiplications by reciprocals prints the decimal digits,
    and numbers are read back.
  \<^item> \<open>Semaphore\<close> (\<open>kernel/semaphore.c\<close>), \<open>WaitQueue\<close> (\<open>kernel/wait.c\<close> and the wake-up functions of
    \<open>kernel/sched.c\<close>), \<open>Completion\<close> (the completions of \<open>kernel/sched.c\<close>), \<open>Tasklet\<close> and \<open>Softirq\<close>
    (\<open>kernel/softirq.c\<close>): the synchronisation code that is instrumented and that the tracer uses, as
    step relations over all interleavings of calls, wake-ups, signals and timeouts. Exclusion, order
    of service, no lost wake-up, no forgotten softirq, and the linked lists of tasklets as queues.
  \<^item> \<open>NetBacklog\<close> (\<open>net/core/dev.c\<close>): the instrumented receive path, \<open>netif_rx\<close>, \<open>enqueue_to_backlog\<close>,
    \<open>process_backlog\<close> and \<open>net_rx_action\<close>, on all processors at once. \<open>netsys\<close> is the \<open>softnet_data\<close> and
    the pending softirqs of each processor and the place of its handler. The invariant says where each
    NAPI structure is; packets arrive in order and none is stranded.
  \<^item> \<open>IrqLine\<close> (\<open>kernel/irq\<close>): the instrumented calls of the handlers of an interrupt line, its flow
    handlers and its threads. A oneshot line is masked for its threads and is not left masked, unless
    it is disabled at the wrong moment.
  \<^item> \<open>GoText\<close>: what the Go programs use of \<open>strconv\<close>, \<open>regexp\<close>, \<open>strings\<close> and \<open>fmt\<close>. Strings are
    lists of bytes. Go's integers are unbounded here: cycle counts and identifiers stay far below
    \<open>2^63\<close>.
  \<^item> \<open>Resolve\<close>: \<open>resolve.go\<close>; its cache changes nothing, and what a word becomes. \<open>Cycles\<close>: the
    interface \<open>cycle_counter\<close> of an accumulated 32-bit counter and what it counts, with instances for
    the analyser and, in \<open>IntraDelay\<close>, for \<open>intraosdelay.go\<close>, whose printed delays are shown there.
  \<^item> \<open>Analyse\<close>: \<open>run\<close> and every handler of \<open>analyse.go\<close>. Entries are shared by pointers and changed
    in place, so they live in a heap; \<open>handleEvent\<close> is the dispatch table. \<open>AnalyseView\<close> and
    \<open>AnalyseSpec\<close>: a view in which the stacks hold entries instead of pointers, the proof that the
    handlers implement it, and the reconstruction of call trees with nested calls and interrupts.
    \<open>AnalyseSig\<close>: \<open>createSignatures\<close>, one definition for each kind of event, and the layout of a
    signature file. \<open>AnalyseTime\<close>: from the trace of a call to a signature whose durations are the
    service's own time.
    \<open>AnalyseTypes\<close>: the well-typed states of the analyser. Every handler keeps them, and
    in a trace without migrations a well-formed line makes the analyser panic only at the end of an
    interrupt that did not begin or at an event that is matched against an open peripheral unit. A
    loop that a migrated thread closes does make it panic.
  \<^item> \<open>Pipeline\<close>: an entry of the tracer, printed by \<open>usnl\<close> and resolved, is read back by the analyser.

  \<^bold>\<open>Interfaces.\<close> \<open>trace_sink\<close> is what a probe needs of the tracer; \<open>log_reader\<close> is a client that asks
    for the log entry by entry, once with the bare requests of the tracer and once with the exchanges
    of \<open>usnl\<close>; \<open>cycle_counter\<close> is an accumulated counter; \<open>invariant_run\<close> carries an invariant along
    the runs of a step relation; \<open>waker\<close> is a wake-up function of a wait queue, used by completions.

  \<^bold>\<open>Bounds and loops.\<close> The loops over lists are recursive functions; \<open>scan_offset\<close>, \<open>radix_digits\<close>,
  \<open>ws_split\<close> and the softirq rounds terminate by a measure; the loop of \<open>tasklet_action\<close>, which would
  not end on a circular list, is a partial function that is shown to return on well-formed lists. No
  fuel is used.

  \<^bold>\<open>Parameters.\<close> The cycle counter, the current process, the allocator and the result of a netlink
  send are inputs of each step of the tracer; the registration of kprobes, the kernel symbol table
  and the handlers of softirqs and tasklets are arguments. What a device interrupt handler returns,
  what the poll function of a driver does, and the processor that receive packet steering chooses are
  inputs of the steps, with the contracts that the comments of the sources state as guards.

  \<^bold>\<open>Not modelled.\<close> The rest of the kernel and the wireless drivers, which only call tracepoints; of the
  receive path the protocols, GRO, transmission and processor hotplug, and of the interrupt lines the
  edge and per-processor flows, spurious interrupts, affinity and the freeing of a line; file
  and socket set-up; the floating-point averages in the signature files, which are arguments of the
  text that is written; progress output; \<open>toEntry\<close>, \<open>loadCase\<close> and \<open>createSignature\<close> of
  \<open>analyse.go\<close>, which nothing calls; the shell scripts; concurrency of processors inside a single
  operation of the tracer, whose atomic bit operations are the steps of the model.
\<close>

end
